(* ===== verification/JME_Prelude.thy ===== *)
theory JME_Prelude
  imports Main "HOL-Library.Word" "HOL-Library.Monad_Syntax"
begin

text \<open>
  Shared vocabulary of the development: the byte and integer types of the platform the engine is
  built for (little-endian, 32-bit \<open>int\<close>, 16-bit \<open>short\<close>, 64-bit \<open>size_t\<close>, as
  the makefile's g++ on x86-64 has them), C's \<open>memcpy\<close>, \<open>memmove\<close> and \<open>memset\<close> on one
  allocated block, and the little-endian layout of the integer fields of a packed struct.

  Undefined behaviour is the value \<open>None\<close>: an access outside the block, or a
  \<open>memcpy\<close> between overlapping regions. A function that returns \<open>Some\<close> has run without it.
\<close>

unbundle bit_operations_syntax

named_theorems mem_simps \<open>reads and writes of one block\<close>
named_theorems cint_simps \<open>conversions between the C integer types\<close>

type_synonym byte = "8 word"
type_synonym block = "byte list"

section \<open>C integer conversions\<close>

text \<open>The value of \<open>a - b\<close> and \<open>a + b\<close> at type \<open>size_t\<close>, operands given by their values.\<close>

definition size_sub :: "nat \<Rightarrow> nat \<Rightarrow> nat" where
  "size_sub a b = (if b \<le> a then a - b else 2 ^ 64 + a - b)"

definition size_of_int :: "int \<Rightarrow> nat" where
  "size_of_int i = nat (i mod 2 ^ 64)"

definition int32_of :: "int \<Rightarrow> int" where
  "int32_of i = (i + 2 ^ 31) mod 2 ^ 32 - 2 ^ 31"

lemma size_sub_le [cint_simps, simp]: "b \<le> a \<Longrightarrow> size_sub a b = a - b"
  by (simp add: size_sub_def)

lemma size_of_int_nat [cint_simps, simp]: "n < 2 ^ 64 \<Longrightarrow> size_of_int (int n) = n"
  by (simp add: size_of_int_def flip: zmod_int)

lemma size_of_int_nonneg [cint_simps]:
  "0 \<le> i \<Longrightarrow> i < 2 ^ 64 \<Longrightarrow> size_of_int i = nat i"
  by (simp add: size_of_int_def)

lemma size_of_int_neg [cint_simps]:
  "- (2 ^ 63) \<le> i \<Longrightarrow> i < 0 \<Longrightarrow> size_of_int i = nat (2 ^ 64 + i)"
proof -
  assume i: "- (2 ^ 63) \<le> i" "i < 0"
  have "i mod 2 ^ 64 = (i + 2 ^ 64) mod 2 ^ 64" by simp
  also have "\<dots> = i + 2 ^ 64" using i by (intro mod_pos_pos_trivial) auto
  finally show ?thesis by (simp add: size_of_int_def add.commute)
qed

lemma int32_of_id [cint_simps]:
  "- (2 ^ 31) \<le> i \<Longrightarrow> i < 2 ^ 31 \<Longrightarrow> int32_of i = i"
  by (simp add: int32_of_def)

lemma int32_of_range: "- (2 ^ 31) \<le> int32_of i \<and> int32_of i < 2 ^ 31"
  using pos_mod_bound [of "2 ^ 32" "i + 2 ^ 31"] by (simp add: int32_of_def)

section \<open>One allocated block\<close>

definition mem_read :: "block \<Rightarrow> nat \<Rightarrow> nat \<Rightarrow> block option" where
  "mem_read m off n = (if off + n \<le> length m then Some (take n (drop off m)) else None)"

definition mem_write :: "block \<Rightarrow> nat \<Rightarrow> block \<Rightarrow> block option" where
  "mem_write m off bs =
     (if off + length bs \<le> length m then Some (take off m @ bs @ drop (off + length bs) m)
      else None)"

definition memset :: "block \<Rightarrow> nat \<Rightarrow> byte \<Rightarrow> nat \<Rightarrow> block option" where
  "memset m off c n = mem_write m off (replicate n c)"

definition memmove :: "block \<Rightarrow> nat \<Rightarrow> nat \<Rightarrow> nat \<Rightarrow> block option" where
  "memmove m dst src n = Option.bind (mem_read m src n) (mem_write m dst)"

definition memcpy :: "block \<Rightarrow> nat \<Rightarrow> nat \<Rightarrow> nat \<Rightarrow> block option" where
  "memcpy m dst src n =
     (if n = 0 \<or> dst + n \<le> src \<or> src + n \<le> dst then memmove m dst src n else None)"

lemma mem_read_Some [mem_simps]:
  "off + n \<le> length m \<Longrightarrow> mem_read m off n = Some (take n (drop off m))"
  by (simp add: mem_read_def)

lemma mem_write_Some [mem_simps]:
  "off + length bs \<le> length m \<Longrightarrow>
     mem_write m off bs = Some (take off m @ bs @ drop (off + length bs) m)"
  by (simp add: mem_write_def)

lemma memset_Some [mem_simps]:
  "off + n \<le> length m \<Longrightarrow>
     memset m off c n = Some (take off m @ replicate n c @ drop (off + n) m)"
  by (simp add: memset_def mem_simps)

lemma memmove_Some [mem_simps]:
  "dst + n \<le> length m \<Longrightarrow> src + n \<le> length m \<Longrightarrow>
     memmove m dst src n = Some (take dst m @ take n (drop src m) @ drop (dst + n) m)"
  by (simp add: memmove_def mem_simps)

lemma memcpy_Some [mem_simps]:
  "dst + n \<le> src \<Longrightarrow> src + n \<le> length m \<Longrightarrow>
     memcpy m dst src n = Some (take dst m @ take n (drop src m) @ drop (dst + n) m)"
  by (simp add: memcpy_def mem_simps)

lemma mem_write_length: "mem_write m off bs = Some m' \<Longrightarrow> length m' = length m"
  by (auto simp: mem_write_def split: if_splits)

lemma mem_write_bounds: "mem_write m off bs = Some m' \<Longrightarrow> off + length bs \<le> length m"
  by (auto simp: mem_write_def split: if_splits)

section \<open>Little-endian fields\<close>

definition le32 :: "32 word \<Rightarrow> byte list" where
  "le32 w = [ucast w, ucast (drop_bit 8 w), ucast (drop_bit 16 w), ucast (drop_bit 24 w)]"

definition le16 :: "16 word \<Rightarrow> byte list" where
  "le16 w = [ucast w, ucast (drop_bit 8 w)]"

fun of_le32 :: "byte list \<Rightarrow> 32 word" where
  "of_le32 (a # b # c # d # _) =
     ucast a OR push_bit 8 (ucast b) OR push_bit 16 (ucast c) OR push_bit 24 (ucast d)"
| "of_le32 _ = 0"

fun of_le16 :: "byte list \<Rightarrow> 16 word" where
  "of_le16 (a # b # _) = ucast a OR push_bit 8 (ucast b)"
| "of_le16 _ = 0"

lemma length_le32 [simp]: "length (le32 w) = 4"
  by (simp add: le32_def)

lemma length_le16 [simp]: "length (le16 w) = 2"
  by (simp add: le16_def)

lemma of_le32_le32 [simp]: "of_le32 (le32 w @ bs) = w"
proof (rule bit_word_eqI)
  fix n assume "n < LENGTH(32)"
  then consider "n < 8" | "8 \<le> n" "n < 16" | "16 \<le> n" "n < 24" | "24 \<le> n" "n < 32"
    by fastforce
  then show "bit (of_le32 (le32 w @ bs)) n = bit w n"
    by cases (auto simp: le32_def bit_simps)
qed

lemma of_le16_le16 [simp]: "of_le16 (le16 w @ bs) = w"
  unfolding le16_def
  by (simp, intro bit_word_eqI, auto simp: bit_simps)

lemma le32_of_le32: "4 \<le> length bs \<Longrightarrow> le32 (of_le32 bs) = take 4 bs"
proof (cases bs rule: of_le32.cases)
  case (1 a b c d r)
  have "ucast (of_le32 bs) = a" "ucast (drop_bit 8 (of_le32 bs)) = b"
    "ucast (drop_bit 16 (of_le32 bs)) = c" "ucast (drop_bit 24 (of_le32 bs)) = d"
    unfolding 1 by (rule bit_word_eqI, auto simp: bit_simps dest: bit_imp_le_length)+
  then show ?thesis by (simp add: le32_def 1 eval_nat_numeral)
qed auto

lemma le16_of_le16: "2 \<le> length bs \<Longrightarrow> le16 (of_le16 bs) = take 2 bs"
proof (cases bs rule: of_le16.cases)
  case (1 a b r)
  have "ucast (of_le16 bs) = a" "ucast (drop_bit 8 (of_le16 bs)) = b"
    unfolding 1 by (rule bit_word_eqI, auto simp: bit_simps dest: bit_imp_le_length)+
  then show ?thesis by (simp add: le16_def 1 eval_nat_numeral)
qed auto

end
