(* ===== verification/JME_Message.thy ===== *)
theory JME_Message
  imports JME_Prelude
begin

text \<open>
  The message unit of the wire protocol (include/net/JME_Message.h): the packed 14-byte header,
  the constructors of \<open>Message\<close>, \<open>messageDataLen\<close>, \<open>getMessageStr\<close> and \<open>Message::create\<close>,
  which copies one framed message out of a receive buffer into a fresh allocation.

  \<open>header_bytes\<close> is the object representation of the packed header, which the senders copy with
  \<open>(const char*)&msg\<close>; \<open>encode\<close> is what a sender puts on the wire for a message. The pointer
  \<open>_msgData\<close> is modelled by the bytes readable through it.
\<close>

definition RPCMessage :: "16 word" where "RPCMessage = 1"
definition HeartBeat :: "16 word" where "HeartBeat = 2"

definition MessageHeaderLength :: nat where "MessageHeaderLength = 14"

definition MaxMsgLength :: nat where "MaxMsgLength = 819200"

text \<open>\<open>sizeof(long)\<close>, \<open>sizeof(char*)\<close> and the packed \<open>sizeof(Message)\<close> of the platform.\<close>

definition sizeof_long :: nat where "sizeof_long = 8"
definition sizeof_ptr :: nat where "sizeof_ptr = 8"
definition sizeof_Message :: nat where "sizeof_Message = MessageHeaderLength + sizeof_ptr"

record MessageHeader =
  totalLen :: "32 word"
  msgId :: "16 word"
  netId :: "32 word"
  bindId :: "32 word"

record Message = MessageHeader +
  msgData :: block

text \<open>The constructor \<open>MessageHeader(int msgId = 0)\<close>; the \<open>int\<close> is narrowed to a \<open>short\<close>.\<close>

definition MessageHeader_new :: "32 word \<Rightarrow> MessageHeader" where
  "MessageHeader_new i =
     \<lparr>totalLen = of_nat MessageHeaderLength, msgId = ucast i, netId = 0, bindId = 0\<rparr>"

definition Message_of_header :: "MessageHeader \<Rightarrow> block \<Rightarrow> Message" where
  "Message_of_header h d = MessageHeader.extend h (Message.fields d)"

text \<open>\<open>Message()\<close> and \<open>Message(short)\<close>: no data, the length stays that of the header.\<close>

definition Message_empty :: Message where
  "Message_empty = Message_of_header (MessageHeader_new 0) []"

definition Message_id :: "16 word \<Rightarrow> Message" where
  "Message_id i = Message_of_header (MessageHeader_new (scast i)) []"

text \<open>\<open>Message(short, const string&)\<close> and \<open>Message(short, int, const string&)\<close>; the
  \<open>size_t\<close> sum is narrowed to the \<open>int\<close> field.\<close>

definition Message_str :: "16 word \<Rightarrow> byte list \<Rightarrow> Message" where
  "Message_str i s =
     (Message_of_header (MessageHeader_new (scast i)) [])
       \<lparr>totalLen := of_nat (length s + MessageHeaderLength), msgData := s\<rparr>"

definition Message_net_str :: "16 word \<Rightarrow> 32 word \<Rightarrow> byte list \<Rightarrow> Message" where
  "Message_net_str i net s =
     (Message_of_header (MessageHeader_new (scast i)) [])
       \<lparr>netId := net, totalLen := of_nat (length s + MessageHeaderLength), msgData := s\<rparr>"

definition messageDataLen :: "Message \<Rightarrow> nat" where
  "messageDataLen m = size_of_int (sint (totalLen m) - int MessageHeaderLength)"

definition getMessageStr :: "Message \<Rightarrow> byte list option" where
  "getMessageStr m = mem_read (msgData m) 0 (messageDataLen m)"

definition header_bytes :: "('a MessageHeader_scheme) \<Rightarrow> byte list" where
  "header_bytes m = le32 (totalLen m) @ le16 (msgId m) @ le32 (netId m) @ le32 (bindId m)"

definition header_of_bytes :: "byte list \<Rightarrow> MessageHeader" where
  "header_of_bytes bs =
     \<lparr>totalLen = of_le32 bs, msgId = of_le16 (drop 4 bs),
      netId = of_le32 (drop 6 bs), bindId = of_le32 (drop 10 bs)\<rparr>"

text \<open>
  \<open>Message(const char* data_ptr)\<close>, run on an allocation of \<open>room\<close> bytes: both copies read from
  the bytes \<open>src\<close> readable at \<open>data_ptr\<close>, the second one lands behind the object.
\<close>

definition Message_of_data :: "nat \<Rightarrow> block \<Rightarrow> Message option" where
  "Message_of_data room src = do {
     hdr \<leftarrow> mem_read src 0 MessageHeaderLength;
     let h = header_of_bytes hdr;
     let msgSize = size_of_int (sint (totalLen h) - int MessageHeaderLength);
     d \<leftarrow> mem_read src MessageHeaderLength msgSize;
     if sizeof_Message + msgSize \<le> room then Some (Message_of_header h d) else None
   }"

definition Message_create :: "block \<Rightarrow> nat \<Rightarrow> Message option" where
  "Message_create src len = Message_of_data (len + sizeof_long) src"

text \<open>What a sender puts on the wire.\<close>

definition encode :: "Message \<Rightarrow> byte list" where
  "encode m = header_bytes m @ take (messageDataLen m) (msgData m)"

text \<open>The length field of a well-formed message is the length of the encoded message.\<close>

definition wf_msg :: "Message \<Rightarrow> bool" where
  "wf_msg m \<longleftrightarrow> sint (totalLen m) = int (MessageHeaderLength + length (msgData m))"

section \<open>Lemmas\<close>

lemmas message_consts = MessageHeaderLength_def sizeof_Message_def sizeof_long_def sizeof_ptr_def

lemma length_header_bytes [simp]: "length (header_bytes m) = MessageHeaderLength"
  by (simp add: header_bytes_def MessageHeaderLength_def)

lemma of_le32_header_bytes [simp]: "of_le32 (header_bytes m @ bs) = totalLen m"
  by (simp add: header_bytes_def)

lemma header_of_bytes_header_bytes [simp]:
  "header_of_bytes (header_bytes m @ bs) = MessageHeader.truncate m"
  by (simp add: header_of_bytes_def header_bytes_def MessageHeader.defs drop_append)

lemma Message_of_header_truncate [simp]:
  "Message_of_header (MessageHeader.truncate m) (msgData m) = m" for m :: Message
  by (cases m) (simp add: Message_of_header_def MessageHeader.defs Message.defs)

lemma sint_totalLen_less: "sint (totalLen m) < 2 ^ 31" for m :: "('a MessageHeader_scheme)"
  using sint_lt [of "totalLen m"] by simp

lemma wf_msg_dataLen: "wf_msg m \<Longrightarrow> messageDataLen m = length (msgData m)"
proof -
  assume wf: "wf_msg m"
  then have "length (msgData m) < 2 ^ 31"
    using sint_totalLen_less [of m] by (simp add: wf_msg_def)
  with wf show ?thesis by (simp add: wf_msg_def messageDataLen_def)
qed

lemma wf_msg_encode: "wf_msg m \<Longrightarrow> encode m = header_bytes m @ msgData m"
  by (simp add: encode_def wf_msg_dataLen)

lemma wf_msg_length_encode: "wf_msg m \<Longrightarrow> int (length (encode m)) = sint (totalLen m)"
  by (simp add: wf_msg_encode wf_msg_def)

lemma wf_msg_totalLen_encode: "wf_msg m \<Longrightarrow> sint (of_le32 (encode m @ bs)) = int (length (encode m))"
  by (simp add: wf_msg_encode wf_msg_def)

lemma sint_of_nat32: "n < 2 ^ 31 \<Longrightarrow> sint (of_nat n :: 32 word) = int n"
  by (simp add: signed_of_nat signed_take_bit_int_eq_self)

lemma wf_Message_str: "length s + 14 < 2 ^ 31 \<Longrightarrow> wf_msg (Message_str i s)"
  using sint_of_nat32 [of "length s + 14"]
  by (simp add: wf_msg_def Message_str_def Message_of_header_def MessageHeader_new_def
      MessageHeaderLength_def MessageHeader.defs Message.defs add.commute del: of_nat_add)

lemma ucast_scast_short [simp]: "ucast (scast i :: 32 word) = i" for i :: "16 word"
proof (rule bit_word_eqI)
  fix n assume "n < LENGTH(16)"
  then have "n < 15 \<or> n = 15" by auto
  then show "bit (ucast (scast i :: 32 word) :: 16 word) n = bit i n"
    by (auto simp: bit_simps)
qed

lemma Message_str_sel [simp]:
  "msgData (Message_str i s) = s" "msgId (Message_str i s) = i"
  "netId (Message_str i s) = 0" "bindId (Message_str i s) = 0"
  by (simp_all add: Message_str_def Message_of_header_def MessageHeader_new_def
      MessageHeader.defs Message.defs)

lemma create_encode_aux:
  assumes "wf_msg m"
  shows "Message_create (encode m @ rest) (length (encode m)) = Some m"
proof -
  have len: "size_of_int (sint (totalLen m) - int MessageHeaderLength) = length (msgData m)"
    using wf_msg_dataLen [OF assms] by (simp add: messageDataLen_def)
  have hdr: "mem_read (encode m @ rest) 0 MessageHeaderLength = Some (header_bytes m)"
    by (simp add: mem_simps wf_msg_encode [OF assms])
  have sel: "header_of_bytes (header_bytes m) = MessageHeader.truncate m"
    using header_of_bytes_header_bytes [of m "[]"] by simp
  have tl: "totalLen (MessageHeader.truncate m) = totalLen m"
    by (simp add: MessageHeader.defs)
  have dat: "mem_read (encode m @ rest) MessageHeaderLength (length (msgData m)) = Some (msgData m)"
    by (simp add: mem_simps wf_msg_encode [OF assms])
  show ?thesis
    by (simp add: Message_create_def Message_of_data_def hdr sel tl len dat Let_def)
      (simp add: wf_msg_encode [OF assms] message_consts)
qed

text \<open>
  C10 (round trip). Copying an encoded well-formed message out of a buffer with
  \<open>Message::create\<close> gives the message back: every header field and the payload, whatever
  bytes follow it in the buffer, and the copy stays inside the allocation of
  \<open>len + sizeof(long)\<close> bytes.
\<close>

theorem create_encode:
  assumes "wf_msg m"
  shows "Message_create (encode m @ rest) (length (encode m)) = Some m"
  using assms by (rule create_encode_aux)

theorem create_encode_witness:
  "wf_msg (Message_str RPCMessage [1, 2, 3]) \<and>
   Message_create (encode (Message_str RPCMessage [1, 2, 3]) @ [9])
     (length (encode (Message_str RPCMessage [1, 2, 3]))) = Some (Message_str RPCMessage [1, 2, 3])"
proof -
  have "wf_msg (Message_str RPCMessage [1, 2, 3])"
    by (rule wf_Message_str) simp
  then show ?thesis using create_encode by blast
qed

end
