(* ===== verification/JME_ReadBuffer.thy ===== *)
theory JME_ReadBuffer
  imports JME_Message
begin

text \<open>
  The receive buffer (include/net/JME_ReadBuffer.h). The three pointers of the class are offsets
  into one block: \<open>_buffOffest\<close> is the end of the received bytes, \<open>_handleOffest\<close> the start of the
  bytes not yet handed out. The bytes between them are \<open>unread\<close>, the abstraction of the buffer:
  receiving appends to it, \<open>getMessage\<close> removes one framed message from its front, moving the
  bytes to the start of the block changes nothing of it.

  The locale \<open>message_buffer\<close> is the interface the sessions use; \<open>stream_frames\<close> is the
  specification of framing on a plain byte stream.
\<close>

record ReadBuffer =
  rb_buffer :: block
  rb_buffSize :: nat
  rb_buffOffest :: nat
  rb_handleOffest :: nat

definition ReadBufferError :: int where "ReadBufferError = -1"
definition ReadBufferNoMessage :: int where "ReadBufferNoMessage = 0"

text \<open>The constructor; \<open>mem\<close> is the block of \<open>n\<close> uninitialised bytes that \<open>nedmalloc(n)\<close> gives.\<close>

definition ReadBuffer_new :: "block \<Rightarrow> ReadBuffer" where
  "ReadBuffer_new mem =
     \<lparr>rb_buffer = mem, rb_buffSize = length mem, rb_buffOffest = 0, rb_handleOffest = 0\<rparr>"

definition getBuffer :: "ReadBuffer \<Rightarrow> nat" where
  "getBuffer rb = rb_buffOffest rb"

definition rb_reset :: "ReadBuffer \<Rightarrow> ReadBuffer" where
  "rb_reset rb = rb\<lparr>rb_buffOffest := 0, rb_handleOffest := 0\<rparr>"

definition getAvailableBufferSize :: "ReadBuffer \<Rightarrow> nat" where
  "getAvailableBufferSize rb = size_sub (rb_buffSize rb) (rb_buffOffest rb)"

text \<open>Whether the warning that the buffer is nearly full is logged.\<close>

definition onCheckBufferWaining :: "ReadBuffer \<Rightarrow> bool" where
  "onCheckBufferWaining rb \<longleftrightarrow> \<not> rb_buffOffest rb < rb_buffSize rb div 10 * 9"

definition readNewData :: "nat \<Rightarrow> ReadBuffer \<Rightarrow> ReadBuffer" where
  "readNewData len rb = rb\<lparr>rb_buffOffest := rb_buffOffest rb + len\<rparr>"

definition onCheckBuffer :: "ReadBuffer \<Rightarrow> ReadBuffer option" where
  "onCheckBuffer rb =
     (if rb_handleOffest rb > rb_buffSize rb div 2 + 1 then do {
        let blen = int32_of (int (rb_buffOffest rb) - int (rb_handleOffest rb));
        b1 \<leftarrow> memcpy (rb_buffer rb) 0 (rb_handleOffest rb) (size_of_int blen);
        b2 \<leftarrow> memset b1 (nat blen) 0 (size_sub (rb_buffSize rb) (size_of_int blen));
        Some (rb\<lparr>rb_buffer := b2, rb_handleOffest := 0, rb_buffOffest := nat blen\<rparr>)
      } else Some rb)"

definition nextMessageLength :: "ReadBuffer \<Rightarrow> int option" where
  "nextMessageLength rb =
     (let n = int (rb_buffOffest rb) - int (rb_handleOffest rb) in
      if n \<ge> int MessageHeaderLength then do {
        b \<leftarrow> mem_read (rb_buffer rb) (rb_handleOffest rb) 4;
        let len = sint (of_le32 b);
        Some (if len < int MessageHeaderLength then ReadBufferError
              else if n \<ge> len then len
              else ReadBufferNoMessage)
      } else Some ReadBufferNoMessage)"

text \<open>
  \<open>getMessage\<close>: the return value, the values stored through \<open>buff\<close> and \<open>len\<close> (if any), and the
  buffer afterwards.
\<close>

definition getMessage :: "ReadBuffer \<Rightarrow> (int \<times> (nat \<times> nat) option \<times> ReadBuffer) option" where
  "getMessage rb = do {
     rb1 \<leftarrow> onCheckBuffer rb;
     mlen \<leftarrow> nextMessageLength rb1;
     if mlen \<ge> int MessageHeaderLength
        \<and> int (rb_buffOffest rb1) - int (rb_handleOffest rb1) \<ge> mlen
     then Some (mlen, Some (rb_handleOffest rb1, nat mlen),
                rb1\<lparr>rb_handleOffest := rb_handleOffest rb1 + nat mlen\<rparr>)
     else Some (mlen, None, rb1)
   }"

text \<open>
  What both sessions do with a buffer. The socket stores the received bytes at \<open>getBuffer()\<close> and
  the handler then calls \<open>readNewData\<close> with their number; the handlers pass what \<open>getMessage\<close>
  points to straight to \<open>Message::create\<close>.
\<close>

definition rb_receive :: "ReadBuffer \<Rightarrow> block \<Rightarrow> ReadBuffer option" where
  "rb_receive rb bs =
     map_option (\<lambda>b. readNewData (length bs) (rb\<lparr>rb_buffer := b\<rparr>))
       (mem_write (rb_buffer rb) (getBuffer rb) bs)"

definition rb_take :: "ReadBuffer \<Rightarrow> (int \<times> Message option \<times> ReadBuffer) option" where
  "rb_take rb = do {
     (c, out, rb1) \<leftarrow> getMessage rb;
     case out of
       None \<Rightarrow> Some (c, None, rb1)
     | Some (p, l) \<Rightarrow>
         map_option (\<lambda>m. (c, Some m, rb1)) (Message_create (drop p (rb_buffer rb1)) l)
   }"

section \<open>Invariant and abstraction\<close>

text \<open>
  The offsets are ordered and the size fits the \<open>int\<close> that \<open>onCheckBuffer\<close> computes with.
\<close>

definition rb_inv :: "ReadBuffer \<Rightarrow> bool" where
  "rb_inv rb \<longleftrightarrow>
     rb_handleOffest rb \<le> rb_buffOffest rb \<and> rb_buffOffest rb \<le> rb_buffSize rb \<and>
     length (rb_buffer rb) = rb_buffSize rb \<and> rb_buffSize rb < 2 ^ 31"

definition unread :: "ReadBuffer \<Rightarrow> byte list" where
  "unread rb = take (rb_buffOffest rb - rb_handleOffest rb) (drop (rb_handleOffest rb) (rb_buffer rb))"

text \<open>The length a framed stream announces, if its header has arrived.\<close>

definition announced :: "byte list \<Rightarrow> int option" where
  "announced bs = (if length bs < MessageHeaderLength then None else Some (sint (of_le32 bs)))"

text \<open>The result of framing one message off a byte stream.\<close>

datatype frame = BadFrame | Incomplete | Complete nat

definition next_frame :: "byte list \<Rightarrow> frame" where
  "next_frame bs =
     (case announced bs of
        None \<Rightarrow> Incomplete
      | Some n \<Rightarrow> if n < int MessageHeaderLength then BadFrame
                 else if n \<le> int (length bs) then Complete (nat n) else Incomplete)"

lemma length_unread: "rb_inv rb \<Longrightarrow> length (unread rb) = rb_buffOffest rb - rb_handleOffest rb"
  by (auto simp: rb_inv_def unread_def)

lemma rb_inv_new: "length mem < 2 ^ 31 \<Longrightarrow> rb_inv (ReadBuffer_new mem)"
  by (simp add: rb_inv_def ReadBuffer_new_def)

lemma unread_new [simp]: "unread (ReadBuffer_new mem) = []"
  by (simp add: unread_def ReadBuffer_new_def)

lemma rb_inv_reset: "rb_inv rb \<Longrightarrow> rb_inv (rb_reset rb)"
  by (simp add: rb_inv_def rb_reset_def)

lemma unread_reset [simp]: "unread (rb_reset rb) = []"
  by (simp add: unread_def rb_reset_def)

section \<open>The operations refine the stream\<close>

lemma onCheckBuffer_move:
  assumes inv: "rb_inv rb" and far: "rb_handleOffest rb > rb_buffSize rb div 2 + 1"
  shows "onCheckBuffer rb =
    Some (rb\<lparr>rb_buffer := unread rb @ replicate (rb_buffSize rb - length (unread rb)) 0,
             rb_handleOffest := 0, rb_buffOffest := length (unread rb)\<rparr>)"
proof -
  define n where "n = rb_buffOffest rb - rb_handleOffest rb"
  have le: "rb_handleOffest rb + n = rb_buffOffest rb" "rb_buffOffest rb \<le> length (rb_buffer rb)"
    "rb_buffSize rb = length (rb_buffer rb)" "n < 2 ^ 31"
    using inv by (auto simp: rb_inv_def n_def)
  have blen: "int32_of (int (rb_buffOffest rb) - int (rb_handleOffest rb)) = int n"
    using inv le by (subst int32_of_id) (auto simp: rb_inv_def n_def)
  have size: "size_of_int (int n) = n"
    using le by simp
  have cpy: "memcpy (rb_buffer rb) 0 (rb_handleOffest rb) n = Some (unread rb @ drop n (rb_buffer rb))"
    using le far by (simp add: mem_simps unread_def n_def)
  have len: "length (unread rb) = n"
    using inv by (simp add: length_unread n_def)
  have set: "memset (unread rb @ drop n (rb_buffer rb)) n 0 (rb_buffSize rb - n)
      = Some (unread rb @ replicate (rb_buffSize rb - n) 0)"
    using le len by (simp add: mem_simps)
  show ?thesis
    using far le set by (simp add: onCheckBuffer_def Let_def blen size cpy len)
qed

lemma onCheckBuffer_ok:
  assumes "rb_inv rb"
  shows "\<exists>rb'. onCheckBuffer rb = Some rb' \<and> rb_inv rb' \<and> unread rb' = unread rb
    \<and> rb_buffSize rb' = rb_buffSize rb \<and> rb_handleOffest rb' \<le> rb_buffSize rb div 2 + 1"
proof (cases "rb_handleOffest rb > rb_buffSize rb div 2 + 1")
  case True
  then show ?thesis
    using assms length_unread [OF assms]
    by (auto simp: onCheckBuffer_move rb_inv_def unread_def)
next
  case False
  then show ?thesis using assms by (simp add: onCheckBuffer_def)
qed

lemma nextMessageLength_spec:
  assumes inv: "rb_inv rb"
  shows "nextMessageLength rb = Some (case next_frame (unread rb) of
    BadFrame \<Rightarrow> ReadBufferError | Incomplete \<Rightarrow> ReadBufferNoMessage | Complete n \<Rightarrow> int n)"
proof (cases "length (unread rb) < MessageHeaderLength")
  case True
  then show ?thesis
    using inv
    by (auto simp: nextMessageLength_def next_frame_def announced_def length_unread rb_inv_def Let_def)
next
  case False
  have rd: "mem_read (rb_buffer rb) (rb_handleOffest rb) 4 = Some (take 4 (unread rb))"
  proof -
    have "14 \<le> rb_buffOffest rb - rb_handleOffest rb"
      using False length_unread [OF inv] by (simp add: MessageHeaderLength_def)
    then show ?thesis
      using inv by (auto simp: mem_read_def unread_def rb_inv_def min_def)
  qed
  have dec: "of_le32 (take 4 (unread rb)) = of_le32 (unread rb)"
    by (cases "unread rb" rule: of_le32.cases) (auto simp: eval_nat_numeral)
  show ?thesis
    using False inv length_unread [OF inv]
    by (auto simp: nextMessageLength_def next_frame_def announced_def rd dec Let_def rb_inv_def of_nat_diff)
qed

lemma getMessage_spec:
  assumes inv: "rb_inv rb"
  obtains rb1 where "rb_inv rb1" "unread rb1 = unread rb" "rb_buffSize rb1 = rb_buffSize rb"
    "rb_handleOffest rb1 \<le> rb_buffSize rb div 2 + 1"
    "getMessage rb = Some (case next_frame (unread rb) of
       BadFrame \<Rightarrow> (ReadBufferError, None, rb1)
     | Incomplete \<Rightarrow> (ReadBufferNoMessage, None, rb1)
     | Complete n \<Rightarrow> (int n, Some (rb_handleOffest rb1, n),
         rb1\<lparr>rb_handleOffest := rb_handleOffest rb1 + n\<rparr>))"
proof -
  from onCheckBuffer_ok [OF inv] obtain rb1 where
    rb1: "onCheckBuffer rb = Some rb1" "rb_inv rb1" "unread rb1 = unread rb"
      "rb_buffSize rb1 = rb_buffSize rb" "rb_handleOffest rb1 \<le> rb_buffSize rb div 2 + 1"
    by blast
  have "getMessage rb = Some (case next_frame (unread rb) of
       BadFrame \<Rightarrow> (ReadBufferError, None, rb1)
     | Incomplete \<Rightarrow> (ReadBufferNoMessage, None, rb1)
     | Complete n \<Rightarrow> (int n, Some (rb_handleOffest rb1, n),
         rb1\<lparr>rb_handleOffest := rb_handleOffest rb1 + n\<rparr>))"
    using length_unread [OF rb1(2)] rb1(2)
    by (auto simp: getMessage_def rb1(1,3) nextMessageLength_spec [OF rb1(2)] next_frame_def
        announced_def ReadBufferError_def ReadBufferNoMessage_def rb_inv_def of_nat_diff
        MessageHeaderLength_def split: frame.splits if_splits option.splits)
  with rb1(2-5) that show thesis by blast
qed

lemma rb_receive_ok:
  assumes inv: "rb_inv rb" and fits: "length bs \<le> getAvailableBufferSize rb"
  shows "\<exists>rb'. rb_receive rb bs = Some rb' \<and> rb_inv rb' \<and> unread rb' = unread rb @ bs
    \<and> rb_buffSize rb' = rb_buffSize rb"
proof -
  have le: "rb_buffOffest rb + length bs \<le> length (rb_buffer rb)"
    using inv fits by (auto simp: rb_inv_def getAvailableBufferSize_def)
  then show ?thesis
    using inv by (simp add: rb_receive_def mem_simps getBuffer_def readNewData_def rb_inv_def unread_def
        take_drop)
qed

section \<open>Framing of a byte stream\<close>

text \<open>The message a complete frame holds.\<close>

definition frame_message :: "byte list \<Rightarrow> Message" where
  "frame_message fr = Message_of_header (header_of_bytes fr) (drop MessageHeaderLength fr)"

lemma next_frame_Complete:
  "next_frame bs = Complete n \<longleftrightarrow>
     MessageHeaderLength \<le> n \<and> n \<le> length bs \<and> sint (of_le32 bs) = int n"
  by (auto simp: next_frame_def announced_def MessageHeaderLength_def split: option.splits if_splits)

lemma next_frame_Bad:
  "next_frame bs = BadFrame \<longleftrightarrow>
     MessageHeaderLength \<le> length bs \<and> sint (of_le32 bs) < int MessageHeaderLength"
  by (auto simp: next_frame_def announced_def split: option.splits if_splits)

lemma of_le32_append: "4 \<le> length bs \<Longrightarrow> of_le32 (bs @ cs) = of_le32 bs"
  by (cases bs rule: of_le32.cases) auto

lemma of_le16_append: "2 \<le> length bs \<Longrightarrow> of_le16 (bs @ cs) = of_le16 bs"
  by (cases bs rule: of_le16.cases) auto

lemma header_of_bytes_append:
  "MessageHeaderLength \<le> length bs \<Longrightarrow> header_of_bytes (bs @ cs) = header_of_bytes bs"
  by (simp add: header_of_bytes_def MessageHeaderLength_def of_le32_append of_le16_append drop_append)

lemma header_of_bytes_take:
  assumes "MessageHeaderLength \<le> n" "n \<le> length bs"
  shows "header_of_bytes (take n bs) = header_of_bytes bs"
  using header_of_bytes_append [of "take n bs" "drop n bs"] assms by simp

lemma next_frame_append_Complete: "next_frame bs = Complete n \<Longrightarrow> next_frame (bs @ cs) = Complete n"
  by (auto simp: next_frame_Complete of_le32_append MessageHeaderLength_def)

lemma next_frame_append_Bad: "next_frame bs = BadFrame \<Longrightarrow> next_frame (bs @ cs) = BadFrame"
  by (auto simp: next_frame_Bad of_le32_append MessageHeaderLength_def)

lemma next_frame_encode:
  "wf_msg m \<Longrightarrow> next_frame (encode m @ rest) = Complete (length (encode m))"
  using wf_msg_totalLen_encode [of m rest]
  by (simp add: next_frame_Complete wf_msg_encode)

lemma Message_create_frame:
  assumes fr: "next_frame bs = Complete n"
  shows "Message_create (bs @ rest) n = Some (frame_message (take n bs))"
proof -
  have n: "MessageHeaderLength \<le> n" "n \<le> length bs" "sint (of_le32 bs) = int n"
    using fr by (auto simp: next_frame_Complete)
  have "n < 2 ^ 31"
    using n(3) sint_lt [of "of_le32 bs"] by simp
  then have sz: "size_of_int (int n - int MessageHeaderLength) = n - MessageHeaderLength"
    using n(1) size_of_int_nat [of "n - MessageHeaderLength"] by simp
  have hd: "header_of_bytes (take MessageHeaderLength (bs @ rest)) = header_of_bytes bs"
    using n(1,2) header_of_bytes_take [of MessageHeaderLength bs] by simp
  have "totalLen (header_of_bytes bs) = of_le32 bs"
    by (simp add: header_of_bytes_def)
  then show ?thesis
    using n sz hd header_of_bytes_take [of n bs]
    by (simp add: Message_create_def Message_of_data_def mem_simps frame_message_def
        message_consts drop_take)
qed

lemma frame_message_encode: "wf_msg m \<Longrightarrow> frame_message (encode m) = m"
  using Message_create_frame [of "encode m" "length (encode m)" "[]"] create_encode_aux [of m "[]"]
    next_frame_encode [of m "[]"] by simp

lemma header_bytes_header_of_bytes:
  "MessageHeaderLength \<le> length bs \<Longrightarrow>
     header_bytes (header_of_bytes bs) = take MessageHeaderLength bs"
proof -
  assume len: "MessageHeaderLength \<le> length bs"
  have "take 14 bs = take 4 bs @ take 2 (drop 4 bs) @ take 4 (drop 6 bs) @ take 4 (drop 10 bs)"
    using take_add [of 4 2 bs] take_add [of 6 4 bs] take_add [of 10 4 bs] by simp
  then show ?thesis
    using len by (simp add: header_bytes_def header_of_bytes_def MessageHeaderLength_def
        le32_of_le32 le16_of_le16)
qed

lemma header_bytes_Message_of_header [simp]: "header_bytes (Message_of_header h d) = header_bytes h"
  by (simp add: header_bytes_def Message_of_header_def MessageHeader.defs)

lemma wf_frame_message:
  assumes "next_frame bs = Complete n"
  shows "wf_msg (frame_message (take n bs))"
  using assms header_of_bytes_take [of n bs]
  by (auto simp: next_frame_Complete wf_msg_def frame_message_def Message_of_header_def
      MessageHeader.defs Message.defs header_of_bytes_def)

lemma encode_frame_message:
  assumes "next_frame bs = Complete n"
  shows "encode (frame_message (take n bs)) = take n bs"
proof -
  have "encode (frame_message (take n bs))
      = header_bytes (header_of_bytes (take n bs)) @ drop MessageHeaderLength (take n bs)"
    using wf_msg_encode [OF wf_frame_message [OF assms]]
    by (simp add: frame_message_def Message_of_header_def Message.defs MessageHeader.defs
        header_bytes_def)
  also have "\<dots> = take MessageHeaderLength (take n bs) @ drop MessageHeaderLength (take n bs)"
    using assms by (subst header_bytes_header_of_bytes) (auto simp: next_frame_Complete)
  finally show ?thesis by (simp only: append_take_drop_id)
qed

function stream_frames :: "byte list \<Rightarrow> Message list \<times> bool \<times> byte list" where
  "stream_frames bs =
     (case next_frame bs of
        BadFrame \<Rightarrow> ([], True, bs)
      | Incomplete \<Rightarrow> ([], False, bs)
      | Complete n \<Rightarrow>
          (case stream_frames (drop n bs) of (ms, e, r) \<Rightarrow> (frame_message (take n bs) # ms, e, r)))"
  by pat_completeness auto
termination
  by (relation "measure length") (auto simp: next_frame_Complete MessageHeaderLength_def)

declare stream_frames.simps [simp del]

lemma stream_frames_simps [simp]:
  "next_frame bs = BadFrame \<Longrightarrow> stream_frames bs = ([], True, bs)"
  "next_frame bs = Incomplete \<Longrightarrow> stream_frames bs = ([], False, bs)"
  "next_frame bs = Complete n \<Longrightarrow> stream_frames bs =
     (case stream_frames (drop n bs) of (ms, e, r) \<Rightarrow> (frame_message (take n bs) # ms, e, r))"
  by (simp_all add: stream_frames.simps [of bs])

lemma stream_frames_append:
  "stream_frames (bs @ cs) =
     (case stream_frames bs of
        (ms, True, r) \<Rightarrow> (ms, True, r @ cs)
      | (ms, False, r) \<Rightarrow> (case stream_frames (r @ cs) of (ms', e, r') \<Rightarrow> (ms @ ms', e, r')))"
proof (induction bs rule: stream_frames.induct)
  case (1 bs)
  show ?case
  proof (cases "next_frame bs")
    case BadFrame
    then show ?thesis by (simp add: next_frame_append_Bad)
  next
    case Incomplete
    then show ?thesis by (simp split: prod.splits)
  next
    case (Complete n)
    then have "n \<le> length bs" by (simp add: next_frame_Complete)
    then show ?thesis
      using 1 [OF Complete] Complete
      by (auto simp: next_frame_append_Complete split: prod.splits bool.splits)
  qed
qed

lemma stream_frames_inverse:
  "stream_frames bs = (ms, e, r) \<Longrightarrow> bs = concat (map encode ms) @ r \<and> (\<forall>m\<in>set ms. wf_msg m)"
proof (induction bs arbitrary: ms e r rule: stream_frames.induct)
  case (1 bs)
  show ?case
  proof (cases "next_frame bs")
    case (Complete n)
    obtain ms' where "stream_frames (drop n bs) = (ms', e, r)" "ms = frame_message (take n bs) # ms'"
      using 1 (2) Complete by (auto split: prod.splits)
    with 1 (1) [OF Complete, of ms' e r] Complete show ?thesis
      by (simp add: encode_frame_message wf_frame_message) (metis append_take_drop_id)
  qed (use 1 (2) in auto)
qed

lemma stream_frames_encoded:
  assumes "\<forall>m\<in>set ms. wf_msg m"
  shows "stream_frames (concat (map encode ms)) = (ms, False, [])"
  using assms
proof (induction ms)
  case Nil
  have "next_frame [] = Incomplete"
    by (simp add: next_frame_def announced_def MessageHeaderLength_def)
  then show ?case by simp
next
  case (Cons m ms)
  then show ?case by (simp add: next_frame_encode frame_message_encode)
qed

section \<open>The interface of a receive buffer\<close>

text \<open>
  The loop of the receiving handlers: take messages until there is none or the stream is broken.
  The result is the messages in order, whether the stream was broken, and the buffer left. The
  fuel bounds the number of rounds; \<open>drain_stream\<close> shows that more fuel than pending bytes is
  always enough.
\<close>

fun drain :: "nat \<Rightarrow> ('b \<Rightarrow> (int \<times> 'm option \<times> 'b) option) \<Rightarrow> 'b \<Rightarrow> ('m list \<times> bool \<times> 'b) option"
where
  "drain 0 nxt b = None"
| "drain (Suc k) nxt b =
     (case nxt b of
        None \<Rightarrow> None
      | Some (c, mo, b') \<Rightarrow>
          if c = ReadBufferError then Some ([], True, b')
          else if c = ReadBufferNoMessage then Some ([], False, b')
          else map_option (\<lambda>(ms, e, b''). (case mo of None \<Rightarrow> ms | Some m \<Rightarrow> m # ms, e, b''))
                 (drain k nxt b'))"

text \<open>A sequence of receptions, each followed by the loop, until the stream is broken.\<close>

fun feed ::
  "('b \<Rightarrow> byte list \<Rightarrow> 'b option) \<Rightarrow> ('b \<Rightarrow> ('m list \<times> bool \<times> 'b) option) \<Rightarrow> 'b \<Rightarrow>
   byte list list \<Rightarrow> ('m list \<times> bool \<times> 'b) option"
where
  "feed rcv dr b [] = Some ([], False, b)"
| "feed rcv dr b (c # cs) =
     (case rcv b c of
        None \<Rightarrow> None
      | Some b1 \<Rightarrow>
          (case dr b1 of
             None \<Rightarrow> None
           | Some (ms, True, b2) \<Rightarrow> Some (ms, True, b2)
           | Some (ms, False, b2) \<Rightarrow>
               map_option (\<lambda>(ms', e, b3). (ms @ ms', e, b3)) (feed rcv dr b2 cs)))"

locale message_buffer =
  fixes invar :: "'b \<Rightarrow> bool"
    and pending :: "'b \<Rightarrow> byte list"
    and room :: "'b \<Rightarrow> nat"
    and capacity :: "'b \<Rightarrow> nat"
    and receive :: "'b \<Rightarrow> byte list \<Rightarrow> 'b option"
    and nxt :: "'b \<Rightarrow> (int \<times> Message option \<times> 'b) option"
  assumes receive_law:
      "invar b \<Longrightarrow> length bs \<le> room b \<Longrightarrow>
         \<exists>b'. receive b bs = Some b' \<and> invar b' \<and> pending b' = pending b @ bs
              \<and> capacity b' = capacity b"
    and nxt_bad:
      "invar b \<Longrightarrow> next_frame (pending b) = BadFrame \<Longrightarrow>
         \<exists>b'. nxt b = Some (ReadBufferError, None, b') \<and> invar b' \<and> pending b' = pending b
              \<and> capacity b' = capacity b"
    and nxt_incomplete:
      "invar b \<Longrightarrow> next_frame (pending b) = Incomplete \<Longrightarrow>
         \<exists>b'. nxt b = Some (ReadBufferNoMessage, None, b') \<and> invar b' \<and> pending b' = pending b
              \<and> capacity b' = capacity b
              \<and> capacity b \<le> room b' + length (pending b) + capacity b div 2 + 1"
    and nxt_complete:
      "invar b \<Longrightarrow> next_frame (pending b) = Complete n \<Longrightarrow>
         \<exists>b'. nxt b = Some (int n, Some (frame_message (take n (pending b))), b') \<and> invar b'
              \<and> pending b' = drop n (pending b) \<and> capacity b' = capacity b"
begin

lemma nxt_total: "invar b \<Longrightarrow> nxt b \<noteq> None"
  by (cases "next_frame (pending b)") (force dest: nxt_bad nxt_incomplete nxt_complete)+

text \<open>The loop ends, and it computes the framing of the pending bytes.\<close>

lemma drain_stream:
  assumes "invar b" and "length (pending b) < k"
  shows "\<exists>ms e b'. drain k nxt b = Some (ms, e, b') \<and> invar b' \<and> capacity b' = capacity b
    \<and> stream_frames (pending b) = (ms, e, pending b')
    \<and> (\<not> e \<longrightarrow> next_frame (pending b') = Incomplete
         \<and> capacity b \<le> room b' + length (pending b') + capacity b div 2 + 1)"
  using assms
proof (induction k arbitrary: b)
  case 0
  then show ?case by simp
next
  case (Suc k)
  show ?case
  proof (cases "next_frame (pending b)")
    case BadFrame
    with nxt_bad [OF Suc.prems(1)] show ?thesis by force
  next
    case Incomplete
    with nxt_incomplete [OF Suc.prems(1)] show ?thesis
      by (force simp: ReadBufferError_def ReadBufferNoMessage_def)
  next
    case (Complete n)
    from nxt_complete [OF Suc.prems(1) Complete] obtain b' where
      b': "nxt b = Some (int n, Some (frame_message (take n (pending b))), b')" "invar b'"
        "pending b' = drop n (pending b)" "capacity b' = capacity b"
      by blast
    have n: "0 < n" "n \<le> length (pending b)"
      using Complete by (auto simp: next_frame_Complete MessageHeaderLength_def)
    then have "length (pending b') < k"
      using Suc.prems(2) b'(3) by simp
    from Suc.IH [OF b'(2) this] show ?thesis
      using b' n(1) Complete
      by (auto simp: ReadBufferError_def ReadBufferNoMessage_def)
  qed
qed

text \<open>However a stream of messages is cut into receptions, the messages come out in order.\<close>

lemma feed_messages:
  assumes dr: "\<And>b. invar b \<Longrightarrow> dr b = drain (Suc (length (pending b))) nxt b"
    and W: "W + L + C div 2 \<le> C" and L: "0 < L"
  shows "invar b \<Longrightarrow> capacity b = C \<Longrightarrow> W \<le> room b \<Longrightarrow> next_frame (pending b) = Incomplete \<Longrightarrow>
    pending b @ concat cs = concat (map encode ms) \<Longrightarrow>
    (\<forall>m\<in>set ms. wf_msg m \<and> length (encode m) \<le> L) \<Longrightarrow> (\<forall>c\<in>set cs. length c \<le> W) \<Longrightarrow>
    \<exists>b'. feed receive dr b cs = Some (ms, False, b') \<and> invar b' \<and> pending b' = []"
proof (induction cs arbitrary: b ms)
  case Nil
  then have "ms = []" "pending b = []"
    by (cases ms; auto simp: next_frame_encode)+
  with Nil show ?case by simp
next
  case (Cons c cs)
  obtain b1 where b1: "receive b c = Some b1" "invar b1" "pending b1 = pending b @ c" "capacity b1 = C"
    using receive_law [OF Cons.prems(1), of c] Cons.prems(2,3,7) by force
  obtain ms1 e b2 where b2: "dr b1 = Some (ms1, e, b2)" "invar b2" "capacity b2 = C"
      "stream_frames (pending b1) = (ms1, e, pending b2)"
      "\<not> e \<Longrightarrow> next_frame (pending b2) = Incomplete
        \<and> C \<le> room b2 + length (pending b2) + C div 2 + 1"
    using drain_stream [OF b1(2), of "Suc (length (pending b1))"] dr [OF b1(2)] b1(4) by auto
  have all: "stream_frames (pending b1 @ concat cs) = (ms, False, [])"
    using stream_frames_encoded [of ms] Cons.prems(5,6) b1(3) by simp
  then have e: "\<not> e" and rest: "\<exists>ms'. stream_frames (pending b2 @ concat cs) = (ms', False, []) \<and> ms = ms1 @ ms'"
    using stream_frames_append [of "pending b1" "concat cs"] b2(4)
    by (cases e; auto split: prod.splits)+
  from rest obtain ms' where ms': "ms = ms1 @ ms'" "pending b2 @ concat cs = concat (map encode ms')"
    using stream_frames_inverse by force
  have "length (pending b2) < L"
  proof (cases ms')
    case Nil
    then show ?thesis using ms'(2) L by simp
  next
    case (Cons m ms'')
    have "length (pending b2) < length (encode m)"
    proof (rule ccontr)
      assume "\<not> ?thesis"
      moreover have "take (length (encode m)) (pending b2 @ concat cs) = encode m"
        using ms'(2) Cons by simp
      ultimately have "encode m @ drop (length (encode m)) (pending b2) = pending b2"
        using append_take_drop_id [of "length (encode m)" "pending b2"] by simp
      moreover have "wf_msg m" using Cons.prems(6) ms'(1) Cons by simp
      ultimately show False
        using next_frame_encode [of m "drop (length (encode m)) (pending b2)"] b2(5) e by simp
    qed
    then show ?thesis using Cons.prems(6) ms'(1) Cons by force
  qed
  then have "W \<le> room b2" using b2(5) e W by simp
  with Cons.IH [OF b2(2,3), of ms'] obtain b' where
    "feed receive dr b2 cs = Some (ms', False, b')" "invar b'" "pending b' = []"
    using b2(5) e ms' Cons.prems(6,7) by force
  then show ?case using b1(1) b2(1) e ms'(1) by simp
qed

end

section \<open>ReadBuffer implements the interface\<close>

lemma drop_handle_unread:
  "rb_inv rb \<Longrightarrow> drop (rb_handleOffest rb) (rb_buffer rb) = unread rb @ drop (rb_buffOffest rb) (rb_buffer rb)"
  using append_take_drop_id [of "rb_buffOffest rb - rb_handleOffest rb" "drop (rb_handleOffest rb) (rb_buffer rb)"]
  by (simp add: rb_inv_def unread_def)

lemma unread_advance:
  assumes "rb_inv rb" "n \<le> length (unread rb)"
  shows "rb_inv (rb\<lparr>rb_handleOffest := rb_handleOffest rb + n\<rparr>)"
    and "unread (rb\<lparr>rb_handleOffest := rb_handleOffest rb + n\<rparr>) = drop n (unread rb)"
  using assms length_unread [OF assms(1)]
  by (auto simp: rb_inv_def unread_def drop_take add.commute)

interpretation rbuf: message_buffer rb_inv unread getAvailableBufferSize rb_buffSize rb_receive rb_take
proof (unfold_locales, goal_cases)
  case (1 b bs)
  then show ?case by (rule rb_receive_ok)
next
  case (2 b)
  obtain rb1 where "rb_inv rb1" "unread rb1 = unread b" "rb_buffSize rb1 = rb_buffSize b"
      "getMessage b = Some (ReadBufferError, None, rb1)"
    by (rule getMessage_spec [OF 2(1)]) (simp add: 2(2))
  then show ?case by (simp add: rb_take_def)
next
  case (3 b)
  obtain rb1 where "rb_inv rb1" "unread rb1 = unread b" "rb_buffSize rb1 = rb_buffSize b"
      "rb_handleOffest rb1 \<le> rb_buffSize b div 2 + 1"
      "getMessage b = Some (ReadBufferNoMessage, None, rb1)"
    by (rule getMessage_spec [OF 3(1)]) (simp add: 3(2))
  then show ?case
    using length_unread [of rb1]
    by (auto simp: rb_take_def getAvailableBufferSize_def rb_inv_def)
next
  case (4 b n)
  obtain rb1 where rb1: "rb_inv rb1" "unread rb1 = unread b" "rb_buffSize rb1 = rb_buffSize b"
      "getMessage b = Some (int n, Some (rb_handleOffest rb1, n),
         rb1\<lparr>rb_handleOffest := rb_handleOffest rb1 + n\<rparr>)"
    by (rule getMessage_spec [OF 4(1)]) (simp add: 4(2))
  then show ?case
    using unread_advance [OF rb1(1), of n] 4(2) Message_create_frame [OF 4(2)]
    by (simp add: rb_take_def drop_handle_unread next_frame_Complete)
qed

section \<open>Properties\<close>

text \<open>
  C9 (refinement). On a well-formed buffer \<open>getMessage\<close> runs without undefined behaviour: the
  header read is inside the received bytes and the \<open>memcpy\<close> that moves the unread bytes to the
  front never overlaps. It keeps the invariant and does on the unread bytes what framing does on
  a plain stream: a broken length gives \<open>ReadBufferError\<close>, an incomplete message
  \<open>ReadBufferNoMessage\<close>, both leaving the unread bytes; a complete message of \<open>n\<close> bytes is
  pointed to by the result and is exactly what is removed.
\<close>

theorem getMessage_refines_stream:
  assumes "rb_inv rb"
  shows "\<exists>c out rb'. getMessage rb = Some (c, out, rb') \<and> rb_inv rb' \<and> rb_buffSize rb' = rb_buffSize rb
    \<and> (case next_frame (unread rb) of
         BadFrame \<Rightarrow> c = ReadBufferError \<and> out = None \<and> unread rb' = unread rb
       | Incomplete \<Rightarrow> c = ReadBufferNoMessage \<and> out = None \<and> unread rb' = unread rb
       | Complete n \<Rightarrow> c = int n \<and> unread rb' = drop n (unread rb)
           \<and> (\<exists>p. out = Some (p, n) \<and> take n (drop p (rb_buffer rb')) = take n (unread rb)))"
proof (rule getMessage_spec [OF assms])
  fix rb1
  assume rb1: "rb_inv rb1" "unread rb1 = unread rb" "rb_buffSize rb1 = rb_buffSize rb"
    "getMessage rb = Some (case next_frame (unread rb) of
       BadFrame \<Rightarrow> (ReadBufferError, None, rb1)
     | Incomplete \<Rightarrow> (ReadBufferNoMessage, None, rb1)
     | Complete n \<Rightarrow> (int n, Some (rb_handleOffest rb1, n),
         rb1\<lparr>rb_handleOffest := rb_handleOffest rb1 + n\<rparr>))"
  show ?thesis
  proof (cases "next_frame (unread rb)")
    case (Complete n)
    then have "n \<le> length (unread rb1)" using rb1(2) by (simp add: next_frame_Complete)
    then show ?thesis
      using rb1 Complete unread_advance [OF rb1(1), of n] by (simp add: drop_handle_unread)
  qed (use rb1 in auto)
qed

theorem getMessage_refines_stream_witness:
  "rb_inv (ReadBuffer_new (replicate 64 0)) \<and>
   (\<exists>c out rb'. getMessage (ReadBuffer_new (replicate 64 0)) = Some (c, out, rb') \<and> rb_inv rb'
      \<and> c = ReadBufferNoMessage)"
proof -
  have inv: "rb_inv (ReadBuffer_new (replicate 64 0))"
    by (rule rb_inv_new) simp
  have nf: "next_frame [] = Incomplete"
    by (simp add: next_frame_def announced_def MessageHeaderLength_def)
  show ?thesis
    using inv getMessage_refines_stream [OF inv] by (auto simp: nf)
qed

text \<open>
  C6 (functional correctness of reassembly). A stream of well-formed messages of at most \<open>L\<close>
  bytes, cut anywhere into receptions of at most \<open>W\<close> bytes, is delivered message by message,
  complete and in order, with no byte left over, through a buffer whose upper half holds
  \<open>W + L\<close> bytes; the receptions always fit and the receive loop always ends.
\<close>

theorem reassembly:
  assumes "length mem < 2 ^ 31" and "W + L + length mem div 2 \<le> length mem"
    and "MessageHeaderLength \<le> L"
    and "\<forall>m\<in>set ms. wf_msg m \<and> length (encode m) \<le> L"
    and "\<forall>c\<in>set cs. length c \<le> W"
    and "concat cs = concat (map encode ms)"
  shows "\<exists>rb'. feed rb_receive (\<lambda>rb. drain (Suc (length (unread rb))) rb_take rb) (ReadBuffer_new mem) cs
             = Some (ms, False, rb') \<and> rb_inv rb' \<and> unread rb' = []"
proof (rule rbuf.feed_messages [where W = W and L = L and C = "length mem"])
  show "W \<le> getAvailableBufferSize (ReadBuffer_new mem)"
    using assms(2) by (simp add: getAvailableBufferSize_def ReadBuffer_new_def)
  show "next_frame (unread (ReadBuffer_new mem)) = Incomplete"
    by (simp add: next_frame_def announced_def MessageHeaderLength_def)
  show "rb_buffSize (ReadBuffer_new mem) = length mem"
    by (simp add: ReadBuffer_new_def)
  show "0 < L" using assms(3) by (simp add: MessageHeaderLength_def)
qed (use assms rb_inv_new in auto)

theorem reassembly_witness:
  "\<exists>rb'. feed rb_receive (\<lambda>rb. drain (Suc (length (unread rb))) rb_take rb)
      (ReadBuffer_new (replicate 80 0))
      [take 10 (encode (Message_str 1 [7, 8])), drop 10 (encode (Message_str 1 [7, 8]))]
    = Some ([Message_str 1 [7, 8]], False, rb') \<and> rb_inv rb' \<and> unread rb' = []"
proof (rule reassembly [where W = 20 and L = 16])
  have wf: "wf_msg (Message_str 1 [7, 8])" by (rule wf_Message_str) simp
  then have len: "length (encode (Message_str 1 [7, 8])) = 16"
    by (simp add: wf_msg_encode MessageHeaderLength_def)
  show "\<forall>m\<in>set [Message_str 1 [7, 8]]. wf_msg m \<and> length (encode m) \<le> 16"
    using wf len by simp
  show "\<forall>c\<in>set [take 10 (encode (Message_str 1 [7, 8])), drop 10 (encode (Message_str 1 [7, 8]))].
      length c \<le> 20"
    by (simp add: len)
qed (simp_all add: MessageHeaderLength_def)

text \<open>
  C27 (liveness). After \<open>getMessage\<close> found the pending message incomplete, the bytes it still
  misses fit into the free part of the buffer, provided the message it announces fits into the
  upper half.
\<close>

theorem pending_message_fits:
  assumes "rb_inv rb" and "next_frame (unread rb) = Incomplete"
    and "announced (unread rb) = Some n" and "nat n + rb_buffSize rb div 2 + 1 \<le> rb_buffSize rb"
  shows "\<exists>rb'. getMessage rb = Some (ReadBufferNoMessage, None, rb') \<and> unread rb' = unread rb
    \<and> nat n - length (unread rb) \<le> getAvailableBufferSize rb' \<and> 0 < getAvailableBufferSize rb'"
proof (rule getMessage_spec [OF assms(1)])
  fix rb1
  assume rb1: "rb_inv rb1" "unread rb1 = unread rb" "rb_buffSize rb1 = rb_buffSize rb"
    "rb_handleOffest rb1 \<le> rb_buffSize rb div 2 + 1"
    "getMessage rb = Some (case next_frame (unread rb) of
       BadFrame \<Rightarrow> (ReadBufferError, None, rb1)
     | Incomplete \<Rightarrow> (ReadBufferNoMessage, None, rb1)
     | Complete n \<Rightarrow> (int n, Some (rb_handleOffest rb1, n),
         rb1\<lparr>rb_handleOffest := rb_handleOffest rb1 + n\<rparr>))"
  have "length (unread rb) < nat n"
    using assms(2,3) by (auto simp: next_frame_def announced_def split: if_splits)
  then show ?thesis
    using rb1 assms(2,4) length_unread [OF rb1(1)]
    by (auto simp: getAvailableBufferSize_def rb_inv_def)
qed

theorem pending_message_fits_witness:
  "\<exists>rb. rb_inv rb \<and> announced (unread rb) = Some 20 \<and>
     (\<exists>rb'. getMessage rb = Some (ReadBufferNoMessage, None, rb') \<and> 0 < getAvailableBufferSize rb')"
proof -
  let ?b = "le32 20 @ replicate 10 (0::byte)"
  let ?rb = "\<lparr>rb_buffer = ?b @ replicate 66 0, rb_buffSize = 80, rb_buffOffest = 14, rb_handleOffest = 0\<rparr>"
  have inv: "rb_inv ?rb" by (simp add: rb_inv_def)
  have un: "unread ?rb = ?b" by (simp add: unread_def)
  have an: "announced (unread ?rb) = Some 20"
    unfolding un by (simp add: announced_def MessageHeaderLength_def)
  then have nf: "next_frame (unread ?rb) = Incomplete"
    unfolding un by (simp add: next_frame_def MessageHeaderLength_def)
  show ?thesis
    using inv an pending_message_fits [OF inv nf an] by force
qed

text \<open>
  C35 (a flaw of the buffer). A pending message that does not fit behind the bytes already handled
  blocks the buffer for good: once the block is full and no more than its first half has been
  handled, \<open>getMessage\<close> neither completes a message nor frees a byte, so the next reception has no
  room at all and finds the same state. The witness is a message of 41 bytes behind one of 40
  bytes in a buffer of 80.
\<close>

theorem full_buffer_stalls:
  assumes "rb_inv rb" and "rb_handleOffest rb \<le> rb_buffSize rb div 2 + 1"
    and "rb_buffOffest rb = rb_buffSize rb" and "next_frame (unread rb) = Incomplete"
  shows "getMessage rb = Some (ReadBufferNoMessage, None, rb) \<and> getAvailableBufferSize rb = 0
    \<and> rb_receive rb [] = Some rb"
proof -
  have chk: "onCheckBuffer rb = Some rb"
    using assms(2) by (simp add: onCheckBuffer_def)
  have "getMessage rb = Some (ReadBufferNoMessage, None, rb)"
    using assms(4) by (simp add: getMessage_def chk nextMessageLength_spec [OF assms(1)]
        ReadBufferNoMessage_def MessageHeaderLength_def)
  moreover have "rb_receive rb [] = Some rb"
    using assms(1,3) by (simp add: rb_receive_def mem_simps getBuffer_def readNewData_def rb_inv_def)
  ultimately show ?thesis using assms(3) by (simp add: getAvailableBufferSize_def)
qed

theorem full_buffer_stalls_witness:
  "\<exists>rb. rb_inv rb \<and> announced (unread rb) = Some 41 \<and> rb_buffSize rb = 80 \<and>
     getMessage rb = Some (ReadBufferNoMessage, None, rb) \<and> getAvailableBufferSize rb = 0"
proof -
  let ?b = "le32 41 @ replicate 36 (0::byte)"
  let ?rb = "\<lparr>rb_buffer = replicate 40 0 @ ?b, rb_buffSize = 80, rb_buffOffest = 80, rb_handleOffest = 40\<rparr>"
  have inv: "rb_inv ?rb" by (simp add: rb_inv_def)
  have un: "unread ?rb = ?b" by (simp add: unread_def)
  have an: "announced (unread ?rb) = Some 41"
    unfolding un by (simp add: announced_def MessageHeaderLength_def)
  then have nf: "next_frame (unread ?rb) = Incomplete"
    unfolding un by (simp add: next_frame_def MessageHeaderLength_def)
  show ?thesis
    using inv an full_buffer_stalls [OF inv _ _ nf] by force
qed

end
