(* ===== verification/JME_TcpSession.thy ===== *)
theory JME_TcpSession
  imports JME_ReadBuffer
begin

text \<open>
  The TCP session (include/net/JME_TcpSession.h, source/net/JME_TcpSession.cpp): the read handler,
  the write buffer and its handler, and the connection state machine.

  The session's own fields are the record \<open>TcpSession\<close>. The record \<open>tcp\<close> adds what the session
  does to the outside: the tasks it posts to the logic \<open>io_service\<close>, the asynchronous operations
  it has started on the network \<open>io_service\<close>, and the bytes it has handed to the socket. What
  boost.asio answers (the result of \<open>read_some\<close>, \<open>write_some\<close>, \<open>resolve\<close>, \<open>connect\<close>,
  \<open>remote_endpoint\<close>) is an argument of the definitions. Each handler is one atomic step, as the
  write mutex and the single network thread make it; \<open>tcp_step\<close> interleaves the handlers with the
  calls of the session's user in any order.
\<close>

datatype errcat = System_category | Misc_category

record error_code =
  ec_value :: int
  ec_category :: errcat

text \<open>A default-constructed code, \<open>asio::error::would_block\<close> and \<open>asio::error::try_again\<close>.\<close>

definition ec_none :: error_code where
  "ec_none = \<lparr>ec_value = 0, ec_category = System_category\<rparr>"
definition would_block :: error_code where
  "would_block = \<lparr>ec_value = 11, ec_category = System_category\<rparr>"
definition try_again :: error_code where
  "try_again = \<lparr>ec_value = 11, ec_category = System_category\<rparr>"

abbreviation ec_ok :: "error_code \<Rightarrow> bool" where
  "ec_ok e \<equiv> ec_value e = 0"

datatype SessionStatus = Disconnected | Connected | Connecting
datatype GameStatus = NullGame | InGame

text \<open>Calls of the \<open>NetHandler\<close> posted to the logic thread, and operations pending in asio.\<close>

datatype logic_task =
    SessionConnectSucceed
  | SessionConnectFailed error_code
  | SessionReceiveMessage Message
  | SessionReadError error_code

datatype net_op =
    AsyncRead
  | AsyncWrite
  | AsyncConnect string string
  | ReconnectTimer nat

record TcpSession =
  socket_open :: bool
  asyncConnect :: bool
  writeBuffer :: "block option"
  writeBufferSize :: nat
  writeBufferOffest :: nat
  buff :: ReadBuffer
  net_id :: int
  writing :: bool
  writeBlockTimes :: int
  reading :: bool
  readBlockTimes :: int
  reconnectInterval :: nat
  ip :: string
  port :: string
  status :: SessionStatus
  gameStatus :: GameStatus

record tcp = TcpSession +
  posted :: "logic_task list"
  ops :: "net_op list"
  sent :: block

section \<open>Construction\<close>

text \<open>
  \<open>TcpSession(net_handler, n, reconnect)\<close>: \<open>rmem\<close> and \<open>wmem\<close> are the two blocks of \<open>n\<close> bytes
  that \<open>nedmalloc\<close> returns, \<open>nid\<close> the indeterminate initial \<open>_net_id\<close>.
\<close>

definition TcpSession_new :: "block \<Rightarrow> block \<Rightarrow> int \<Rightarrow> nat \<Rightarrow> tcp" where
  "TcpSession_new rmem wmem nid reconnect =
     \<lparr>socket_open = False, asyncConnect = True, writeBuffer = Some wmem,
      writeBufferSize = length wmem, writeBufferOffest = 0, buff = ReadBuffer_new rmem,
      net_id = nid, writing = False, writeBlockTimes = 0, reading = False, readBlockTimes = 0,
      reconnectInterval = reconnect, ip = [], port = [], status = Disconnected,
      gameStatus = NullGame, posted = [], ops = [], sent = []\<rparr>"

text \<open>The default constructor: no write buffer at all.\<close>

definition TcpSession_default :: "int \<Rightarrow> tcp" where
  "TcpSession_default nid =
     (TcpSession_new [] [] nid 0)\<lparr>writeBuffer := None, writeBufferSize := 0\<rparr>"

text \<open>The destructor; \<open>close\<close> leaves the socket closed even when it reports an error.\<close>

definition TcpSession_destroy :: "tcp \<Rightarrow> tcp" where
  "TcpSession_destroy s =
     s\<lparr>socket_open := False, writeBuffer := None, writeBufferOffest := 0, writing := False,
       reading := False\<rparr>"

definition setNetId :: "int \<Rightarrow> tcp \<Rightarrow> tcp" where
  "setNetId i s = s\<lparr>net_id := i\<rparr>"

definition setGameStatus :: "GameStatus \<Rightarrow> tcp \<Rightarrow> tcp" where
  "setGameStatus g s = s\<lparr>gameStatus := g\<rparr>"

definition setAsyncConnect :: "bool \<Rightarrow> tcp \<Rightarrow> tcp" where
  "setAsyncConnect b s = s\<lparr>asyncConnect := b\<rparr>"

definition resetReadBuffer :: "tcp \<Rightarrow> tcp" where
  "resetReadBuffer s = s\<lparr>buff := rb_reset (buff s)\<rparr>"

definition isOk :: "tcp \<Rightarrow> bool" where
  "isOk s \<longleftrightarrow> status s = Connected"

section \<open>Asynchronous operations\<close>

definition post_task :: "logic_task \<Rightarrow> tcp \<Rightarrow> tcp" where
  "post_task t s = s\<lparr>posted := posted s @ [t]\<rparr>"

definition postReadNull :: "tcp \<Rightarrow> tcp" where
  "postReadNull s =
     (if \<not> socket_open s \<or> reading s then s
      else s\<lparr>reading := True, ops := ops s @ [AsyncRead]\<rparr>)"

definition postWriteNull :: "tcp \<Rightarrow> tcp" where
  "postWriteNull s =
     (if \<not> socket_open s \<or> writing s \<or> writeBufferOffest s = 0 then s
      else s\<lparr>writing := True, ops := ops s @ [AsyncWrite]\<rparr>)"

text \<open>
  \<open>start\<close>: \<open>addr\<close> and \<open>prt\<close> are the results of the two \<open>remote_endpoint()\<close> calls (\<open>None\<close> when
  they throw), \<open>nb\<close> says whether \<open>non_blocking(true)\<close> succeeds; an exception ends the body.
\<close>

definition start :: "int \<Rightarrow> string option \<Rightarrow> string option \<Rightarrow> bool \<Rightarrow> tcp \<Rightarrow> tcp" where
  "start nid addr prt nb s =
     (case addr of
        None \<Rightarrow> s
      | Some a \<Rightarrow>
          (let s1 = s\<lparr>ip := a\<rparr> in
           case prt of
             None \<Rightarrow> s1
           | Some p \<Rightarrow>
               (let s2 = s1\<lparr>port := p, net_id := nid, status := Connected\<rparr> in
                if nb then postReadNull s2 else s2)))"

text \<open>
  \<open>stop\<close>: \<open>shut\<close> is the error of \<open>shutdown(shutdown_both)\<close>; when it throws, \<open>close\<close> is skipped.
\<close>

definition stop :: "error_code \<Rightarrow> tcp \<Rightarrow> tcp" where
  "stop shut s =
     (let s1 = s\<lparr>reconnectInterval := 0\<rparr>;
          s2 = (if socket_open s1 \<and> ec_ok shut then s1\<lparr>socket_open := False\<rparr> else s1)
      in s2\<lparr>writing := False, reading := False\<rparr>)"

section \<open>Reading\<close>

text \<open>The part of \<open>handleRead\<close> behind the first \<open>if\<close>: retry, give up, or report.\<close>

definition handleRead_tail :: "error_code \<Rightarrow> tcp \<Rightarrow> tcp" where
  "handleRead_tail e s =
     (if ec_ok e \<or> e = would_block \<or> e = try_again then
        (let s1 = s\<lparr>readBlockTimes := readBlockTimes s + 1\<rparr> in
         if readBlockTimes s1 \<ge> 10
         then (post_task (SessionReadError e) s1)\<lparr>status := Disconnected\<rparr>
         else postReadNull s1)
      else if ec_value e = 995 then s
      else post_task (SessionReadError e) (s\<lparr>status := Disconnected\<rparr>))"

text \<open>
  \<open>handleRead\<close>: \<open>rd n\<close> is what \<open>read_some\<close> answers when it is offered \<open>n\<close> bytes of buffer, the
  bytes it stored and its error code. \<open>None\<close> is undefined behaviour.
\<close>

definition handleRead :: "(nat \<Rightarrow> block \<times> error_code) \<Rightarrow> error_code \<Rightarrow> tcp \<Rightarrow> tcp option" where
  "handleRead rd e s =
     (let s1 = s\<lparr>reading := False\<rparr> in
      if ec_ok e then
        (let s2 = s1\<lparr>readBlockTimes := 0\<rparr>;
             (bs, e2) = rd (getAvailableBufferSize (buff s2)) in
         if ec_ok e2 then do {
           b \<leftarrow> rb_receive (buff s2) bs;
           (ms, bad, b') \<leftarrow> drain (Suc (length (unread b))) rb_take b;
           let s3 = s2\<lparr>buff := b', posted := posted s2 @ map SessionReceiveMessage ms\<rparr>;
           Some (if bad then post_task (SessionReadError e2) (s3\<lparr>status := Disconnected\<rparr>)
                 else handleRead_tail e2 s3)
         } else Some (handleRead_tail e2 s2))
      else Some (handleRead_tail e s1))"

section \<open>Writing\<close>

text \<open>
  The \<open>do\<close> loop of \<open>handleWrite\<close>. \<open>wr i bs\<close> is the answer of the \<open>i\<close>-th call of \<open>write_some\<close>
  offered \<open>bs\<close>: the number of bytes it took and its error code; a count beyond what was offered is
  outside the contract of \<open>write_some\<close>. The result is the block, the new \<open>_writeBufferOffest\<close>, the
  last error and the bytes taken.
\<close>

function write_loop ::
  "(nat \<Rightarrow> block \<Rightarrow> nat \<times> error_code) \<Rightarrow> nat \<Rightarrow> block \<Rightarrow> nat \<Rightarrow> nat \<Rightarrow> block \<Rightarrow>
   (block \<times> nat \<times> error_code \<times> block) option"
where
  "write_loop wr i blk len off out =
     (case mem_read blk len off of
        None \<Rightarrow> None
      | Some bs \<Rightarrow>
          (case wr i bs of (wlen, e) \<Rightarrow>
             if wlen = 0 then
               (if len > 0 then map_option (\<lambda>blk'. (blk', off, e, out)) (memmove blk 0 len off)
                else Some (blk, off, e, out))
             else if off < wlen then None
             else if off - wlen > 0 then
               write_loop wr (Suc i) blk (len + wlen) (off - wlen) (out @ take wlen bs)
             else Some (blk, off - wlen, e, out @ take wlen bs)))"
  by pat_completeness auto
termination
  by (relation "measure (\<lambda>(wr, i, blk, len, off, out). off)") auto

declare write_loop.simps [simp del]

definition handleWrite_tail :: "error_code \<Rightarrow> tcp \<Rightarrow> tcp" where
  "handleWrite_tail e s =
     (if e = would_block \<or> e = try_again then
        (let s1 = s\<lparr>writeBlockTimes := writeBlockTimes s + 1\<rparr> in
         if writeBlockTimes s1 \<ge> 10 then s1 else postWriteNull s1)
      else s)"

definition handleWrite :: "(nat \<Rightarrow> block \<Rightarrow> nat \<times> error_code) \<Rightarrow> error_code \<Rightarrow> tcp \<Rightarrow> tcp option" where
  "handleWrite wr e s =
     (let s1 = s\<lparr>writing := False\<rparr> in
      if ec_ok e then
        (let s2 = s1\<lparr>writeBlockTimes := 0\<rparr> in
         if writeBufferOffest s2 > 0 then do {
           blk \<leftarrow> writeBuffer s2;
           (blk', off', e', out) \<leftarrow> write_loop wr 0 blk 0 (writeBufferOffest s2) [];
           Some (handleWrite_tail e'
             (s2\<lparr>writeBuffer := Some blk', writeBufferOffest := off', sent := sent s2 @ out\<rparr>))
         } else Some (handleWrite_tail e s2))
      else Some (handleWrite_tail e s1))"

text \<open>\<open>writeImpl\<close>: the sum is computed in \<open>size_t\<close> and narrowed to an \<open>int\<close>, then compared as \<open>size_t\<close>.\<close>

definition writeImpl :: "block \<Rightarrow> int \<Rightarrow> tcp \<Rightarrow> tcp option" where
  "writeImpl data len s =
     (let destSize = int32_of (int (writeBufferOffest s) + len) in
      if size_of_int destSize > writeBufferSize s then Some s
      else do {
        bs \<leftarrow> mem_read data 0 (size_of_int len);
        blk \<leftarrow> writeBuffer s;
        blk' \<leftarrow> mem_write blk (writeBufferOffest s) bs;
        Some (postWriteNull (s\<lparr>writeBuffer := Some blk',
                               writeBufferOffest := writeBufferOffest s + length bs\<rparr>))
      })"

definition writeNolock :: "block \<Rightarrow> int \<Rightarrow> tcp \<Rightarrow> tcp option" where
  "writeNolock data len s =
     (if \<not> isOk s then Some s
      else if \<not> socket_open s then Some s
      else writeImpl data len s)"

definition writeLock :: "block \<Rightarrow> int \<Rightarrow> tcp \<Rightarrow> tcp option" where
  "writeLock data len s =
     (if \<not> isOk s then Some s
      else if \<not> socket_open s then Some s
      else writeImpl data len s)"

definition checkWriteBuffer :: "Message \<Rightarrow> tcp \<Rightarrow> bool" where
  "checkWriteBuffer msg s =
     (let destSize = int32_of (int (writeBufferOffest s) + sint (totalLen msg)) in
      \<not> size_of_int destSize > writeBufferSize s)"

definition writeMessage :: "Message \<Rightarrow> tcp \<Rightarrow> (bool \<times> tcp) option" where
  "writeMessage msg s =
     (if \<not> isOk s then Some (False, s)
      else if \<not> checkWriteBuffer msg s then Some (False, postWriteNull s)
      else if writeBuffer s \<noteq> None then do {
        s1 \<leftarrow> writeNolock (header_bytes msg) (int MessageHeaderLength) s;
        s2 \<leftarrow> writeNolock (msgData msg) (int32_of (int (messageDataLen msg))) s1;
        Some (True, s2)
      } else Some (False, s))"

section \<open>Connecting\<close>

definition handleConnect :: "error_code \<Rightarrow> tcp \<Rightarrow> tcp" where
  "handleConnect e s =
     (if \<not> ec_ok e then
        (let s1 = post_task (SessionConnectFailed e) (s\<lparr>status := Disconnected\<rparr>) in
         if reconnectInterval s1 \<noteq> 0
         then s1\<lparr>ops := ops s1 @ [ReconnectTimer (reconnectInterval s1)]\<rparr>
         else s1)
      else post_task SessionConnectSucceed (s\<lparr>status := Connected\<rparr>))"

text \<open>
  \<open>onConnect\<close>: \<open>rsv\<close> says whether the resolver finds the host (it throws otherwise); \<open>cn\<close> is the
  answer of the synchronous \<open>connect\<close>, \<open>None\<close> when the address or the port is no address or
  number and the conversion throws. \<open>connect\<close> opens a closed socket. \<open>Inl\<close> is an exception that
  leaves the function, with the state it leaves behind.
\<close>

definition onConnect ::
  "(string \<Rightarrow> string \<Rightarrow> bool) \<Rightarrow> (string \<Rightarrow> string \<Rightarrow> error_code option) \<Rightarrow> tcp \<Rightarrow> tcp + tcp" where
  "onConnect rsv cn s =
     (if status s \<noteq> Disconnected then Inr s
      else
        (let s1 = s\<lparr>status := Connecting\<rparr> in
         if asyncConnect s1 then
           (if rsv (ip s1) (port s1) then Inr (s1\<lparr>ops := ops s1 @ [AsyncConnect (ip s1) (port s1)]\<rparr>)
            else Inl s1)
         else
           (let s2 = s1\<lparr>socket_open := False\<rparr> in
            case cn (ip s2) (port s2) of
              None \<Rightarrow> Inl s2
            | Some e \<Rightarrow> Inr (handleConnect e (s2\<lparr>socket_open := True\<rparr>)))))"

definition connect ::
  "(string \<Rightarrow> string \<Rightarrow> bool) \<Rightarrow> (string \<Rightarrow> string \<Rightarrow> error_code option) \<Rightarrow> string \<Rightarrow> string \<Rightarrow>
   tcp \<Rightarrow> tcp + tcp" where
  "connect rsv cn a p s = onConnect rsv cn (s\<lparr>ip := a, port := p\<rparr>)"

definition reconnect ::
  "(string \<Rightarrow> string \<Rightarrow> bool) \<Rightarrow> (string \<Rightarrow> string \<Rightarrow> error_code option) \<Rightarrow> tcp \<Rightarrow> tcp + tcp" where
  "reconnect rsv cn s = onConnect rsv cn s"

definition onReconnect ::
  "(string \<Rightarrow> string \<Rightarrow> bool) \<Rightarrow> (string \<Rightarrow> string \<Rightarrow> error_code option) \<Rightarrow> tcp \<Rightarrow> tcp + tcp" where
  "onReconnect rsv cn s = onConnect rsv cn s"

section \<open>Invariant and abstraction\<close>

text \<open>The bytes accepted for sending and not yet taken by the socket.\<close>

definition outgoing :: "tcp \<Rightarrow> byte list" where
  "outgoing s = take (writeBufferOffest s) (case writeBuffer s of None \<Rightarrow> [] | Some blk \<Rightarrow> blk)"

definition tcp_inv :: "tcp \<Rightarrow> bool" where
  "tcp_inv s \<longleftrightarrow>
     rb_inv (buff s) \<and> map_option length (writeBuffer s) = Some (writeBufferSize s) \<and>
     writeBufferOffest s \<le> writeBufferSize s \<and> writeBufferSize s < 2 ^ 31"

lemmas tcp_post_defs = postReadNull_def postWriteNull_def post_task_def

lemma tcp_inv_writeBuffer:
  "tcp_inv s \<Longrightarrow> \<exists>blk. writeBuffer s = Some blk \<and> length blk = writeBufferSize s"
  by (auto simp: tcp_inv_def)

lemma tcp_inv_new:
  "length rmem < 2 ^ 31 \<Longrightarrow> length wmem < 2 ^ 31 \<Longrightarrow> tcp_inv (TcpSession_new rmem wmem nid r)"
  by (simp add: tcp_inv_def TcpSession_new_def rb_inv_new)

lemma length_outgoing: "tcp_inv s \<Longrightarrow> length (outgoing s) = writeBufferOffest s"
  by (auto simp: tcp_inv_def outgoing_def)

lemma outgoing_update [simp]:
  "outgoing (s\<lparr>writing := a\<rparr>) = outgoing s" "outgoing (s\<lparr>reading := a\<rparr>) = outgoing s"
  "outgoing (s\<lparr>writeBlockTimes := i\<rparr>) = outgoing s" "outgoing (s\<lparr>readBlockTimes := i\<rparr>) = outgoing s"
  "outgoing (s\<lparr>status := st\<rparr>) = outgoing s" "outgoing (s\<lparr>ops := os\<rparr>) = outgoing s"
  "outgoing (s\<lparr>posted := ps\<rparr>) = outgoing s" "outgoing (s\<lparr>buff := rb\<rparr>) = outgoing s"
  "outgoing (s\<lparr>sent := bs\<rparr>) = outgoing s" "outgoing (s\<lparr>socket_open := a\<rparr>) = outgoing s"
  "outgoing (s\<lparr>ip := a1\<rparr>) = outgoing s" "outgoing (s\<lparr>port := a1\<rparr>) = outgoing s"
  "outgoing (s\<lparr>net_id := i\<rparr>) = outgoing s" "outgoing (s\<lparr>reconnectInterval := n\<rparr>) = outgoing s"
  "outgoing (s\<lparr>writeBuffer := Some blk, writeBufferOffest := n\<rparr>) = take n blk"
  by (simp_all add: outgoing_def)

lemma tcp_inv_update [simp]:
  "tcp_inv (s\<lparr>writing := a\<rparr>) = tcp_inv s" "tcp_inv (s\<lparr>reading := a\<rparr>) = tcp_inv s"
  "tcp_inv (s\<lparr>writeBlockTimes := i\<rparr>) = tcp_inv s" "tcp_inv (s\<lparr>readBlockTimes := i\<rparr>) = tcp_inv s"
  "tcp_inv (s\<lparr>status := st\<rparr>) = tcp_inv s" "tcp_inv (s\<lparr>ops := os\<rparr>) = tcp_inv s"
  "tcp_inv (s\<lparr>posted := ps\<rparr>) = tcp_inv s" "tcp_inv (s\<lparr>sent := bs\<rparr>) = tcp_inv s"
  "tcp_inv (s\<lparr>socket_open := a\<rparr>) = tcp_inv s" "tcp_inv (s\<lparr>ip := a1\<rparr>) = tcp_inv s"
  "tcp_inv (s\<lparr>port := a1\<rparr>) = tcp_inv s" "tcp_inv (s\<lparr>net_id := i\<rparr>) = tcp_inv s"
  "tcp_inv (s\<lparr>reconnectInterval := n\<rparr>) = tcp_inv s"
  by (simp_all add: tcp_inv_def)

lemma post_frame [simp]:
  "outgoing (postReadNull s) = outgoing s" "outgoing (postWriteNull s) = outgoing s"
  "outgoing (post_task t s) = outgoing s"
  "tcp_inv (postReadNull s) = tcp_inv s" "tcp_inv (postWriteNull s) = tcp_inv s"
  "tcp_inv (post_task t s) = tcp_inv s"
  "buff (postReadNull s) = buff s" "buff (postWriteNull s) = buff s" "buff (post_task t s) = buff s"
  "sent (postReadNull s) = sent s" "sent (postWriteNull s) = sent s" "sent (post_task t s) = sent s"
  "posted (postReadNull s) = posted s" "posted (postWriteNull s) = posted s"
  "posted (post_task t s) = posted s @ [t]"
  "status (postReadNull s) = status s" "status (postWriteNull s) = status s"
  "status (post_task t s) = status s"
  "socket_open (postReadNull s) = socket_open s" "socket_open (postWriteNull s) = socket_open s"
  "socket_open (post_task t s) = socket_open s"
  "writeBuffer (postWriteNull s) = writeBuffer s"
  "writeBufferOffest (postWriteNull s) = writeBufferOffest s"
  "writeBufferSize (postWriteNull s) = writeBufferSize s"
  by (auto simp: tcp_post_defs outgoing_def tcp_inv_def)

lemma tail_frame [simp]:
  "outgoing (handleRead_tail e s) = outgoing s" "outgoing (handleWrite_tail e s) = outgoing s"
  "tcp_inv (handleRead_tail e s) = tcp_inv s" "tcp_inv (handleWrite_tail e s) = tcp_inv s"
  "buff (handleRead_tail e s) = buff s" "buff (handleWrite_tail e s) = buff s"
  "sent (handleRead_tail e s) = sent s" "sent (handleWrite_tail e s) = sent s"
  "posted (handleWrite_tail e s) = posted s" "status (handleWrite_tail e s) = status s"
  by (auto simp: handleRead_tail_def handleWrite_tail_def Let_def outgoing_def tcp_inv_def
      tcp_post_defs)

section \<open>The write path\<close>

text \<open>The narrowed sum overflows only into values that the comparison still rejects.\<close>

lemma destSize_compare:
  assumes "off \<le> sz" "sz < 2 ^ 31" "n < 2 ^ 31"
  shows "sz < size_of_int (int32_of (int off + int n)) \<longleftrightarrow> sz < off + n"
proof (cases "off + n < 2 ^ 31")
  case True
  then have "int32_of (int off + int n) = int (off + n)"
    by (subst int32_of_id) auto
  moreover have "size_of_int (int (off + n)) = off + n"
    using True by (intro size_of_int_nat) simp
  ultimately show ?thesis by simp
next
  case False
  have "int32_of (int off + int n) = int off + int n - 2 ^ 32"
    using False assms minus_mod_self2 [of "int off + int n + 2 ^ 31" "2 ^ 32"]
    by (simp add: int32_of_def)
  moreover have "size_of_int (int off + int n - 2 ^ 32) = nat (2 ^ 64 + (int off + int n - 2 ^ 32))"
    using False assms by (intro size_of_int_neg) auto
  ultimately show ?thesis using False assms by simp
qed

lemma write_loop_spec:
  "(\<forall>i bs. fst (wr i bs) \<le> length bs) \<Longrightarrow> len + off \<le> length blk \<Longrightarrow>
    \<exists>blk' off' e o'. write_loop wr i blk len off out = Some (blk', off', e, out @ o')
      \<and> length blk' = length blk \<and> off' \<le> off \<and> o' @ take off' blk' = take off (drop len blk)"
proof (induction wr i blk len off out rule: write_loop.induct)
  case (1 wr i blk len off out)
  let ?bs = "take off (drop len blk)"
  have rd: "mem_read blk len off = Some ?bs" using 1(3) by (simp add: mem_simps)
  obtain wlen e where we: "wr i ?bs = (wlen, e)" by force
  have "wlen \<le> off" using 1(2,3) we by (metis fst_conv length_take min.bounded_iff)
  then consider "wlen = 0" | "0 < wlen" "0 < off - wlen" | "0 < wlen" "wlen = off"
    by linarith
  then show ?case
  proof cases
    case 1
    then show ?thesis
      using \<open>len + off \<le> length blk\<close> by (simp add: write_loop.simps [of wr i] rd we mem_simps)
  next
    case 2
    have unf: "write_loop wr i blk len off out
        = write_loop wr (Suc i) blk (len + wlen) (off - wlen) (out @ take wlen ?bs)"
      using 2 \<open>wlen \<le> off\<close> by (simp add: write_loop.simps [of wr i] rd we)
    have "len + wlen + (off - wlen) \<le> length blk" using 1(3) \<open>wlen \<le> off\<close> by simp
    with 1(1) [OF rd we [symmetric]] 2 \<open>wlen \<le> off\<close> 1(2) obtain blk' off' e' o' where
      ih: "write_loop wr (Suc i) blk (len + wlen) (off - wlen) (out @ take wlen ?bs)
             = Some (blk', off', e', (out @ take wlen ?bs) @ o')"
        "length blk' = length blk" "off' \<le> off - wlen"
        "o' @ take off' blk' = take (off - wlen) (drop (len + wlen) blk)"
      by force
    have "take wlen ?bs = take wlen (drop len blk)" using \<open>wlen \<le> off\<close> by simp
    then have "take wlen ?bs @ take (off - wlen) (drop (len + wlen) blk) = ?bs"
      using \<open>wlen \<le> off\<close> take_add [of wlen "off - wlen" "drop len blk"]
      by (simp only: le_add_diff_inverse drop_drop add.commute [of len])
    with ih show ?thesis
      unfolding unf by (intro exI [of _ blk'] exI [of _ off'] exI [of _ e'] exI [of _ "take wlen ?bs @ o'"]) simp
  next
    case 3
    then show ?thesis
      using \<open>len + off \<le> length blk\<close> by (simp add: write_loop.simps [of wr i] rd we)
  qed
qed


lemma handleWrite_spec:
  assumes inv: "tcp_inv s" and wr: "\<forall>i bs. fst (wr i bs) \<le> length bs"
  shows "\<exists>s' out. handleWrite wr e s = Some s' \<and> tcp_inv s' \<and> sent s' = sent s @ out
    \<and> out @ outgoing s' = outgoing s \<and> buff s' = buff s \<and> posted s' = posted s
    \<and> status s' = status s"
proof -
  obtain blk where blk: "writeBuffer s = Some blk" "length blk = writeBufferSize s"
    using tcp_inv_writeBuffer [OF inv] by blast
  then have off: "0 + writeBufferOffest s \<le> length blk" using inv by (simp add: tcp_inv_def)
  obtain blk' off' e' o' where
    wl: "write_loop wr 0 blk 0 (writeBufferOffest s) [] = Some (blk', off', e', o')"
      "length blk' = length blk" "off' \<le> writeBufferOffest s"
      "o' @ take off' blk' = take (writeBufferOffest s) blk"
    using write_loop_spec [OF wr off, of 0 "[]"] by auto
  have upd: "tcp_inv (s\<lparr>writing := False, writeBlockTimes := 0, writeBuffer := Some blk',
      writeBufferOffest := off'\<rparr>)"
    using inv wl blk by (auto simp: tcp_inv_def)
  have out: "outgoing s = take (writeBufferOffest s) blk"
    using blk by (simp add: outgoing_def)
  show ?thesis
  proof (cases "ec_ok e \<and> 0 < writeBufferOffest s")
    case True
    then show ?thesis
      using upd wl blk out by (simp add: handleWrite_def)
  next
    case False
    then show ?thesis using inv by (auto simp: handleWrite_def Let_def)
  qed
qed

lemma writeImpl_spec:
  assumes inv: "tcp_inv s" and n: "n < 2 ^ 31" "n \<le> length data"
  shows "writeImpl data (int n) s = Some
    (if writeBufferOffest s + n \<le> writeBufferSize s
     then postWriteNull (s\<lparr>writeBuffer := map_option (\<lambda>blk. take (writeBufferOffest s) blk
              @ take n data @ drop (writeBufferOffest s + n) blk) (writeBuffer s),
            writeBufferOffest := writeBufferOffest s + n\<rparr>)
     else s)"
proof -
  obtain blk where blk: "writeBuffer s = Some blk" "length blk = writeBufferSize s"
    using tcp_inv_writeBuffer [OF inv] by blast
  have cmp: "writeBufferSize s < size_of_int (int32_of (int (writeBufferOffest s) + int n))
      \<longleftrightarrow> writeBufferSize s < writeBufferOffest s + n"
    using inv n(1) by (intro destSize_compare) (auto simp: tcp_inv_def)
  show ?thesis
    using blk n by (auto simp: writeImpl_def cmp mem_simps)
qed

lemma writeImpl_fits:
  assumes inv: "tcp_inv s" and n: "n < 2 ^ 31" "n \<le> length data"
    and fits: "writeBufferOffest s + n \<le> writeBufferSize s"
  shows "\<exists>s'. writeImpl data (int n) s = Some s' \<and> tcp_inv s' \<and> outgoing s' = outgoing s @ take n data
    \<and> sent s' = sent s \<and> posted s' = posted s \<and> buff s' = buff s \<and> status s' = status s
    \<and> socket_open s' = socket_open s \<and> writeBufferSize s' = writeBufferSize s
    \<and> writeBufferOffest s' = writeBufferOffest s + n
    \<and> (socket_open s \<and> 0 < writeBufferOffest s + n \<longrightarrow> writing s')"
proof -
  obtain blk where blk: "writeBuffer s = Some blk" "length blk = writeBufferSize s"
    using tcp_inv_writeBuffer [OF inv] by blast
  let ?blk = "take (writeBufferOffest s) blk @ take n data @ drop (writeBufferOffest s + n) blk"
  let ?s = "s\<lparr>writeBuffer := Some ?blk, writeBufferOffest := writeBufferOffest s + n\<rparr>"
  have "tcp_inv ?s"
    using inv blk n fits by (auto simp: tcp_inv_def)
  moreover have "outgoing s = take (writeBufferOffest s) blk"
    using blk by (simp add: outgoing_def)
  moreover have "take (writeBufferOffest s + n) ?blk = take (writeBufferOffest s) blk @ take n data"
    using blk n fits by simp
  moreover have "socket_open s \<and> 0 < writeBufferOffest s + n \<longrightarrow> writing (postWriteNull ?s)"
    by (simp add: postWriteNull_def)
  ultimately show ?thesis
    using fits blk by (simp add: writeImpl_spec [OF inv n])
qed

lemma checkWriteBuffer_iff:
  assumes inv: "tcp_inv s" and wf: "wf_msg m"
  shows "checkWriteBuffer m s \<longleftrightarrow> writeBufferOffest s + length (encode m) \<le> writeBufferSize s"
proof -
  have "length (encode m) < 2 ^ 31"
    using wf_msg_length_encode [OF wf] sint_totalLen_less [of m] by simp
  then have "writeBufferSize s < size_of_int (int32_of (int (writeBufferOffest s) + int (length (encode m))))
      \<longleftrightarrow> writeBufferSize s < writeBufferOffest s + length (encode m)"
    using inv by (intro destSize_compare) (auto simp: tcp_inv_def)
  from arg_cong [OF this, of Not] show ?thesis
    by (simp only: checkWriteBuffer_def Let_def not_less flip: wf_msg_length_encode [OF wf])
qed

lemma writeMessage_spec:
  assumes inv: "tcp_inv s" and wf: "wf_msg m"
  shows "\<exists>r s'. writeMessage m s = Some (r, s') \<and> tcp_inv s' \<and> sent s' = sent s
    \<and> posted s' = posted s \<and> buff s' = buff s \<and> status s' = status s
    \<and> socket_open s' = socket_open s \<and> writeBufferSize s' = writeBufferSize s
    \<and> (r \<longleftrightarrow> isOk s \<and> length (outgoing s) + length (encode m) \<le> writeBufferSize s)
    \<and> outgoing s' = outgoing s @ (if r \<and> socket_open s then encode m else [])
    \<and> (r \<and> socket_open s \<longrightarrow> writing s')"
proof (cases "isOk s \<and> checkWriteBuffer m s \<and> socket_open s")
  case False
  then show ?thesis
    using inv checkWriteBuffer_iff [OF inv wf] tcp_inv_writeBuffer [OF inv] length_outgoing [OF inv]
    by (auto simp: writeMessage_def writeNolock_def)
next
  case True
  have len: "length (encode m) = MessageHeaderLength + length (msgData m)"
    by (simp add: wf_msg_encode [OF wf])
  have fit: "writeBufferOffest s + length (encode m) \<le> writeBufferSize s"
    using True checkWriteBuffer_iff [OF inv wf] by simp
  have small: "length (encode m) < 2 ^ 31" using fit inv by (simp add: tcp_inv_def)
  obtain s1 where s1: "writeImpl (header_bytes m) (int MessageHeaderLength) s = Some s1" "tcp_inv s1"
      "outgoing s1 = outgoing s @ header_bytes m" "sent s1 = sent s" "posted s1 = posted s"
      "buff s1 = buff s" "status s1 = status s" "socket_open s1 = socket_open s"
      "writeBufferSize s1 = writeBufferSize s"
      "writeBufferOffest s1 = writeBufferOffest s + MessageHeaderLength"
    using writeImpl_fits [OF inv, of MessageHeaderLength "header_bytes m"] fit small len
    by (auto simp: MessageHeaderLength_def)
  obtain s2 where s2: "writeImpl (msgData m) (int (length (msgData m))) s1 = Some s2" "tcp_inv s2"
      "outgoing s2 = outgoing s1 @ msgData m" "sent s2 = sent s" "posted s2 = posted s"
      "buff s2 = buff s" "status s2 = status s" "socket_open s2 = socket_open s"
      "writeBufferSize s2 = writeBufferSize s" "socket_open s1 \<longrightarrow> writing s2"
    using writeImpl_fits [OF s1(2), of "length (msgData m)" "msgData m"] fit small len s1(4-10)
    by (auto simp: MessageHeaderLength_def)
  have i32: "int32_of (int (length (msgData m))) = int (length (msgData m))"
    using small len by (intro int32_of_id) auto
  have "writeMessage m s = Some (True, s2)"
    using True tcp_inv_writeBuffer [OF inv] s1(1,7,8) s2(1)
    by (auto simp: writeMessage_def writeNolock_def isOk_def wf_msg_dataLen [OF wf] i32)
  then show ?thesis
    using True s1 s2 fit length_outgoing [OF inv]
    by (intro exI [of _ True] exI [of _ s2]) (simp add: wf_msg_encode [OF wf])
qed

section \<open>The read path\<close>

text \<open>The messages a list of posted tasks delivers.\<close>

fun delivered :: "logic_task list \<Rightarrow> Message list" where
  "delivered [] = []"
| "delivered (SessionReceiveMessage m # ts) = m # delivered ts"
| "delivered (t # ts) = delivered ts"

lemma delivered_append [simp]: "delivered (ts @ us) = delivered ts @ delivered us"
  by (induction ts rule: delivered.induct) simp_all

lemma delivered_map [simp]: "delivered (map SessionReceiveMessage ms) = ms"
  by (induction ms) simp_all

text \<open>The bytes one run of the handler receives.\<close>

definition received :: "(nat \<Rightarrow> block \<times> error_code) \<Rightarrow> error_code \<Rightarrow> tcp \<Rightarrow> byte list" where
  "received rd e s =
     (let (bs, e2) = rd (getAvailableBufferSize (buff s)) in if ec_ok e \<and> ec_ok e2 then bs else [])"

lemma delivered_tail [simp]: "delivered (posted (handleRead_tail e s)) = delivered (posted s)"
  by (auto simp: handleRead_tail_def Let_def post_task_def postReadNull_def)

lemma handleRead_spec:
  assumes inv: "tcp_inv s" and rd: "\<forall>n. length (fst (rd n)) \<le> n"
  shows "\<exists>s' ms bad. handleRead rd e s = Some s' \<and> tcp_inv s' \<and> sent s' = sent s
    \<and> outgoing s' = outgoing s \<and> delivered (posted s') = delivered (posted s) @ ms
    \<and> (received rd e s = [] \<and> ms = [] \<and> unread (buff s') = unread (buff s)
       \<or> ec_ok e \<and> stream_frames (unread (buff s) @ received rd e s) = (ms, bad, unread (buff s'))
          \<and> (bad \<longrightarrow> status s' = Disconnected))"
proof -
  obtain bs e2 where r: "rd (getAvailableBufferSize (buff s)) = (bs, e2)" by force
  have rb: "rb_inv (buff s)" using inv by (simp add: tcp_inv_def)
  have "length bs \<le> getAvailableBufferSize (buff s)"
    using rd r by (metis fst_conv)
  from rb_receive_ok [OF rb this] obtain b where
    b: "rb_receive (buff s) bs = Some b" "rb_inv b" "unread b = unread (buff s) @ bs" by blast
  obtain ms bad b' where d: "drain (Suc (length (unread b))) rb_take b = Some (ms, bad, b')"
      "rb_inv b'" "stream_frames (unread b) = (ms, bad, unread b')"
    using rbuf.drain_stream [OF b(2), of "Suc (length (unread b))"] by blast
  have upd: "tcp_inv (s\<lparr>reading := False, readBlockTimes := 0, buff := b'\<rparr>)"
    using inv d(2) by (simp add: tcp_inv_def)
  show ?thesis
  proof (cases "ec_ok e \<and> ec_ok e2")
    case True
    then show ?thesis
      using upd b(1) d(1) d(3) [unfolded b(3)] r
      by (intro exI [of _ "the (handleRead rd e s)"] exI [of _ ms] exI [of _ bad])
        (simp add: handleRead_def received_def Let_def del: drain.simps)
  next
    case False
    then show ?thesis
      using inv r by (auto simp: handleRead_def received_def Let_def)
  qed
qed

section \<open>Runs of a session\<close>

text \<open>
  One step of a session: a call by its user, or the completion of one pending operation, which may
  be any of them and may report any error. The event records the bytes accepted for sending, the
  bytes received, whether the receive buffer was reset, the session was stopped, or a connection
  attempt threw.
\<close>

datatype tcp_event =
  Accepted "byte list" | Received "byte list" | BufferReset | Stopped | Threw | Silent

inductive tcp_step :: "tcp \<Rightarrow> tcp_event \<Rightarrow> tcp \<Rightarrow> bool" where
  step_writeMessage:
    "wf_msg m \<Longrightarrow> writeMessage m s = Some (r, s') \<Longrightarrow>
       tcp_step s (if r \<and> socket_open s then Accepted (encode m) else Silent) s'"
| step_writeLock:
    "n < 2 ^ 31 \<Longrightarrow> n \<le> length data \<Longrightarrow> writeLock data (int n) s = Some s' \<Longrightarrow>
       tcp_step s
         (if isOk s \<and> socket_open s \<and> writeBufferOffest s + n \<le> writeBufferSize s
          then Accepted (take n data) else Silent) s'"
| step_start: "tcp_step s Silent (start nid a p nb s)"
| step_stop: "tcp_step s Stopped (stop sh s)"
| step_reset: "tcp_step s BufferReset (resetReadBuffer s)"
| step_setAsync: "tcp_step s Silent (setAsyncConnect b s)"
| step_connect: "connect rsv cn a p s = Inr s' \<Longrightarrow> tcp_step s Silent s'"
| step_reconnect: "reconnect rsv cn s = Inr s' \<Longrightarrow> tcp_step s Silent s'"
| step_connect_throws: "connect rsv cn a p s = Inl s' \<Longrightarrow> tcp_step s Threw s'"
| step_reconnect_throws: "reconnect rsv cn s = Inl s' \<Longrightarrow> tcp_step s Threw s'"
| step_read:
    "ops s = xs @ AsyncRead # ys \<Longrightarrow> \<forall>n. length (fst (rd n)) \<le> n \<Longrightarrow>
     handleRead rd e (s\<lparr>ops := xs @ ys\<rparr>) = Some s' \<Longrightarrow> tcp_step s (Received (received rd e s)) s'"
| step_write:
    "ops s = xs @ AsyncWrite # ys \<Longrightarrow> \<forall>i bs. fst (wr i bs) \<le> length bs \<Longrightarrow>
     handleWrite wr e (s\<lparr>ops := xs @ ys\<rparr>) = Some s' \<Longrightarrow> tcp_step s Silent s'"
| step_connected:
    "ops s = xs @ AsyncConnect a p # ys \<Longrightarrow> ec_ok e \<longrightarrow> opn \<Longrightarrow>
     tcp_step s Silent (handleConnect e (s\<lparr>ops := xs @ ys, socket_open := opn\<rparr>))"
| step_timer:
    "ops s = xs @ ReconnectTimer n # ys \<Longrightarrow> onReconnect rsv cn (s\<lparr>ops := xs @ ys\<rparr>) = Inr s' \<Longrightarrow>
     tcp_step s Silent s'"
| step_timer_throws:
    "ops s = xs @ ReconnectTimer n # ys \<Longrightarrow> onReconnect rsv cn (s\<lparr>ops := xs @ ys\<rparr>) = Inl s' \<Longrightarrow>
     tcp_step s Threw s'"

inductive tcp_run :: "tcp \<Rightarrow> tcp_event list \<Rightarrow> tcp \<Rightarrow> bool" where
  run_nil: "tcp_run s [] s"
| run_snoc: "tcp_run s evs s1 \<Longrightarrow> tcp_step s1 ev s2 \<Longrightarrow> tcp_run s (evs @ [ev]) s2"

fun ev_accepted :: "tcp_event \<Rightarrow> byte list" where
  "ev_accepted (Accepted bs) = bs"
| "ev_accepted _ = []"

fun ev_received :: "tcp_event \<Rightarrow> byte list" where
  "ev_received (Received bs) = bs"
| "ev_received _ = []"

text \<open>The bytes of the messages delivered so far, and those still in the receive buffer.\<close>

definition input_stream :: "tcp \<Rightarrow> byte list" where
  "input_stream s = concat (map encode (delivered (posted s))) @ unread (buff s)"

definition output_stream :: "tcp \<Rightarrow> byte list" where
  "output_stream s = sent s @ outgoing s"

text \<open>The steps that move no data: the invariant, both streams.\<close>

definition data_eq :: "tcp \<Rightarrow> tcp \<Rightarrow> bool" where
  "data_eq s s' \<longleftrightarrow> (tcp_inv s' = tcp_inv s) \<and> output_stream s' = output_stream s
     \<and> input_stream s' = input_stream s"

lemmas stream_defs = data_eq_def output_stream_def input_stream_def

lemma data_eq_start: "data_eq s (start nid a p nb s)"
  by (simp add: start_def Let_def stream_defs split: option.splits)

lemma data_eq_stop: "data_eq s (stop sh s)"
  by (simp add: stop_def Let_def stream_defs)

lemma data_eq_setAsync: "data_eq s (setAsyncConnect b s)"
  by (simp add: setAsyncConnect_def stream_defs outgoing_def tcp_inv_def)

lemma data_eq_handleConnect: "data_eq s (handleConnect e s)"
  by (simp add: handleConnect_def Let_def stream_defs)

lemma data_eq_onConnect:
  "onConnect rsv cn s = Inr s' \<or> onConnect rsv cn s = Inl s' \<Longrightarrow> data_eq s s'"
  using data_eq_handleConnect [of "s\<lparr>status := Connecting, socket_open := True\<rparr>"]
  by (auto simp: onConnect_def Let_def stream_defs split: if_splits option.splits)

lemma data_eq_ops: "data_eq (s\<lparr>ops := os\<rparr>) s' \<Longrightarrow> data_eq s s'"
  by (simp add: stream_defs)

lemma data_eq_ops_open: "data_eq (s\<lparr>ops := os, socket_open := b\<rparr>) s' \<Longrightarrow> data_eq s s'"
  by (simp add: stream_defs)

lemma data_eq_endpoint: "data_eq (s\<lparr>ip := a, port := p\<rparr>) s' \<Longrightarrow> data_eq s s'"
  by (simp add: stream_defs)

lemma tcp_step_data:
  assumes "tcp_step s ev s'" and "tcp_inv s"
  shows "tcp_inv s' \<and> output_stream s' = output_stream s @ ev_accepted ev
    \<and> (ev \<noteq> BufferReset \<longrightarrow> input_stream s' = input_stream s @ ev_received ev)"
  using assms
proof (induction rule: tcp_step.induct)
  case (step_writeMessage m s r s')
  from writeMessage_spec [OF step_writeMessage.prems step_writeMessage.hyps(1)] step_writeMessage.hyps(2)
  show ?case by (auto simp: output_stream_def input_stream_def)
next
  case (step_writeLock n data s s')
  show ?case
  proof (cases "isOk s \<and> socket_open s \<and> writeBufferOffest s + n \<le> writeBufferSize s")
    case True
    with writeImpl_fits [OF step_writeLock.prems step_writeLock.hyps(1,2)] step_writeLock.hyps(3)
    show ?thesis by (auto simp: writeLock_def output_stream_def input_stream_def)
  next
    case False
    with writeImpl_spec [OF step_writeLock.prems step_writeLock.hyps(1,2)] step_writeLock.hyps(3)
    have "s' = s" by (auto simp: writeLock_def split: if_splits)
    with False step_writeLock.prems show ?thesis by auto
  qed
next
  case (step_start s nid a p nb)
  then show ?case using data_eq_start by (simp add: data_eq_def)
next
  case (step_stop s sh)
  then show ?case using data_eq_stop by (simp add: data_eq_def)
next
  case (step_reset s)
  then show ?case
    by (simp add: resetReadBuffer_def tcp_inv_def rb_inv_reset output_stream_def)
next
  case (step_setAsync s b)
  then show ?case using data_eq_setAsync by (simp add: data_eq_def)
next
  case (step_connect rsv cn a p s s')
  then have "data_eq s s'"
    unfolding connect_def by (intro data_eq_endpoint [OF data_eq_onConnect]) blast
  with step_connect.prems show ?case by (simp add: data_eq_def)
next
  case (step_reconnect rsv cn s s')
  then have "data_eq s s'" unfolding reconnect_def by (intro data_eq_onConnect) blast
  with step_reconnect.prems show ?case by (simp add: data_eq_def)
next
  case (step_connect_throws rsv cn a p s s')
  then have "data_eq s s'"
    unfolding connect_def by (intro data_eq_endpoint [OF data_eq_onConnect]) blast
  with step_connect_throws.prems show ?case by (simp add: data_eq_def)
next
  case (step_reconnect_throws rsv cn s s')
  then have "data_eq s s'" unfolding reconnect_def by (intro data_eq_onConnect) blast
  with step_reconnect_throws.prems show ?case by (simp add: data_eq_def)
next
  case (step_read s xs ys rd e s')
  have rcv: "received rd e (s\<lparr>ops := xs @ ys\<rparr>) = received rd e s"
    by (simp add: received_def)
  obtain ms bad where spec: "tcp_inv s'" "sent s' = sent s" "outgoing s' = outgoing s"
      "delivered (posted s') = delivered (posted s) @ ms"
      "received rd e s = [] \<and> ms = [] \<and> unread (buff s') = unread (buff s)
       \<or> stream_frames (unread (buff s) @ received rd e s) = (ms, bad, unread (buff s'))"
    using handleRead_spec [of "s\<lparr>ops := xs @ ys\<rparr>" rd e] step_read rcv by auto
  then have "unread (buff s) @ received rd e s = concat (map encode ms) @ unread (buff s')"
    using stream_frames_inverse by fastforce
  with spec show ?case by (simp add: output_stream_def input_stream_def)
next
  case (step_write s xs ys wr e s')
  then show ?case
    using handleWrite_spec [of "s\<lparr>ops := xs @ ys\<rparr>" wr e]
    by (auto simp: output_stream_def input_stream_def)
next
  case (step_connected s xs a p ys e opn)
  then show ?case
    using data_eq_ops_open [OF data_eq_handleConnect] by (simp add: data_eq_def)
next
  case (step_timer s xs n ys rsv cn s')
  then have "data_eq s s'"
    unfolding onReconnect_def by (intro data_eq_ops [OF data_eq_onConnect]) blast
  with step_timer.prems show ?case by (simp add: data_eq_def)
next
  case (step_timer_throws s xs n ys rsv cn s')
  then have "data_eq s s'"
    unfolding onReconnect_def by (intro data_eq_ops [OF data_eq_onConnect]) blast
  with step_timer_throws.prems show ?case by (simp add: data_eq_def)
qed

lemma tcp_run_data:
  assumes "tcp_run s evs s'" and "tcp_inv s"
  shows "tcp_inv s' \<and> output_stream s' = output_stream s @ concat (map ev_accepted evs)
    \<and> (BufferReset \<notin> set evs \<longrightarrow> input_stream s' = input_stream s @ concat (map ev_received evs))"
  using assms
proof (induction rule: tcp_run.induct)
  case (run_nil s)
  then show ?case by simp
next
  case (run_snoc s evs s1 ev s2)
  then show ?case using tcp_step_data [OF run_snoc.hyps(2)] by auto
qed

section \<open>Pending operations\<close>

text \<open>
  The flags \<open>_reading\<close> and \<open>_writing\<close> count the pending operations, and a session in state
  \<open>Connecting\<close> waits for a connection attempt.
\<close>

definition pending_inv :: "tcp \<Rightarrow> bool" where
  "pending_inv s \<longleftrightarrow>
     count_list (ops s) AsyncRead = of_bool (reading s) \<and>
     count_list (ops s) AsyncWrite = of_bool (writing s) \<and>
     (status s = Connecting \<longrightarrow> (\<exists>a p. AsyncConnect a p \<in> set (ops s)))"


lemma pending_update [simp]:
  "pending_inv (s\<lparr>writeBuffer := wb\<rparr>) = pending_inv s"
  "pending_inv (s\<lparr>writeBufferOffest := n\<rparr>) = pending_inv s"
  "pending_inv (s\<lparr>sent := bs\<rparr>) = pending_inv s" "pending_inv (s\<lparr>buff := rb\<rparr>) = pending_inv s"
  "pending_inv (s\<lparr>readBlockTimes := i\<rparr>) = pending_inv s"
  "pending_inv (s\<lparr>writeBlockTimes := i\<rparr>) = pending_inv s"
  "pending_inv (s\<lparr>posted := ps\<rparr>) = pending_inv s" "pending_inv (s\<lparr>asyncConnect := b\<rparr>) = pending_inv s"
  "pending_inv (s\<lparr>ip := a\<rparr>) = pending_inv s" "pending_inv (s\<lparr>port := a\<rparr>) = pending_inv s"
  "pending_inv (s\<lparr>net_id := i\<rparr>) = pending_inv s" "pending_inv (s\<lparr>socket_open := b\<rparr>) = pending_inv s"
  by (simp_all add: pending_inv_def)















section \<open>Delivered messages\<close>

text \<open>What is delivered is well formed.\<close>

definition delivered_ok :: "tcp \<Rightarrow> bool" where
  "delivered_ok s \<longleftrightarrow> (\<forall>m\<in>set (delivered (posted s)). wf_msg m)"

lemma delivered_frame [simp]:
  "delivered (posted (postReadNull s)) = delivered (posted s)" "delivered (posted (postWriteNull s)) = delivered (posted s)"
  "delivered (posted (handleWrite_tail e s)) = delivered (posted s)" "delivered (posted (start nid a p nb s)) = delivered (posted s)"
  "delivered (posted (handleConnect e s)) = delivered (posted s)"
  by (simp_all add: tcp_post_defs handleWrite_tail_def start_def handleConnect_def Let_def split: option.splits)

lemma delivered_onConnect:
  "onConnect rsv cn s = Inr s' \<Longrightarrow> delivered (posted s') = delivered (posted s)"
  "onConnect rsv cn s = Inl s' \<Longrightarrow> delivered (posted s') = delivered (posted s)"
  by (auto simp: onConnect_def Let_def split: if_splits option.splits)

lemma delivered_write:
  "writeImpl d k s = Some s' \<Longrightarrow> delivered (posted s') = delivered (posted s)"
  "writeNolock d k s = Some s' \<Longrightarrow> delivered (posted s') = delivered (posted s)"
  "writeLock d k s = Some s' \<Longrightarrow> delivered (posted s') = delivered (posted s)"
  by (auto simp: writeImpl_def writeNolock_def writeLock_def Let_def split: if_splits bind_splits)

lemma delivered_handlers:
  "writeMessage m s = Some (r, s') \<Longrightarrow> delivered (posted s') = delivered (posted s)"
  "handleWrite wr e s = Some s' \<Longrightarrow> delivered (posted s') = delivered (posted s)"
  by (auto simp: writeMessage_def handleWrite_def Let_def dest!: delivered_write(2) split: if_splits prod.splits bind_splits)

lemma delivered_ok_step: "tcp_step s ev s' \<Longrightarrow> tcp_inv s \<Longrightarrow> delivered_ok s \<Longrightarrow> delivered_ok s'"
proof (induction rule: tcp_step.induct)
  case (step_read s xs ys rd e s')
  then obtain ms bad where "delivered (posted s') = delivered (posted s) @ ms"
      "ms = [] \<or> (\<exists>bs. stream_frames bs = (ms, bad, unread (buff s')))"
    using handleRead_spec [of "s\<lparr>ops := xs @ ys\<rparr>" rd e] by auto
  then show ?case
    using step_read.prems stream_frames_inverse by (auto simp: delivered_ok_def)
qed (auto simp: delivered_ok_def connect_def reconnect_def onReconnect_def stop_def resetReadBuffer_def setAsyncConnect_def Let_def
      dest!: delivered_write(3) delivered_handlers delivered_onConnect)

lemma delivered_ok_run: "tcp_run s evs s' \<Longrightarrow> tcp_inv s \<Longrightarrow> delivered_ok s \<Longrightarrow> delivered_ok s'"
proof (induction rule: tcp_run.induct)
  case (run_snoc s evs s1 ev s2)
  then show ?case using delivered_ok_step [OF run_snoc.hyps(2)] tcp_run_data [OF run_snoc.hyps(1)] by blast
qed

text \<open>Encoded messages delimit themselves.\<close>

lemma encode_prefix:
  "\<forall>m\<in>set ms. wf_msg m \<Longrightarrow> \<forall>m\<in>set ds. wf_msg m \<Longrightarrow> concat (map encode ds) @ r = concat (map encode ms) \<Longrightarrow>
   \<exists>k. ds = take k ms \<and> r = concat (map encode (drop k ms))"
proof (induction ds arbitrary: ms)
  case Nil
  then show ?case by (intro exI [of _ 0]) simp
next
  case (Cons d ds)
  have d: "wf_msg d" using Cons.prems(2) by simp
  then have "length (encode d) \<noteq> 0" by (simp add: wf_msg_encode MessageHeaderLength_def)
  then obtain m ms' where ms: "ms = m # ms'" using Cons.prems(3) by (cases ms) auto
  have m: "wf_msg m" using Cons.prems(1) ms by simp
  have eq: "encode d @ (concat (map encode ds) @ r) = encode m @ concat (map encode ms')"
    using Cons.prems(3) ms by simp
  have len: "length (encode d) = length (encode m)"
    using next_frame_encode [OF d, of "concat (map encode ds) @ r"] next_frame_encode [OF m, of "concat (map encode ms')"]
    unfolding eq by simp
  have same: "encode d = encode m" "concat (map encode ds) @ r = concat (map encode ms')"
    using eq append_eq_append_conv [OF disjI1 [OF len]] by blast+
  then have "d = m" using frame_message_encode [OF d] frame_message_encode [OF m] by metis
  obtain k where "ds = take k ms'" "r = concat (map encode (drop k ms'))"
    using Cons.IH [of ms'] Cons.prems ms same(2) by auto
  with \<open>d = m\<close> ms show ?case by (intro exI [of _ "Suc k"]) simp
qed


text \<open>A session that nothing has gone through.\<close>

definition idle :: "tcp \<Rightarrow> bool" where
  "idle s \<longleftrightarrow> tcp_inv s \<and> sent s = [] \<and> outgoing s = [] \<and> delivered (posted s) = [] \<and> unread (buff s) = []"

lemma idle_new: "length rmem < 2 ^ 31 \<Longrightarrow> length wmem < 2 ^ 31 \<Longrightarrow> idle (TcpSession_new rmem wmem nid r)"
  using tcp_inv_new by (simp add: idle_def) (simp add: TcpSession_new_def outgoing_def)

section \<open>Capacity\<close>

lemma capacity_post [simp]:
  "writeBufferSize (postReadNull s) = writeBufferSize s" "writeBufferSize (postWriteNull s) = writeBufferSize s"
  "writeBufferSize (post_task k s) = writeBufferSize s"
  "writeBufferSize (handleRead_tail e s) = writeBufferSize s" "writeBufferSize (handleWrite_tail e s) = writeBufferSize s"
  "writeBufferSize (start nid a p nb s) = writeBufferSize s" "writeBufferSize (handleConnect e s) = writeBufferSize s"
  by (simp_all add: tcp_post_defs handleRead_tail_def handleWrite_tail_def start_def handleConnect_def Let_def split: option.splits)

lemma capacity_write:
  "writeImpl d k s = Some s' \<Longrightarrow> writeBufferSize s' = writeBufferSize s"
  "writeNolock d k s = Some s' \<Longrightarrow> writeBufferSize s' = writeBufferSize s"
  "writeLock d k s = Some s' \<Longrightarrow> writeBufferSize s' = writeBufferSize s"
  by (auto simp: writeImpl_def writeNolock_def writeLock_def Let_def split: if_splits bind_splits)

lemma capacity_handlers:
  "writeMessage m s = Some (r, s') \<Longrightarrow> writeBufferSize s' = writeBufferSize s"
  "handleRead rd e s = Some s' \<Longrightarrow> writeBufferSize s' = writeBufferSize s"
  "handleWrite wr e s = Some s' \<Longrightarrow> writeBufferSize s' = writeBufferSize s"
  "onConnect rsv cn s = Inr s' \<Longrightarrow> writeBufferSize s' = writeBufferSize s"
  "onConnect rsv cn s = Inl s' \<Longrightarrow> writeBufferSize s' = writeBufferSize s"
  by (auto simp: writeMessage_def handleRead_def handleWrite_def onConnect_def Let_def simp del: drain.simps
      dest!: capacity_write(2) split: if_splits prod.splits bind_splits option.splits)

lemma capacity_step: "tcp_step s ev s' \<Longrightarrow> writeBufferSize s' = writeBufferSize s"
  by (induction rule: tcp_step.induct)
    (auto simp: connect_def reconnect_def onReconnect_def stop_def resetReadBuffer_def setAsyncConnect_def Let_def
      dest: capacity_write(3) capacity_handlers)

text \<open>No step of a session changes the size of its write buffer.\<close>

lemma capacity_run: "tcp_run s evs s' \<Longrightarrow> writeBufferSize s' = writeBufferSize s"
  by (induction rule: tcp_run.induct) (simp_all add: capacity_step)

section \<open>The interface of a message sink\<close>

text \<open>
  What the RPC layer relies on: a message is either queued behind everything queued before, as a
  whole, or not at all.
\<close>

locale message_sink =
  fixes invar :: "'s \<Rightarrow> bool"
    and ready :: "'s \<Rightarrow> bool"
    and linked :: "'s \<Rightarrow> bool"
    and capacity :: "'s \<Rightarrow> nat"
    and queue :: "'s \<Rightarrow> byte list"
    and send :: "Message \<Rightarrow> 's \<Rightarrow> (bool \<times> 's) option"
  assumes send_law:
    "invar s \<Longrightarrow> wf_msg m \<Longrightarrow>
       \<exists>r s'. send m s = Some (r, s') \<and> invar s' \<and> ready s' = ready s \<and> linked s' = linked s
         \<and> capacity s' = capacity s
         \<and> (r \<longleftrightarrow> ready s \<and> length (queue s) + length (encode m) \<le> capacity s)
         \<and> queue s' = queue s @ (if r \<and> linked s then encode m else [])"
begin

text \<open>A sequence of messages that fits is queued in order.\<close>

fun send_all :: "Message list \<Rightarrow> 's \<Rightarrow> (bool list \<times> 's) option" where
  "send_all [] s = Some ([], s)"
| "send_all (m # ms) s =
     Option.bind (send m s) (\<lambda>(r, s1). map_option (\<lambda>(rs, s2). (r # rs, s2)) (send_all ms s1))"

lemma send_all_queue:
  "invar s \<Longrightarrow> \<forall>m\<in>set ms. wf_msg m \<Longrightarrow> ready s \<Longrightarrow> linked s \<Longrightarrow>
   length (queue s) + length (concat (map encode ms)) \<le> capacity s \<Longrightarrow>
   \<exists>s'. send_all ms s = Some (replicate (length ms) True, s') \<and> invar s'
     \<and> queue s' = queue s @ concat (map encode ms)"
proof (induction ms arbitrary: s)
  case Nil
  then show ?case by simp
next
  case (Cons m ms)
  obtain s1 where s1: "send m s = Some (True, s1)" "invar s1" "ready s1" "linked s1"
      "capacity s1 = capacity s" "queue s1 = queue s @ encode m"
    using send_law [OF Cons.prems(1), of m] Cons.prems by auto
  with Cons.IH [of s1] Cons.prems show ?case by auto
qed

lemma send_refused:
  "invar s \<Longrightarrow> wf_msg m \<Longrightarrow> send m s = Some (False, s') \<Longrightarrow> queue s' = queue s"
  using send_law [of s m] by auto

end

interpretation session: message_sink tcp_inv isOk socket_open writeBufferSize outgoing writeMessage
proof (unfold_locales, goal_cases)
  case (1 s m)
  from writeMessage_spec [OF this] show ?case by (auto simp: isOk_def)
qed

section \<open>Properties\<close>

text \<open>
  C7 (safety). In a session whose buffers are well formed no handler runs into undefined
  behaviour, whatever the socket answers within its contract: no access outside a buffer, no
  overlapping copy, and the read and write loops end.
\<close>

theorem handlers_safe:
  assumes "tcp_inv s" and "\<forall>n. length (fst (rd n)) \<le> n" and "\<forall>i bs. fst (wr i bs) \<le> length bs"
    and "wf_msg m"
  shows "handleRead rd e s \<noteq> None \<and> handleWrite wr e s \<noteq> None \<and> writeMessage m s \<noteq> None"
  using handleRead_spec [OF assms(1,2), of e] handleWrite_spec [OF assms(1,3), of e]
    writeMessage_spec [OF assms(1,4)]
  by auto

theorem handlers_safe_witness:
  "handleRead (\<lambda>n. (take n [1, 2, 3], ec_none)) ec_none (TcpSession_new (replicate 32 0) (replicate 32 0) 0 5) \<noteq> None"
proof -
  have inv: "tcp_inv (TcpSession_new (replicate 32 0) (replicate 32 0) 0 5)"
    by (rule tcp_inv_new) simp_all
  have wf: "wf_msg (Message_str RPCMessage [])" by (rule wf_Message_str) simp
  show ?thesis
    using handlers_safe [OF inv, of "\<lambda>n. (take n [1, 2, 3], ec_none)" "\<lambda>i bs. (length bs, ec_none)", OF _ _ wf]
    by simp
qed

text \<open>
  C2 (invariant). Along every run of a session, in every order of user calls and completions and
  with every answer of the socket within its contract, the buffers stay well formed, and the bytes
  handed to the socket followed by the bytes still queued are exactly the bytes of the accepted
  messages, in the order in which they were accepted: nothing is lost, repeated or reordered.
\<close>

theorem output_integrity:
  assumes "tcp_run s evs s'" and "tcp_inv s"
  shows "tcp_inv s' \<and> sent s' @ outgoing s' = sent s @ outgoing s @ concat (map ev_accepted evs)"
  using tcp_run_data [OF assms] by (simp add: output_stream_def)

theorem output_integrity_witness:
  "let s = TcpSession_new (replicate 32 0) (replicate 32 0) 0 5 in
   tcp_run s [Stopped] (stop ec_none s) \<and> tcp_inv (stop ec_none s) \<and>
   sent (stop ec_none s) @ outgoing (stop ec_none s) = []"
proof -
  let ?s = "TcpSession_new (replicate 32 0) (replicate 32 0) 0 5"
  have inv: "tcp_inv ?s" by (rule tcp_inv_new) simp_all
  have run: "tcp_run ?s [Stopped] (stop ec_none ?s)"
    using run_snoc [OF run_nil step_stop] by simp
  show ?thesis
    using run output_integrity [OF run inv] by (simp add: TcpSession_new_def outgoing_def)
qed

text \<open>
  C3 (invariant). Along every run in which the user does not reset the receive buffer, the encoded
  messages delivered to the logic thread followed by the bytes still unread are exactly the bytes
  received: every message is delivered once, complete and in order, also when the stream breaks.
\<close>

theorem input_integrity:
  assumes "tcp_run s evs s'" and "tcp_inv s" and "BufferReset \<notin> set evs"
  shows "concat (map encode (delivered (posted s'))) @ unread (buff s')
    = concat (map encode (delivered (posted s))) @ unread (buff s) @ concat (map ev_received evs)"
  using tcp_run_data [OF assms(1,2)] assms(3) by (simp add: input_stream_def)

theorem input_integrity_witness:
  "let s = (TcpSession_new (replicate 80 0) (replicate 32 0) 0 5)\<lparr>ops := [AsyncRead]\<rparr> in
   \<exists>s'. tcp_run s [Received (encode (Message_str 1 [7]))] s' \<and>
     concat (map encode (delivered (posted s'))) @ unread (buff s') = encode (Message_str 1 [7])"
proof -
  let ?s = "(TcpSession_new (replicate 80 0) (replicate 32 0) 0 5)\<lparr>ops := [AsyncRead]\<rparr>"
  let ?rd = "\<lambda>n. (take n (encode (Message_str 1 [7])), ec_none)"
  have inv: "tcp_inv ?s" using tcp_inv_new [of "replicate 80 0" "replicate 32 0"] by simp
  have len: "length (encode (Message_str 1 [7])) = 15"
    using wf_msg_encode [OF wf_Message_str, of "[7]" 1] by (simp add: MessageHeaderLength_def)
  have "getAvailableBufferSize (buff ?s) = 80"
    by (simp add: TcpSession_new_def ReadBuffer_new_def getAvailableBufferSize_def)
  then have rcv: "received ?rd ec_none ?s = encode (Message_str 1 [7])"
    using len by (simp add: received_def ec_none_def)
  obtain s' where s': "handleRead ?rd ec_none (?s\<lparr>ops := [] @ []\<rparr>) = Some s'"
    using handleRead_spec [of "?s\<lparr>ops := [] @ []\<rparr>" ?rd ec_none] inv by auto
  have "tcp_step ?s (Received (received ?rd ec_none ?s)) s'"
    by (rule step_read [where xs = "[]" and ys = "[]"]) (use s' in \<open>auto simp: min_def\<close>)
  then have run: "tcp_run ?s [Received (encode (Message_str 1 [7]))] s'"
    using run_snoc [OF run_nil] rcv by fastforce
  show ?thesis
    using run input_integrity [OF run inv] by (auto simp: TcpSession_new_def)
qed

text \<open>
  C11 (functional behaviour). \<open>writeMessage\<close> answers true exactly when the session is connected and
  the whole message fits behind the queued bytes, also where the \<open>int\<close> sum of the check
  overflows. On an open socket it then queues header and payload as one unit and leaves a write
  operation pending; whenever it answers false the queue is unchanged.
\<close>

theorem writeMessage_atomic:
  assumes "tcp_inv s" and "wf_msg m"
  shows "\<exists>r s'. writeMessage m s = Some (r, s') \<and> tcp_inv s'
    \<and> (r \<longleftrightarrow> isOk s \<and> length (outgoing s) + length (encode m) \<le> writeBufferSize s)
    \<and> outgoing s' = outgoing s @ (if r \<and> socket_open s then encode m else [])
    \<and> (r \<and> socket_open s \<longrightarrow> writing s')"
  using writeMessage_spec [OF assms] by blast

theorem writeMessage_atomic_witness:
  "let s = (TcpSession_new [] (replicate 20 0) 0 5)\<lparr>status := Connected, socket_open := True\<rparr> in
   \<exists>s'. writeMessage (Message_str 1 [7]) s = Some (True, s') \<and> outgoing s' = encode (Message_str 1 [7])
     \<and> writing s'"
proof -
  let ?s = "(TcpSession_new [] (replicate 20 0) 0 5)\<lparr>status := Connected, socket_open := True\<rparr>"
  have inv: "tcp_inv ?s" using tcp_inv_new [of "[]" "replicate 20 0"] by simp
  have wf: "wf_msg (Message_str 1 [7])" by (rule wf_Message_str) simp
  have "length (encode (Message_str 1 [7])) = 15"
    using wf_msg_encode [OF wf] by (simp add: MessageHeaderLength_def)
  moreover have "outgoing ?s = []" by (simp add: TcpSession_new_def outgoing_def)
  ultimately show ?thesis
    using writeMessage_atomic [OF inv wf]
    by (auto simp: isOk_def) (auto simp: TcpSession_new_def)
qed





text \<open>
  A connection attempt that throws, because the host is not found or
  the address is no address, leaves the session in state \<open>Connecting\<close> with no operation pending
  of its own; every later \<open>connect\<close> or \<open>reconnect\<close> then does nothing.
\<close>

theorem failed_resolve_sticks:
  assumes "status s = Disconnected" and "asyncConnect s" and "\<not> rsv a p"
  shows "\<exists>s'. connect rsv cn a p s = Inl s' \<and> status s' = Connecting \<and> ops s' = ops s
    \<and> posted s' = posted s \<and> (\<forall>rsv' cn'. reconnect rsv' cn' s' = Inr s')"
  using assms by (simp add: connect_def reconnect_def onConnect_def)

theorem failed_resolve_sticks_witness:
  "\<exists>s'. connect (\<lambda>_ _. False) (\<lambda>_ _. None) ''nohost'' ''80'' (TcpSession_new [] [] 0 5) = Inl s'
    \<and> status s' = Connecting"
  using failed_resolve_sticks [of "TcpSession_new [] [] 0 5" "\<lambda>_ _. False" "''nohost''" "''80''" "\<lambda>_ _. None"]
  by (auto simp: TcpSession_new_def)

text \<open>
  C36 (functional behaviour). \<open>stop\<close> closes an open socket but leaves the status as it is: a
  connected session that was stopped still answers true to every message that fits, and sends
  none of them.
\<close>

theorem stopped_session_drops:
  assumes "tcp_inv s" and "isOk s" and "socket_open s" and "ec_ok shut" and "wf_msg m"
    and "length (outgoing s) + length (encode m) \<le> writeBufferSize s"
  shows "\<exists>s'. writeMessage m (stop shut s) = Some (True, s') \<and> outgoing s' = outgoing s \<and> sent s' = sent s"
proof -
  have st: "tcp_inv (stop shut s)" "isOk (stop shut s)" "\<not> socket_open (stop shut s)"
      "outgoing (stop shut s) = outgoing s" "sent (stop shut s) = sent s"
      "writeBufferSize (stop shut s) = writeBufferSize s"
    using assms by (simp_all add: stop_def Let_def isOk_def)
  from writeMessage_spec [OF st(1) assms(5)] st assms(6) show ?thesis by auto
qed

theorem stopped_session_drops_witness:
  "let s = (TcpSession_new [] (replicate 20 0) 0 5)\<lparr>status := Connected, socket_open := True\<rparr> in
   \<exists>s'. writeMessage (Message_str 1 [7]) (stop ec_none s) = Some (True, s') \<and> outgoing s' = []"
proof -
  let ?s = "(TcpSession_new [] (replicate 20 0) 0 5)\<lparr>status := Connected, socket_open := True\<rparr>"
  have inv: "tcp_inv ?s" using tcp_inv_new [of "[]" "replicate 20 0"] by simp
  have wf: "wf_msg (Message_str 1 [7])" by (rule wf_Message_str) simp
  have len: "length (encode (Message_str 1 [7])) = 15"
    using wf_msg_encode [OF wf] by (simp add: MessageHeaderLength_def)
  have out: "outgoing ?s = []" by (simp add: TcpSession_new_def outgoing_def)
  have ok: "isOk ?s" "socket_open ?s" "ec_ok ec_none" by (simp_all add: isOk_def ec_none_def)
  have "length (outgoing ?s) + length (encode (Message_str 1 [7])) \<le> writeBufferSize ?s"
    using len out by (simp add: TcpSession_new_def)
  from stopped_session_drops [OF inv ok wf this] out show ?thesis by auto
qed

text \<open>
  C4 (composition of two sessions). Whatever two sessions do, in every order and with every answer of
  their sockets: when the network hands the second one a prefix of the bytes the first one gave to its
  socket, the messages delivered at the second are the first messages that the first one accepted, in
  order, each exactly once; and when it has handed over all of them and nothing is left queued or
  unread, they are all the messages accepted.
\<close>

theorem peer_receives_accepted:
  assumes "idle a0" "idle b0" "tcp_run a0 evs a" "tcp_run b0 evs' b" and "BufferReset \<notin> set evs'"
    and accepted: "\<forall>m\<in>set ms. wf_msg m" "concat (map ev_accepted evs) = concat (map encode ms)"
    and network: "sent a = concat (map ev_received evs') @ flight"
  shows "\<exists>k. delivered (posted b) = take k ms
    \<and> (flight = [] \<and> outgoing a = [] \<and> unread (buff b) = [] \<longrightarrow> delivered (posted b) = ms)"
proof -
  have a: "sent a @ outgoing a = concat (map encode ms)"
    using tcp_run_data [OF assms(3)] assms(1) accepted(2) by (simp add: idle_def output_stream_def)
  have b: "concat (map encode (delivered (posted b))) @ unread (buff b) = concat (map ev_received evs')"
    using tcp_run_data [OF assms(4)] assms(2,5) by (simp add: idle_def input_stream_def)
  have "delivered_ok b"
    using delivered_ok_run [OF assms(4)] assms(2) by (simp add: idle_def delivered_ok_def)
  moreover have "concat (map encode (delivered (posted b))) @ unread (buff b) @ flight @ outgoing a = concat (map encode ms)"
    using a network b by (metis append.assoc)
  ultimately obtain k where k: "delivered (posted b) = take k ms" "unread (buff b) @ flight @ outgoing a = concat (map encode (drop k ms))"
    using encode_prefix [OF accepted(1), of "delivered (posted b)" "unread (buff b) @ flight @ outgoing a"]
    by (auto simp: delivered_ok_def)
  have "delivered (posted b) = ms" if "flight = []" "outgoing a = []" "unread (buff b) = []"
  proof -
    have "\<forall>m\<in>set (drop k ms). wf_msg m" using accepted(1) by (meson in_set_dropD)
    moreover have "concat (map encode (drop k ms)) = concat (map encode [])" using k(2) that by simp
    ultimately have "drop k ms = []"
      using stream_frames_encoded [of "drop k ms"] stream_frames_encoded [of "[]"] by (metis fst_conv empty_iff empty_set)
    then show ?thesis using k(1) by simp
  qed
  with k(1) show ?thesis by blast
qed

theorem peer_receives_accepted_witness:
  "let a0 = (TcpSession_new [] (replicate 20 0) 0 0)\<lparr>status := Connected, socket_open := True\<rparr>;
       b0 = (TcpSession_new (replicate 80 0) [] 0 0)\<lparr>ops := [AsyncRead]\<rparr>;
       m = Message_str 1 [7] in
   \<exists>a b. tcp_run a0 [Accepted (encode m), Silent] a \<and> tcp_run b0 [Received (encode m)] b \<and> delivered (posted b) = [m]"
proof -
  let ?m = "Message_str 1 [7]"
  let ?a = "(TcpSession_new [] (replicate 20 0) 0 0)\<lparr>status := Connected, socket_open := True\<rparr>"
  let ?b = "(TcpSession_new (replicate 80 0) [] 0 0)\<lparr>ops := [AsyncRead]\<rparr>"
  let ?wr = "\<lambda>(i :: nat) (bs :: block). (length bs, ec_none)"
  let ?rd = "\<lambda>n :: nat. (take n (encode ?m), ec_none)"
  have wf: "wf_msg ?m" by (rule wf_Message_str) simp
  have a0: "idle ?a" and b0: "idle ?b"
    using idle_new [of "[]" "replicate 20 0"] idle_new [of "replicate 80 0" "[]"] by (simp_all add: idle_def)
  have "case writeMessage ?m ?a of None \<Rightarrow> False
    | Some (r, a1) \<Rightarrow> r \<and> ops a1 = [AsyncWrite] \<and> (case handleWrite ?wr ec_none (a1\<lparr>ops := []\<rparr>) of None \<Rightarrow> False
        | Some a2 \<Rightarrow> sent a2 = encode ?m \<and> outgoing a2 = [])"
    by code_simp
  then obtain a1 a2 where a: "writeMessage ?m ?a = Some (True, a1)" "ops a1 = [AsyncWrite]"
      "handleWrite ?wr ec_none (a1\<lparr>ops := []\<rparr>) = Some a2" "sent a2 = encode ?m" "outgoing a2 = []"
    by (auto split: option.splits)
  have "tcp_step ?a (if True \<and> socket_open ?a then Accepted (encode ?m) else Silent) a1" by (rule step_writeMessage [OF wf a(1)])
  moreover have "tcp_step a1 Silent a2" by (rule step_write [where xs = "[]" and ys = "[]" and wr = ?wr]) (use a in auto)
  ultimately have ra: "tcp_run ?a [Accepted (encode ?m), Silent] a2" using run_snoc [OF run_snoc [OF run_nil]] by fastforce
  have "case handleRead ?rd ec_none (?b\<lparr>ops := []\<rparr>) of None \<Rightarrow> False | Some b1 \<Rightarrow> unread (buff b1) = []" by code_simp
  then obtain b1 where b1: "handleRead ?rd ec_none (?b\<lparr>ops := []\<rparr>) = Some b1" "unread (buff b1) = []" by (auto split: option.splits)
  have "received ?rd ec_none ?b = encode ?m" by code_simp
  moreover have "tcp_step ?b (Received (received ?rd ec_none ?b)) b1"
    by (rule step_read [where xs = "[]" and ys = "[]"]) (use b1 in \<open>auto simp: min_def\<close>)
  ultimately have rb: "tcp_run ?b [Received (encode ?m)] b1" using run_snoc [OF run_nil] by fastforce
  have "delivered (posted b1) = [?m]"
    using peer_receives_accepted [OF a0 b0 ra rb, of "[?m]" "[]"] wf a(4,5) b1(2) by simp
  with ra rb show ?thesis unfolding Let_def by blast
qed

end
