(* ===== verification/JME_UdpSession.thy ===== *)
theory JME_UdpSession
  imports JME_TcpSession
begin

text \<open>
  The UDP session (include/net/JME_UdpSession.h, source/net/JME_UdpSession.cpp). The datagram socket
  writes straight into the receive buffer while the operation is pending, so a pending receive
  carries the region it was given, and a pending send the length and the destination it was given;
  its bytes are read from the write buffer when it completes.
\<close>

datatype udp_op = UdpRecv nat nat | UdpSend nat nat
datatype udp_task = UdpOnReceive Message | UdpOnWrite

record UdpSession =
  u_ep :: nat
  u_port :: "16 word"
  u_buffer :: ReadBuffer
  u_writeBuffer :: block
  u_writeBufferSize :: nat
  u_writeBufferOffest :: nat
  u_isReading :: bool
  u_isWriting :: bool

record udp = UdpSession +
  u_posted :: "udp_task list"
  u_ops :: "udp_op list"
  u_sent :: "(nat \<times> block) list"

definition UdpSession_new :: "block \<Rightarrow> block \<Rightarrow> 16 word \<Rightarrow> udp" where
  "UdpSession_new rmem wmem p =
     \<lparr>u_ep = 0, u_port = p, u_buffer = ReadBuffer_new rmem, u_writeBuffer = wmem,
      u_writeBufferSize = length wmem, u_writeBufferOffest = 0, u_isReading = False,
      u_isWriting = False, u_posted = [], u_ops = [], u_sent = []\<rparr>"

definition doRead :: "udp \<Rightarrow> udp" where
  "doRead s =
     (if u_isReading s then s
      else s\<lparr>u_ops := u_ops s @ [UdpRecv (getBuffer (u_buffer s)) (getAvailableBufferSize (u_buffer s))]\<rparr>)"

text \<open>\<open>onRead\<close>, called with the error code and the number of bytes the socket has stored.\<close>

definition onRead :: "error_code \<Rightarrow> nat \<Rightarrow> udp \<Rightarrow> udp option" where
  "onRead ec n s =
     (let s1 = s\<lparr>u_isReading := False\<rparr> in
      if \<not> ec_ok ec \<or> n = 0 then Some (doRead s1)
      else do {
        (ret, out, b) \<leftarrow> getMessage (readNewData n (u_buffer s1));
        if ret = ReadBufferError \<or> ret = ReadBufferNoMessage
        then Some (doRead (s1\<lparr>u_buffer := rb_reset b\<rparr>))
        else (case out of
                None \<Rightarrow> None
              | Some (p, l) \<Rightarrow>
                  map_option (\<lambda>m. s1\<lparr>u_buffer := b, u_posted := u_posted s1 @ [UdpOnReceive m]\<rparr>)
                    (Message_create (drop p (rb_buffer b)) l))
      })"




text \<open>
  The socket completes the oldest pending receive with a datagram \<open>d\<close> from \<open>from\<close>: what does not
  fit the region is cut off, as \<open>recvfrom\<close> does, and the handler runs.
\<close>

definition udp_datagram :: "nat \<Rightarrow> block \<Rightarrow> udp \<Rightarrow> udp option" where
  "udp_datagram from d s =
     (case u_ops s of
        UdpRecv off n # os \<Rightarrow> do {
          b \<leftarrow> mem_write (rb_buffer (u_buffer s)) off (take n d);
          onRead ec_none (length (take n d))
            (s\<lparr>u_ops := os, u_ep := from, u_buffer := (u_buffer s)\<lparr>rb_buffer := b\<rparr>\<rparr>)
        }
      | _ \<Rightarrow> None)"


section \<open>Receiving\<close>

definition udp_inv :: "udp \<Rightarrow> bool" where
  "udp_inv s \<longleftrightarrow> rb_inv (u_buffer s) \<and> length (u_writeBuffer s) = u_writeBufferSize s
     \<and> u_writeBufferOffest s \<le> u_writeBufferSize s \<and> \<not> u_isReading s \<and> \<not> u_isWriting s"

text \<open>Nothing unread is left, and the handled part is at most half the buffer and one message.\<close>

definition udp_idle :: "nat \<Rightarrow> udp \<Rightarrow> bool" where
  "udp_idle L s \<longleftrightarrow> udp_inv s \<and> u_ops s = [] \<and> unread (u_buffer s) = []
     \<and> rb_handleOffest (u_buffer s) \<le> rb_buffSize (u_buffer s) div 2 + 1 + L"

lemma udp_idle_new:
  "length rmem < 2 ^ 31 \<Longrightarrow> udp_idle L (UdpSession_new rmem wmem p)"
  by (simp add: udp_idle_def udp_inv_def UdpSession_new_def rb_inv_new)
    (simp add: ReadBuffer_new_def)

text \<open>One datagram that holds one message, with room for it.\<close>

lemma udp_datagram_message:
  assumes idle: "udp_idle L s" and wf: "wf_msg m" "length (encode m) \<le> L"
    and room: "2 * L + rb_buffSize (u_buffer s) div 2 + 1 \<le> rb_buffSize (u_buffer s)"
  shows "\<exists>s'. udp_datagram from (encode m) (doRead s) = Some s' \<and> udp_idle L s'
    \<and> rb_buffSize (u_buffer s') = rb_buffSize (u_buffer s)
    \<and> u_posted s' = u_posted s @ [UdpOnReceive m] \<and> u_ep s' = from"
proof -
  let ?rb = "u_buffer s" and ?n = "length (encode m)"
  have inv: "rb_inv ?rb" and off: "rb_buffOffest ?rb = rb_handleOffest ?rb"
    using idle length_unread [of ?rb] by (auto simp: udp_idle_def udp_inv_def rb_inv_def)
  have fits: "?n \<le> getAvailableBufferSize ?rb"
    using inv off idle wf(2) room by (auto simp: getAvailableBufferSize_def rb_inv_def udp_idle_def)
  have pos: "0 < ?n" using wf_msg_encode [OF wf(1)] by (simp add: MessageHeaderLength_def)
  obtain rb where rb: "rb_receive ?rb (encode m) = Some rb" "rb_inv rb" "unread rb = encode m"
      "rb_buffSize rb = rb_buffSize ?rb"
    using rb_receive_ok [OF inv fits] idle by (auto simp: udp_idle_def)
  then obtain b where b: "mem_write (rb_buffer ?rb) (getBuffer ?rb) (encode m) = Some b"
      "rb = readNewData ?n (?rb\<lparr>rb_buffer := b\<rparr>)"
    by (auto simp: rb_receive_def)
  have fr: "next_frame (encode m) = Complete ?n"
    using next_frame_encode [OF wf(1), of "[]"] by simp
  obtain rb1 where rb1: "rb_inv rb1" "unread rb1 = encode m" "rb_buffSize rb1 = rb_buffSize ?rb"
      "rb_handleOffest rb1 \<le> rb_buffSize ?rb div 2 + 1"
      "getMessage rb = Some (int ?n, Some (rb_handleOffest rb1, ?n),
         rb1\<lparr>rb_handleOffest := rb_handleOffest rb1 + ?n\<rparr>)"
    by (rule getMessage_spec [OF rb(2)]) (simp add: fr rb(3,4))
  have crt: "Message_create (drop (rb_handleOffest rb1) (rb_buffer rb1)) ?n = Some m"
    using create_encode_aux [OF wf(1)] drop_handle_unread [OF rb1(1)] rb1(2) by simp
  have adv: "rb_inv (rb1\<lparr>rb_handleOffest := rb_handleOffest rb1 + ?n\<rparr>)"
      "unread (rb1\<lparr>rb_handleOffest := rb_handleOffest rb1 + ?n\<rparr>) = []"
    using unread_advance [OF rb1(1), of ?n] rb1(2) by simp_all
  have "getMessage (readNewData ?n (?rb\<lparr>rb_buffer := b\<rparr>)) = Some (int ?n, Some (rb_handleOffest rb1, ?n),
      rb1\<lparr>rb_handleOffest := rb_handleOffest rb1 + ?n\<rparr>)"
    using rb1(5) b(2) by simp
  then show ?thesis
    using idle fits pos b(1) crt adv rb1(3,4) wf(2)
    by (simp add: doRead_def udp_datagram_def onRead_def udp_idle_def udp_inv_def ec_none_def
        ReadBufferError_def ReadBufferNoMessage_def)
qed

text \<open>The user asks for the next datagram after each delivery.\<close>

fun udp_serve :: "nat \<Rightarrow> block list \<Rightarrow> udp \<Rightarrow> udp option" where
  "udp_serve from [] s = Some s"
| "udp_serve from (d # ds) s = Option.bind (udp_datagram from d (doRead s)) (udp_serve from ds)"

section \<open>Properties\<close>

text \<open>
  C32 (functional behaviour). A UDP session whose user calls \<open>startRead\<close> after each delivery hands
  out every message of a sequence of datagrams, one message each, in order, provided twice the
  longest message fits into the upper half of the buffer.
\<close>

theorem udp_delivers:
  assumes "udp_idle L s" and "\<forall>m\<in>set ms. wf_msg m \<and> length (encode m) \<le> L"
    and "2 * L + rb_buffSize (u_buffer s) div 2 + 1 \<le> rb_buffSize (u_buffer s)"
  shows "\<exists>s'. udp_serve from (map encode ms) s = Some s' \<and> u_posted s' = u_posted s @ map UdpOnReceive ms"
  using assms
proof (induction ms arbitrary: s)
  case Nil
  then show ?case by simp
next
  case (Cons m ms)
  have m: "wf_msg m" "length (encode m) \<le> L" using Cons.prems(2) by auto
  obtain s1 where s1: "udp_datagram from (encode m) (doRead s) = Some s1" "udp_idle L s1"
      "rb_buffSize (u_buffer s1) = rb_buffSize (u_buffer s)"
      "u_posted s1 = u_posted s @ [UdpOnReceive m]"
    using udp_datagram_message [OF Cons.prems(1) m Cons.prems(3)] by blast
  with Cons.IH [OF s1(2)] Cons.prems show ?case by simp
qed

theorem udp_delivers_witness:
  "\<exists>s'. udp_serve 1 (map encode [Message_str 1 [7], Message_str 2 [8]])
      (UdpSession_new (replicate 100 0) [] 0) = Some s'
    \<and> u_posted s' = [UdpOnReceive (Message_str 1 [7]), UdpOnReceive (Message_str 2 [8])]"
proof -
  have wf: "wf_msg (Message_str i [b])" for i b by (rule wf_Message_str) simp
  have len: "length (encode (Message_str i [b])) = 15" for i b
    using wf_msg_encode [OF wf] by (simp add: MessageHeaderLength_def)
  have "udp_idle 20 (UdpSession_new (replicate 100 0) [] 0)" by (rule udp_idle_new) simp
  from udp_delivers [OF this, of "[Message_str 1 [7], Message_str 2 [8]]" 1] wf len
  show ?thesis by (simp add: UdpSession_new_def ReadBuffer_new_def)
qed



end
