(* ===== verification/JME_Acceptor.thy ===== *)
theory JME_Acceptor
  imports JME_TcpSession
begin

text \<open>
  The acceptor (include/net/JME_Acceptor.h, source/net/JME_Acceptor.cpp). The sessions it creates
  are numbered in the order of creation; a pending \<open>async_accept\<close> carries what its handler is
  bound to: the session, the reconnect interval and the buffer size.
\<close>

record TcpAcceptor =
  acc_port :: "16 word"
  acc_sessions :: "tcp list"
  acc_ops :: "(nat \<times> nat \<times> nat) list"
  acc_posted :: "nat list"

definition TcpAcceptor_new :: "16 word \<Rightarrow> TcpAcceptor" where
  "TcpAcceptor_new p = \<lparr>acc_port = p, acc_sessions = [], acc_ops = [], acc_posted = []\<rparr>"

text \<open>\<open>nedmalloc n\<close> is a block of \<open>n\<close> bytes, \<open>nid\<close> the indeterminate net id of a new session.\<close>

definition accept :: "(nat \<Rightarrow> block) \<Rightarrow> int \<Rightarrow> nat \<Rightarrow> nat \<Rightarrow> TcpAcceptor \<Rightarrow> TcpAcceptor" where
  "accept nedmalloc nid recon bufferSize a =
     (let session = TcpSession_new (nedmalloc bufferSize) (nedmalloc bufferSize) nid recon in
      a\<lparr>acc_sessions := acc_sessions a @ [session],
        acc_ops := acc_ops a @ [(length (acc_sessions a), recon, bufferSize)]\<rparr>)"

definition stop_session :: "error_code \<Rightarrow> nat \<Rightarrow> TcpAcceptor \<Rightarrow> TcpAcceptor" where
  "stop_session shut i a =
     a\<lparr>acc_sessions := (acc_sessions a)[i := stop shut (acc_sessions a ! i)]\<rparr>"

definition handlerAccept ::
  "(nat \<Rightarrow> block) \<Rightarrow> int \<Rightarrow> error_code \<Rightarrow> nat \<Rightarrow> nat \<Rightarrow> nat \<Rightarrow> error_code \<Rightarrow> TcpAcceptor \<Rightarrow> TcpAcceptor" where
  "handlerAccept nedmalloc nid shut session recon bufferSize error a =
     (if ec_ok error then
        (let a1 = accept nedmalloc nid recon bufferSize a in
         a1\<lparr>acc_posted := acc_posted a1 @ [session]\<rparr>)
      else if ec_value error \<noteq> 995 then
        stop_session shut session (accept nedmalloc nid recon bufferSize a)
      else stop_session shut session a)"

text \<open>The oldest pending accept completes; success means that the session's socket is open.\<close>

definition accept_complete ::
  "(nat \<Rightarrow> block) \<Rightarrow> int \<Rightarrow> error_code \<Rightarrow> TcpAcceptor \<Rightarrow> error_code \<Rightarrow> TcpAcceptor" where
  "accept_complete nedmalloc nid shut a error =
     (case acc_ops a of
        [] \<Rightarrow> a
      | (i, r, n) # os \<Rightarrow>
          handlerAccept nedmalloc nid shut i r n error
            (a\<lparr>acc_ops := os,
               acc_sessions := (acc_sessions a)[i := (acc_sessions a ! i)\<lparr>socket_open := ec_ok error\<rparr>]\<rparr>))"

section \<open>The accept loop\<close>

text \<open>
  After the completions \<open>es\<close>: one accept pending for the newest session, the earlier sessions open
  exactly when their accept succeeded, and those handed to the user in order.
\<close>

definition acc_inv :: "nat \<Rightarrow> nat \<Rightarrow> error_code list \<Rightarrow> TcpAcceptor \<Rightarrow> bool" where
  "acc_inv r n es a \<longleftrightarrow>
     acc_ops a = [(length es, r, n)] \<and> length (acc_sessions a) = Suc (length es) \<and>
     acc_posted a = filter (\<lambda>i. ec_ok (es ! i)) [0..<length es] \<and>
     (\<forall>i<length es. socket_open (acc_sessions a ! i) = ec_ok (es ! i)) \<and>
     (\<forall>s\<in>set (acc_sessions a). tcp_inv s)"

lemma tcp_inv_stop: "tcp_inv (stop sh s) = tcp_inv s"
  by (simp add: stop_def Let_def)

lemma socket_open_stop: "\<not> socket_open s \<Longrightarrow> \<not> socket_open (stop sh s)"
  by (simp add: stop_def)

lemma list_update_append_length: "(xs @ [x])[length xs := y] = xs @ [y]"
  by simp

lemma acc_inv_accept:
  assumes "n < 2 ^ 31" "\<forall>k. length (nedmalloc k) = k"
  shows "acc_inv r n [] (accept nedmalloc nid r n (TcpAcceptor_new p))"
  using assms by (simp add: acc_inv_def accept_def TcpAcceptor_new_def Let_def tcp_inv_new)

lemma filter_upt_snoc:
  "filter (\<lambda>i. ec_ok ((es @ [e]) ! i)) [0..<length es] = filter (\<lambda>i. ec_ok (es ! i)) [0..<length es]"
  by (auto simp: nth_append intro!: filter_cong)

lemma acc_inv_complete:
  assumes inv: "acc_inv r n es a" and e: "ec_value e \<noteq> 995"
    and mem: "n < 2 ^ 31" "\<forall>k. length (nedmalloc k) = k"
  shows "acc_inv r n (es @ [e]) (accept_complete nedmalloc nid sh a e)"
proof -
  obtain ss s where ss: "acc_sessions a = ss @ [s]" "length ss = length es"
    using inv by (cases "acc_sessions a" rule: rev_cases) (auto simp: acc_inv_def)
  let ?new = "TcpSession_new (nedmalloc n) (nedmalloc n) nid r"
  let ?s = "s\<lparr>socket_open := ec_ok e\<rparr>"
  have tinv: "tcp_inv ?new" "tcp_inv s" "\<forall>s\<in>set ss. tcp_inv s"
    using mem inv ss by (auto simp: tcp_inv_new acc_inv_def)
  have sess: "acc_sessions (accept_complete nedmalloc nid sh a e)
      = ss @ [if ec_ok e then ?s else stop sh ?s, ?new]"
    using inv e ss
    by (auto simp: accept_complete_def handlerAccept_def accept_def stop_session_def acc_inv_def Let_def
        list_update_append nth_append)
  have "acc_ops (accept_complete nedmalloc nid sh a e) = [(Suc (length es), r, n)]"
      "acc_posted (accept_complete nedmalloc nid sh a e)
        = acc_posted a @ (if ec_ok e then [length es] else [])"
    using inv e ss
    by (auto simp: accept_complete_def handlerAccept_def accept_def stop_session_def acc_inv_def Let_def)
  moreover have "\<forall>i<Suc (length es). socket_open ((ss @ [if ec_ok e then ?s else stop sh ?s, ?new]) ! i)
      = ec_ok ((es @ [e]) ! i)"
    using inv ss by (auto simp: acc_inv_def nth_append less_Suc_eq socket_open_stop)
  ultimately show ?thesis
    using inv ss tinv
    by (simp add: acc_inv_def sess tcp_inv_stop filter_upt_snoc)
qed

section \<open>Properties\<close>

text \<open>
  C28 (invariant). After any sequence of completed accepts, successful or failed, none of them the
  abort code 995, exactly one accept is pending, on a fresh session; the handler has been given
  exactly the sessions whose accept succeeded, in order, their sockets open; every other session is
  closed; and the buffers of all sessions are well formed.
\<close>

theorem accept_loop:
  assumes "n < 2 ^ 31" and "\<forall>k. length (nedmalloc k) = k" and "\<forall>e\<in>set es. ec_value e \<noteq> 995"
  shows "let a = foldl (accept_complete nedmalloc nid sh) (accept nedmalloc nid r n (TcpAcceptor_new p)) es in
    acc_ops a = [(length es, r, n)]
    \<and> acc_posted a = filter (\<lambda>i. ec_ok (es ! i)) [0..<length es]
    \<and> (\<forall>i<length es. socket_open (acc_sessions a ! i) = ec_ok (es ! i))
    \<and> (\<forall>s\<in>set (acc_sessions a). tcp_inv s)"
proof -
  have "acc_inv r n es (foldl (accept_complete nedmalloc nid sh) (accept nedmalloc nid r n (TcpAcceptor_new p)) es)"
    using assms(3)
  proof (induction es rule: rev_induct)
    case Nil
    then show ?case using acc_inv_accept [OF assms(1,2)] by simp
  next
    case (snoc e es)
    then show ?case using acc_inv_complete [OF _ _ assms(1,2)] by simp
  qed
  then show ?thesis by (simp add: acc_inv_def Let_def)
qed

theorem accept_loop_witness:
  "acc_posted (foldl (accept_complete (\<lambda>k. replicate k 0) 0 ec_none)
      (accept (\<lambda>k. replicate k 0) 0 5 64 (TcpAcceptor_new 80)) [ec_none, would_block, ec_none]) = [0, 2]"
  using accept_loop [of 64 "\<lambda>k. replicate k 0" "[ec_none, would_block, ec_none]" 0 ec_none 5 80]
  by (simp add: ec_none_def would_block_def Let_def)

end
