(* ===== verification/JME_Core.thy ===== *)
theory JME_Core
  imports JME_Prelude "HOL-Library.Multiset" "HOL-Library.Char_ord" "HOL-Library.List_Lexorder"
begin

text \<open>
  The service threads (include/net/JME_Core.h, source/net/JME_Core.cpp): \<open>Thread\<close>, the singleton
  \<open>IoServiceCore\<close> with its net, logic and named threads, and the task queue \<open>JME_TaskThread\<close>.

  A \<open>Thread\<close> is an \<open>io_service\<close> and the pointer to the thread that runs it, null until \<open>run\<close>.
  The core keeps its threads in a list, a \<open>ThreadPtr\<close> is the index of its thread, and
  \<open>_namedThread\<close> is the ordered list of its entries.
\<close>

datatype thread_state = Running | Joined

record Thread =
  io_stopped :: bool
  io_thread :: "thread_state option"

definition Thread_new :: Thread where
  "Thread_new = \<lparr>io_stopped = False, io_thread = None\<rparr>"

definition Thread_run :: "Thread \<Rightarrow> Thread" where
  "Thread_run t = t\<lparr>io_thread := Some Running\<rparr>"

text \<open>\<open>stop\<close> joins through the thread pointer: undefined when the thread was never run.\<close>

definition Thread_stop :: "Thread \<Rightarrow> Thread option" where
  "Thread_stop t =
     (let t1 = t\<lparr>io_stopped := True\<rparr> in
      case io_thread t1 of None \<Rightarrow> None | Some _ \<Rightarrow> Some (t1\<lparr>io_thread := Some Joined\<rparr>))"

record IoServiceCore =
  threads :: "Thread list"
  netThread :: nat
  logicThread :: nat
  namedThread :: "(string \<times> nat) list"

definition IoServiceCore_new :: IoServiceCore where
  "IoServiceCore_new =
     \<lparr>threads = [Thread_new, Thread_new], netThread = 0, logicThread = 1, namedThread = []\<rparr>"

definition thread_run_at :: "nat \<Rightarrow> IoServiceCore \<Rightarrow> IoServiceCore" where
  "thread_run_at i c = c\<lparr>threads := (threads c)[i := Thread_run (threads c ! i)]\<rparr>"

definition thread_stop_at :: "nat \<Rightarrow> IoServiceCore \<Rightarrow> IoServiceCore option" where
  "thread_stop_at i c =
     map_option (\<lambda>t. c\<lparr>threads := (threads c)[i := t]\<rparr>) (Thread_stop (threads c ! i))"

definition core_start :: "IoServiceCore \<Rightarrow> IoServiceCore" where
  "core_start c = thread_run_at (logicThread c) (thread_run_at (netThread c) c)"

fun stop_named :: "nat list \<Rightarrow> IoServiceCore \<Rightarrow> IoServiceCore option" where
  "stop_named [] c = Some c"
| "stop_named (i # is) c = Option.bind (thread_stop_at i c) (stop_named is)"

definition core_stop :: "IoServiceCore \<Rightarrow> IoServiceCore option" where
  "core_stop c = do {
     c1 \<leftarrow> thread_stop_at (netThread c) c;
     c2 \<leftarrow> thread_stop_at (logicThread c1) c1;
     stop_named (map snd (namedThread c2)) c2
   }"

definition getThreadByName :: "string \<Rightarrow> IoServiceCore \<Rightarrow> nat option" where
  "getThreadByName name c = map_of (namedThread c) name"

definition createNamedThread :: "string \<Rightarrow> IoServiceCore \<Rightarrow> nat \<times> IoServiceCore" where
  "createNamedThread name c =
     (let i = length (threads c);
          c1 = thread_run_at i (c\<lparr>threads := threads c @ [Thread_new]\<rparr>) in
      (i, c1\<lparr>namedThread := (if map_of (namedThread c1) name = None
                             then insort_key fst (name, i) (namedThread c1) else namedThread c1)\<rparr>))"

definition createThreadByName :: "string \<Rightarrow> IoServiceCore \<Rightarrow> nat \<times> IoServiceCore" where
  "createThreadByName name c =
     (case getThreadByName name c of Some t \<Rightarrow> (t, c) | None \<Rightarrow> createNamedThread name c)"

section \<open>Well-formed cores\<close>

text \<open>The names are distinct and sorted, and name distinct threads that run, behind the first two.\<close>

definition core_inv :: "IoServiceCore \<Rightarrow> bool" where
  "core_inv c \<longleftrightarrow>
     netThread c = 0 \<and> logicThread c = 1 \<and> 2 \<le> length (threads c) \<and>
     sorted (map fst (namedThread c)) \<and> distinct (map fst (namedThread c)) \<and>
     set (map snd (namedThread c)) = {2..<length (threads c)} \<and> distinct (map snd (namedThread c)) \<and>
     (\<forall>i<length (threads c). 2 \<le> i \<longrightarrow> io_thread (threads c ! i) = Some Running)"

lemma core_inv_new: "core_inv IoServiceCore_new"
  by (simp add: core_inv_def IoServiceCore_new_def)

lemma core_inv_start: "core_inv c \<Longrightarrow> core_inv (core_start c)"
  by (simp add: core_inv_def core_start_def thread_run_at_def)

lemma mset_map_insort: "mset (map f (insort_key k x xs)) = add_mset (f x) (mset (map f xs))"
  by (induction xs) auto

lemma insort_perm:
  "set (map f (insort_key k x xs)) = insert (f x) (set (map f xs))"
  "distinct (map f (insort_key k x xs)) \<longleftrightarrow> f x \<notin> set (map f xs) \<and> distinct (map f xs)"
proof -
  show "set (map f (insort_key k x xs)) = insert (f x) (set (map f xs))"
    by (simp add: set_insort_key)
  have "mset (map f (insort_key k x xs)) = mset (f x # map f xs)"
    by (simp add: mset_map_insort)
  then show "distinct (map f (insort_key k x xs)) \<longleftrightarrow> f x \<notin> set (map f xs) \<and> distinct (map f xs)"
    using mset_eq_imp_distinct_iff by fastforce
qed

lemma map_of_insort:
  "name \<notin> fst ` set xs \<Longrightarrow>
   map_of (insort_key fst (name, k) xs) n = (if n = name then Some k else map_of xs n)"
  by (induction xs) auto

lemma core_inv_create:
  assumes inv: "core_inv c" and new: "getThreadByName name c = None"
  shows "core_inv (snd (createNamedThread name c))"
proof -
  have "name \<notin> fst ` set (namedThread c)"
    using new by (simp add: getThreadByName_def map_of_eq_None_iff)
  moreover have "length (threads c) \<notin> snd ` set (namedThread c)"
    using inv by (auto simp: core_inv_def)
  moreover have "{2..<Suc (length (threads c))} = insert (length (threads c)) {2..<length (threads c)}"
    using inv by (auto simp: core_inv_def)
  ultimately show ?thesis
    using inv new
    by (simp add: core_inv_def createNamedThread_def thread_run_at_def getThreadByName_def Let_def
        sorted_insort_key nth_append Thread_run_def less_Suc_eq insort_perm del: set_map distinct_map)
      (auto simp: image_iff)
qed

lemma core_inv_createThreadByName:
  "core_inv c \<Longrightarrow> core_inv (snd (createThreadByName name c))"
  by (auto simp: createThreadByName_def core_inv_create split: option.splits)

text \<open>Stopping a list of distinct running threads joins exactly them.\<close>

lemma stop_named_spec:
  assumes "\<forall>i\<in>set is. i < length (threads c) \<and> io_thread (threads c ! i) \<noteq> None"
  shows "\<exists>c'. stop_named is c = Some c' \<and> length (threads c') = length (threads c)
    \<and> (\<forall>i\<in>set is. threads c' ! i = \<lparr>io_stopped = True, io_thread = Some Joined\<rparr>)
    \<and> (\<forall>i. i \<notin> set is \<longrightarrow> threads c' ! i = threads c ! i)"
  using assms
proof (induction "is" arbitrary: c)
  case Nil
  then show ?case by simp
next
  case (Cons i "is")
  let ?c = "c\<lparr>threads := (threads c)[i := \<lparr>io_stopped = True, io_thread = Some Joined\<rparr>]\<rparr>"
  have st: "thread_stop_at i c = Some ?c"
    using Cons.prems by (cases "threads c ! i") (auto simp: thread_stop_at_def Thread_stop_def)
  have "\<forall>j\<in>set is. j < length (threads ?c) \<and> io_thread (threads ?c ! j) \<noteq> None"
    using Cons.prems by (auto simp: nth_list_update)
  from Cons.IH [OF this] obtain c' where "stop_named is ?c = Some c'"
      "length (threads c') = length (threads ?c)"
      "\<forall>i\<in>set is. threads c' ! i = \<lparr>io_stopped = True, io_thread = Some Joined\<rparr>"
      "\<forall>i. i \<notin> set is \<longrightarrow> threads c' ! i = threads ?c ! i" by blast
  then show ?case using Cons.prems st by (auto simp: nth_list_update)
qed

lemma core_stop_as_list:
  "core_stop c = stop_named (netThread c # logicThread c # map snd (namedThread c)) c"
  by (cases "Thread_stop (threads c ! netThread c)")
    (auto simp: core_stop_def thread_stop_at_def split: bind_splits)

text \<open>A core that was started, with named threads created by the calls \<open>names\<close>.\<close>

definition core_run :: "string list \<Rightarrow> IoServiceCore" where
  "core_run names = foldl (\<lambda>c n. snd (createThreadByName n c)) (core_start IoServiceCore_new) names"

section \<open>The task thread\<close>






datatype tt_event = Post nat | Work


fun posts :: "tt_event list \<Rightarrow> nat list" where
  "posts [] = []"
| "posts (Post n # es) = n # posts es"
| "posts (Work # es) = posts es"

lemma posts_append [simp]: "posts (es @ fs) = posts es @ posts fs"
  by (induction es rule: posts.induct) auto




section \<open>Properties\<close>

text \<open>
  C30 (functional behaviour). \<open>createThreadByName\<close> makes one running thread per name: after it the
  name is bound to the thread it returns, a second call returns the same thread and changes
  nothing, the other names keep their threads, and a new thread is none of the existing ones.
\<close>

theorem createThreadByName_spec:
  assumes "core_inv c"
  shows "case createThreadByName name c of (t, c') \<Rightarrow>
    core_inv c' \<and> getThreadByName name c' = Some t \<and> io_thread (threads c' ! t) = Some Running
    \<and> createThreadByName name c' = (t, c')
    \<and> (\<forall>n. n \<noteq> name \<longrightarrow> getThreadByName n c' = getThreadByName n c \<and> getThreadByName n c' \<noteq> Some t)"
proof -
  obtain t c' where tc: "createThreadByName name c = (t, c')" by force
  have inv: "core_inv c'" using core_inv_createThreadByName [OF assms, of name] tc by simp
  have get: "getThreadByName name c' = Some t \<and> (\<forall>n. n \<noteq> name \<longrightarrow> getThreadByName n c' = getThreadByName n c)"
  proof (cases "getThreadByName name c")
    case None
    have "name \<notin> fst ` set (namedThread c)"
      using None by (simp add: getThreadByName_def map_of_eq_None_iff)
    then show ?thesis
      using None tc
      by (auto simp: createThreadByName_def createNamedThread_def getThreadByName_def thread_run_at_def
          Let_def map_of_insort)
  next
    case (Some k)
    with tc show ?thesis by (simp add: createThreadByName_def)
  qed
  then have "(name, t) \<in> set (namedThread c')"
    by (simp add: getThreadByName_def map_of_SomeD)
  moreover have other: "getThreadByName n c' \<noteq> Some t" if "n \<noteq> name" for n
  proof
    assume "getThreadByName n c' = Some t"
    then have "(n, t) \<in> set (namedThread c')" by (simp add: getThreadByName_def map_of_SomeD)
    moreover have "inj_on snd (set (namedThread c'))"
      using inv by (simp add: core_inv_def distinct_map)
    ultimately have "(n, t) = (name, t)"
      using \<open>(name, t) \<in> set (namedThread c')\<close> by (intro inj_onD [of snd]) auto
    with that show False by simp
  qed
  ultimately have "t \<in> set (map snd (namedThread c'))" by force
  then have "io_thread (threads c' ! t) = Some Running"
    using inv by (simp add: core_inv_def del: set_map)
  then show ?thesis
    using inv get other tc by (simp add: createThreadByName_def)
qed

theorem createThreadByName_spec_witness:
  "getThreadByName ''db'' (snd (createThreadByName ''db'' IoServiceCore_new)) = Some 2"
  using createThreadByName_spec [OF core_inv_new, of "''db''"]
  by (simp add: createThreadByName_def createNamedThread_def getThreadByName_def thread_run_at_def
      IoServiceCore_new_def)

text \<open>
  C29 (safety). Stopping a core that was started, whatever named threads were created, never
  goes through a null thread pointer, and leaves every thread, the net thread, the logic thread and
  all named ones, stopped and joined; stopping one that was never started does go through the null
  pointer.
\<close>

theorem core_stop_joins:
  "(\<exists>c. core_stop (core_run names) = Some c \<and> length (threads c) = length (threads (core_run names))
     \<and> (\<forall>t\<in>set (threads c). io_stopped t \<and> io_thread t = Some Joined))
   \<and> core_stop IoServiceCore_new = None"
proof -
  let ?c = "core_run names"
  have run: "core_inv ?c \<and> io_thread (threads ?c ! 0) = Some Running \<and> io_thread (threads ?c ! 1) = Some Running"
    unfolding core_run_def
  proof (induction names rule: rev_induct)
    case Nil
    then show ?case
      using core_inv_start [OF core_inv_new]
      by (simp add: core_start_def IoServiceCore_new_def thread_run_at_def Thread_run_def)
  next
    case (snoc n ns)
    then show ?case
      using core_inv_createThreadByName
      by (auto simp: createThreadByName_def createNamedThread_def thread_run_at_def Let_def nth_append
          core_inv_def split: option.splits)
  qed
  let ?is = "netThread ?c # logicThread ?c # map snd (namedThread ?c)"
  have all: "set ?is = {0..<length (threads ?c)}"
    using run by (auto simp: core_inv_def simp del: set_map)
  have "\<forall>i\<in>set ?is. i < length (threads ?c) \<and> io_thread (threads ?c ! i) \<noteq> None"
    unfolding all using run
    by (auto simp: core_inv_def) (metis One_nat_def less_2_cases not_le option.distinct(1))
  from stop_named_spec [OF this] obtain c where "stop_named ?is ?c = Some c"
      "length (threads c) = length (threads ?c)"
      "\<forall>i\<in>{0..<length (threads ?c)}. threads c ! i = \<lparr>io_stopped = True, io_thread = Some Joined\<rparr>"
    unfolding all by blast
  moreover have "core_stop IoServiceCore_new = None"
    by (simp add: core_stop_def thread_stop_at_def IoServiceCore_new_def Thread_stop_def Thread_new_def)
  ultimately show ?thesis
    unfolding core_stop_as_list by (auto simp: in_set_conv_nth)
qed

theorem core_stop_joins_witness:
  "\<exists>c. core_stop (core_run [''db'', ''log'', ''db'']) = Some c
     \<and> list_all (\<lambda>t. io_stopped t \<and> io_thread t = Some Joined) (threads c)"
  using core_stop_joins [of "[''db'', ''log'', ''db'']"] by (auto simp: list_all_iff)



end
