(* ===== verification/JME_RpcHandler.thy ===== *)
theory JME_RpcHandler
  imports JME_Prelude
begin

text \<open>
  The table of RPC methods (include/rpc/JME_RpcHandler.h, source/rpc/JME_RpcHandler.cpp). A handler is
  code of the user: it gets the parameters, may change its own state \<open>'w\<close>, and returns a protobuf
  message or a null pointer. The server only serialises the message, so the handler's result is
  \<^term>\<open>None\<close> for null and the serialised bytes otherwise.
\<close>

type_synonym 'w rpc_handler = "block \<Rightarrow> 'w \<Rightarrow> block option \<times> 'w"
type_synonym 'w rpc_handlers = "block \<rightharpoonup> 'w rpc_handler"

text \<open>\<open>getRpcHandler\<close>: the static map, at first empty.\<close>

definition getRpcHandler :: "'w rpc_handlers" where
  "getRpcHandler = Map.empty"

text \<open>Registering a name twice aborts the process.\<close>

definition regRpcHandler :: "block \<Rightarrow> 'w rpc_handler \<Rightarrow> 'w rpc_handlers \<Rightarrow> 'w rpc_handlers option" where
  "regRpcHandler name handler handlers =
     (if handlers name \<noteq> None then None else Some (handlers(name \<mapsto> handler)))"

definition execRpcHandler :: "block \<Rightarrow> block \<Rightarrow> 'w rpc_handlers \<Rightarrow> 'w \<Rightarrow> block option \<times> 'w" where
  "execRpcHandler name params handlers w =
     (case handlers name of None \<Rightarrow> (None, w) | Some handler \<Rightarrow> handler params w)"

section \<open>The table as an interface\<close>

locale method_table =
  fixes lookup :: "'r \<Rightarrow> block \<Rightarrow> 'w rpc_handler option"
    and register :: "block \<Rightarrow> 'w rpc_handler \<Rightarrow> 'r \<Rightarrow> 'r option"
    and exec :: "block \<Rightarrow> block \<Rightarrow> 'r \<Rightarrow> 'w \<Rightarrow> block option \<times> 'w"
  assumes register_new:
      "lookup r k = None \<Longrightarrow> \<exists>r'. register k h r = Some r' \<and> lookup r' = (lookup r)(k \<mapsto> h)"
    and register_dup: "lookup r k \<noteq> None \<Longrightarrow> register k h r = None"
    and exec_law: "exec k p r w = (case lookup r k of None \<Rightarrow> (None, w) | Some h \<Rightarrow> h p w)"
begin

text \<open>Registering one method after the other; \<^term>\<open>None\<close> once the process has aborted.\<close>

lemma register_aborted: "fold (\<lambda>(k, h) r. Option.bind r (register k h)) hs None = None"
  by (induction hs) auto

lemma register_known:
  "k \<in> fst ` set hs \<Longrightarrow> lookup r k \<noteq> None \<Longrightarrow>
   fold (\<lambda>(k, h) r. Option.bind r (register k h)) hs (Some r) = None"
proof (induction hs arbitrary: r)
  case (Cons kh hs)
  obtain k' h where kh: "kh = (k', h)" by force
  show ?case
  proof (cases "register k' h r")
    case None
    then show ?thesis by (simp add: kh register_aborted)
  next
    case (Some r')
    then have "k' \<noteq> k" using register_dup [of r k h] Cons.prems(2) by auto
    moreover have "lookup r' k \<noteq> None"
      using Some register_new [of r k' h] register_dup [of r k' h] Cons.prems(2) \<open>k' \<noteq> k\<close>
      by (cases "lookup r k'") auto
    ultimately show ?thesis using Cons.IH [of r'] Cons.prems(1) Some by (simp add: kh)
  qed
qed simp

lemma register_all:
  "\<forall>k\<in>fst ` set hs. lookup r k = None \<Longrightarrow>
   (if distinct (map fst hs) then
      \<exists>r'. fold (\<lambda>(k, h) r. Option.bind r (register k h)) hs (Some r) = Some r' \<and> lookup r' = lookup r ++ map_of hs
    else fold (\<lambda>(k, h) r. Option.bind r (register k h)) hs (Some r) = None)"
proof (induction hs arbitrary: r)
  case Nil
  then show ?case by simp
next
  case (Cons kh hs)
  obtain k h where kh: "kh = (k, h)" by force
  obtain r1 where r1: "register k h r = Some r1" "lookup r1 = (lookup r)(k \<mapsto> h)"
    using register_new [of r k h] Cons.prems kh by auto
  show ?case
  proof (cases "k \<in> fst ` set hs")
    case True
    then have "fold (\<lambda>(k, h) r. Option.bind r (register k h)) hs (Some r1) = None"
      by (rule register_known) (simp add: r1)
    then show ?thesis using True r1(1) by (auto simp: kh)
  next
    case False
    then have "\<forall>k\<in>fst ` set hs. lookup r1 k = None" "map_of hs k = None"
      using Cons.prems r1(2) kh by (auto simp: map_of_eq_None_iff)
    moreover have "lookup r1 ++ map_of hs = lookup r ++ map_of ((k, h) # hs)"
      using \<open>map_of hs k = None\<close> unfolding r1(2) by (intro ext) (simp add: map_add_def split: option.split)
    ultimately show ?thesis
      using Cons.IH [of r1] r1(1) False unfolding kh by (auto simp del: map_of.simps map_of_Cons_code)
  qed
qed

end

interpretation methods: method_table "\<lambda>r. r" regRpcHandler execRpcHandler
  by unfold_locales (auto simp: regRpcHandler_def execRpcHandler_def)

section \<open>Properties\<close>

text \<open>
  C25 (functional behaviour). Starting from the empty table, registering a list of methods succeeds
  exactly when their names are distinct, and the process aborts otherwise; afterwards a call runs
  exactly the handler registered under its name, once, and an unknown name runs nothing and returns
  null.
\<close>

theorem registered_methods:
  "let registered = fold (\<lambda>(k, h) r. Option.bind r (regRpcHandler k h)) hs (Some getRpcHandler) in
   if distinct (map fst hs) then
     \<exists>r. registered = Some r
       \<and> execRpcHandler name params r w = (case map_of hs name of None \<Rightarrow> (None, w) | Some h \<Rightarrow> h params w)
   else registered = None"
  using methods.register_all [of hs getRpcHandler]
  by (auto simp: getRpcHandler_def execRpcHandler_def Let_def)

end
