(* ===== verification/Proto_Varint.thy ===== *)
theory Proto_Varint
  imports JME_Prelude
begin

text \<open>
  Integers on the wire (the static part of io/coded_stream.h and io/coded_stream.cc under
  include/google/protobuf): the varint writers and sizes, fixed-width integers, and the readers that
  work on an array. A \<open>ToArray\<close> function is modelled by the bytes it stores from \<open>target\<close> on; the
  pointer it returns is \<open>target\<close> plus their number.

  The reference is base 128, least significant group first: \<open>leb128\<close> writes it, \<open>vlen\<close> and \<open>vval\<close>
  give the length and the value of the varint a byte string starts with. The unrolled writers, the
  slow loops and the readers in 32-bit parts are all proved against it.
\<close>

section \<open>Writers\<close>

definition kMaxVarintBytes :: nat where "kMaxVarintBytes = 10"
definition kMaxVarint32Bytes :: nat where "kMaxVarint32Bytes = 5"

definition WriteVarint32FallbackToArrayInline :: "32 word \<Rightarrow> byte list" where
  "WriteVarint32FallbackToArrayInline value =
     (let t0 = ucast (value OR 0x80) in
      if value \<ge> 2 ^ 7 then
        (let t1 = ucast (drop_bit 7 value OR 0x80) in
         if value \<ge> 2 ^ 14 then
           (let t2 = ucast (drop_bit 14 value OR 0x80) in
            if value \<ge> 2 ^ 21 then
              (let t3 = ucast (drop_bit 21 value OR 0x80) in
               if value \<ge> 2 ^ 28 then [t0, t1, t2, t3, ucast (drop_bit 28 value)]
               else [t0, t1, t2, t3 AND 0x7F])
            else [t0, t1, t2 AND 0x7F])
         else [t0, t1 AND 0x7F])
      else [t0 AND 0x7F])"

definition WriteVarint32ToArray :: "32 word \<Rightarrow> byte list" where
  "WriteVarint32ToArray value =
     (if value < 0x80 then [ucast value] else WriteVarint32FallbackToArrayInline value)"

definition varint64_size :: "32 word \<Rightarrow> 32 word \<Rightarrow> 32 word \<Rightarrow> nat" where
  "varint64_size part0 part1 part2 =
     (if part2 = 0 then
        (if part1 = 0 then
           (if part0 < 2 ^ 14 then (if part0 < 2 ^ 7 then 1 else 2)
            else (if part0 < 2 ^ 21 then 3 else 4))
         else
           (if part1 < 2 ^ 14 then (if part1 < 2 ^ 7 then 5 else 6)
            else (if part1 < 2 ^ 21 then 7 else 8)))
      else (if part2 < 2 ^ 7 then 9 else 10))"

definition WriteVarint64ToArrayInline :: "64 word \<Rightarrow> byte list" where
  "WriteVarint64ToArrayInline value =
     (let part0 = ucast value :: 32 word;
          part1 = ucast (drop_bit 28 value) :: 32 word;
          part2 = ucast (drop_bit 56 value) :: 32 word;
          n = varint64_size part0 part1 part2;
          target = take n
            [ucast (part0 OR 0x80), ucast (drop_bit 7 part0 OR 0x80), ucast (drop_bit 14 part0 OR 0x80),
             ucast (drop_bit 21 part0 OR 0x80), ucast (part1 OR 0x80), ucast (drop_bit 7 part1 OR 0x80),
             ucast (drop_bit 14 part1 OR 0x80), ucast (drop_bit 21 part1 OR 0x80),
             ucast (part2 OR 0x80), ucast (drop_bit 7 part2 OR 0x80)]
      in target[n - 1 := target ! (n - 1) AND 0x7F])"

definition WriteVarint64ToArray :: "64 word \<Rightarrow> byte list" where
  "WriteVarint64ToArray value = WriteVarint64ToArrayInline value"

text \<open>The loops of the slow paths of \<open>WriteVarint32\<close> and \<open>WriteVarint64\<close>.\<close>

function varint_loop :: "'a::len word \<Rightarrow> byte list" where
  "varint_loop value =
     (if value > 0x7F then ((ucast value AND 0x7F) OR 0x80) # varint_loop (drop_bit 7 value)
      else [ucast value AND 0x7F])"
  by pat_completeness auto
termination
proof (relation "measure unat")
  fix w :: "'a word"
  assume "0x7F < w"
  then have "0 < unat w" by (simp add: word_less_nat_alt)
  moreover have "unat (drop_bit 7 w) = unat w div 2 ^ 7"
    by (subst unat_drop_bit_eq) (rule drop_bit_eq_div)
  ultimately show "(drop_bit 7 w, w) \<in> measure unat" by simp
qed simp

declare varint_loop.simps [simp del]

text \<open>An \<open>int32\<close> is sign-extended when it is negative; \<open>value\<close> is its bit pattern.\<close>

definition WriteVarint32SignExtendedToArray :: "32 word \<Rightarrow> byte list" where
  "WriteVarint32SignExtendedToArray value =
     (if sint value < 0 then WriteVarint64ToArray (word_of_int (sint value))
      else WriteVarint32ToArray value)"

definition WriteTagToArray :: "32 word \<Rightarrow> byte list" where
  "WriteTagToArray value =
     (if value < 2 ^ 7 then [ucast value]
      else if value < 2 ^ 14 then [ucast (value OR 0x80), ucast (drop_bit 7 value)]
      else WriteVarint32FallbackToArrayInline value)"

definition WriteLittleEndian32ToArray :: "32 word \<Rightarrow> byte list" where
  "WriteLittleEndian32ToArray value = le32 value"

definition WriteLittleEndian64ToArray :: "64 word \<Rightarrow> byte list" where
  "WriteLittleEndian64ToArray value = map (\<lambda>i. ucast (drop_bit (8 * i) value)) [0..<8]"

definition WriteRawToArray :: "block \<Rightarrow> byte list" where
  "WriteRawToArray data = data"

definition WriteStringToArray_raw :: "block \<Rightarrow> byte list" where
  "WriteStringToArray_raw str = WriteRawToArray str"

section \<open>Sizes\<close>

definition VarintSize32Fallback :: "32 word \<Rightarrow> nat" where
  "VarintSize32Fallback value =
     (if value < 2 ^ 7 then 1 else if value < 2 ^ 14 then 2 else if value < 2 ^ 21 then 3
      else if value < 2 ^ 28 then 4 else 5)"

definition VarintSize32 :: "32 word \<Rightarrow> nat" where
  "VarintSize32 value = (if value < 2 ^ 7 then 1 else VarintSize32Fallback value)"

definition VarintSize32SignExtended :: "32 word \<Rightarrow> nat" where
  "VarintSize32SignExtended value = (if sint value < 0 then 10 else VarintSize32 value)"

definition VarintSize64 :: "64 word \<Rightarrow> nat" where
  "VarintSize64 value =
     (if value < 2 ^ 35 then
        (if value < 2 ^ 7 then 1 else if value < 2 ^ 14 then 2 else if value < 2 ^ 21 then 3
         else if value < 2 ^ 28 then 4 else 5)
      else
        (if value < 2 ^ 42 then 6 else if value < 2 ^ 49 then 7 else if value < 2 ^ 56 then 8
         else if value < 2 ^ 63 then 9 else 10))"

section \<open>Readers on an array\<close>

text \<open>
  Lines of the form \<open>b = *(ptr++); result |= (b & 0x7F) << k; if (!(b & 0x80)) goto done;\<close> for the
  listed shifts: whether \<open>done\<close> was reached, the result and the pointer. A byte beyond the array
  is undefined.
\<close>

fun varint_lines :: "nat list \<Rightarrow> 32 word \<Rightarrow> block \<Rightarrow> nat \<Rightarrow> (bool \<times> 32 word \<times> nat) option" where
  "varint_lines [] result m ptr = Some (False, result, ptr)"
| "varint_lines (k # ks) result m ptr =
     (if ptr < length m then
        (let b = ucast (m ! ptr) :: 32 word; result' = result OR push_bit k (b AND 0x7F) in
         if b AND 0x80 = 0 then Some (True, result', ptr + 1)
         else varint_lines ks result' m (ptr + 1))
      else None)"

text \<open>The loop that discards the high-order bytes of a long varint.\<close>

fun varint_discard :: "nat \<Rightarrow> block \<Rightarrow> nat \<Rightarrow> nat option option" where
  "varint_discard 0 m ptr = Some None"
| "varint_discard (Suc n) m ptr =
     (if ptr < length m then
        (if m ! ptr AND 0x80 = 0 then Some (Some (ptr + 1)) else varint_discard n m (ptr + 1))
      else None)"

text \<open>The result and the end pointer, \<open>Some None\<close> for a null pointer.\<close>

definition ReadVarint32FromArray :: "block \<Rightarrow> nat \<Rightarrow> (32 word \<times> nat) option option" where
  "ReadVarint32FromArray m buffer = do {
     (fin, result, ptr) \<leftarrow> varint_lines [0, 7, 14, 21] 0 m buffer;
     if fin then Some (Some (result, ptr))
     else if ptr < length m then
       (let b = ucast (m ! ptr) :: 32 word; result = result OR push_bit 28 b in
        if b AND 0x80 = 0 then Some (Some (result, ptr + 1))
        else map_option (map_option (\<lambda>e. (result, e)))
               (varint_discard (kMaxVarintBytes - kMaxVarint32Bytes) m (ptr + 1)))
     else None
   }"

text \<open>The fast path of \<open>ReadVarint64Fallback\<close>, in three 32-bit parts.\<close>

definition varint64_join :: "32 word \<Rightarrow> 32 word \<Rightarrow> 32 word \<Rightarrow> 64 word" where
  "varint64_join part0 part1 part2 =
     ucast part0 OR push_bit 28 (ucast part1) OR push_bit 56 (ucast part2)"

definition ReadVarint64FromArray :: "block \<Rightarrow> nat \<Rightarrow> (64 word \<times> nat) option option" where
  "ReadVarint64FromArray m buffer = do {
     (fin, part0, ptr) \<leftarrow> varint_lines [0, 7, 14, 21] 0 m buffer;
     if fin then Some (Some (varint64_join part0 0 0, ptr))
     else do {
       (fin, part1, ptr) \<leftarrow> varint_lines [0, 7, 14, 21] 0 m ptr;
       if fin then Some (Some (varint64_join part0 part1 0, ptr))
       else do {
         (fin, part2, ptr) \<leftarrow> varint_lines [0, 7] 0 m ptr;
         Some (if fin then Some (varint64_join part0 part1 part2, ptr) else None)
       }
     }
   }"

fun of_le64 :: "byte list \<Rightarrow> 64 word" where
  "of_le64 (b0 # b1 # b2 # b3 # b4 # b5 # b6 # b7 # bs) =
     ucast (of_le32 [b0, b1, b2, b3]) OR push_bit 32 (ucast (of_le32 [b4, b5, b6, b7]))"
| "of_le64 _ = 0"

section \<open>The reference\<close>

function leb128 :: "nat \<Rightarrow> byte list" where
  "leb128 n = (if n < 128 then [of_nat n] else of_nat (n mod 128 + 128) # leb128 (n div 128))"
  by pat_completeness auto
termination
  by (relation "measure id") auto

declare leb128.simps [simp del]

fun vlen :: "byte list \<Rightarrow> nat option" where
  "vlen [] = None"
| "vlen (b # bs) = (if b < 128 then Some 1 else map_option Suc (vlen bs))"

fun vval :: "nat \<Rightarrow> byte list \<Rightarrow> nat" where
  "vval 0 bs = 0"
| "vval (Suc n) [] = 0"
| "vval (Suc n) (b # bs) = unat b mod 128 + 128 * vval n bs"

lemma leb128_digits:
  "128 ^ k \<le> n \<or> k = 0 \<Longrightarrow> n < 128 ^ Suc k \<Longrightarrow>
   leb128 n = map (\<lambda>i. of_nat (n div 128 ^ i mod 128 + 128)) [0..<k] @ [of_nat (n div 128 ^ k)]"
proof (induction k arbitrary: n)
  case 0
  then show ?case by (simp add: leb128.simps)
next
  case (Suc k)
  have pow: "128 ^ k \<le> n div 128" "n div 128 < 128 ^ Suc k"
    using Suc.prems by (auto simp: less_eq_div_iff_mult_less_eq div_less_iff_less_mult mult.commute)
  have "128 * 1 \<le> (128 :: nat) * 128 ^ k" by (intro mult_le_mono) simp_all
  then have "128 \<le> n" using Suc.prems(1) by (metis mult_1_right order_trans nat.distinct(1) power_Suc)
  then have "leb128 n = of_nat (n mod 128 + 128) # leb128 (n div 128)"
    by (simp add: leb128.simps)
  also have "leb128 (n div 128) =
      map (\<lambda>i. of_nat (n div 128 div 128 ^ i mod 128 + 128)) [0..<k] @ [of_nat (n div 128 div 128 ^ k)]"
    using pow by (intro Suc.IH) auto
  also have "\<dots> = map (\<lambda>i. of_nat (n div 128 ^ i mod 128 + 128)) [1..<Suc k] @ [of_nat (n div 128 ^ Suc k)]"
    by (simp add: map_Suc_upt [symmetric] div_mult2_eq del: map_Suc_upt upt_Suc)
  finally show ?case by (simp add: upt_conv_Cons del: upt_Suc)
qed

lemma length_leb128:
  "128 ^ k \<le> n \<or> k = 0 \<Longrightarrow> n < 128 ^ Suc k \<Longrightarrow> length (leb128 n) = Suc k"
  by (subst leb128_digits [of k]) auto

text \<open>The reference reader inverts the reference writer, also in front of other bytes.\<close>

lemma vlen_leb128: "vlen (leb128 n @ bs) = Some (length (leb128 n))"
proof (induction n rule: leb128.induct)
  case (1 n)
  have "\<not> (of_nat (n mod 128 + 128) :: byte) < 128"
    by (simp add: word_less_nat_alt unat_of_nat del: of_nat_add)
  moreover have "(of_nat n :: byte) < 128" if "n < 128"
    using that by (simp add: word_less_nat_alt unat_of_nat)
  ultimately show ?case using 1 by (subst (1 2) leb128.simps) auto
qed

lemma vval_leb128: "vval (length (leb128 n)) (leb128 n @ bs) = n"
proof (induction n rule: leb128.induct)
  case (1 n)
  have "unat (of_nat (n mod 128 + 128) :: byte) mod 128 = n mod 128"
    by (simp add: unat_of_nat del: of_nat_add)
  then show ?case using 1 by (subst (1 2) leb128.simps) (auto simp: unat_of_nat)
qed

section \<open>The writers produce the reference\<close>

lemma nat_or_80: "take_bit 8 n OR 128 = n mod 128 + (128 :: nat)"
proof -
  have b: "bit (128 :: nat) i \<longleftrightarrow> i = 7" for i
    using bit_exp_iff [of 7 i, where 'a = nat] by auto
  have "take_bit 7 n + 128 = take_bit 7 n OR (128 :: nat)"
    by (rule disjunctive_add) (auto simp: bit_take_bit_iff b)
  moreover have "take_bit 8 n OR 128 = take_bit 7 n OR (128 :: nat)"
    by (rule bit_eqI) (auto simp: bit_take_bit_iff bit_or_iff b)
  ultimately show ?thesis by (simp add: take_bit_eq_mod)
qed

lemma ucast_or_80: "(ucast (w OR 0x80 :: 32 word) :: byte) = of_nat (unat w mod 128 + 128)"
  by (rule word_unat_eq_iff [THEN iffD2])
    (simp add: unsigned_ucast_eq unsigned_or_eq nat_or_80 unat_of_nat del: of_nat_add)

lemma byte_and_7f: "(of_nat (n mod 128 + 128) :: byte) AND 0x7F = of_nat (n mod 128)"
proof -
  have "(of_nat (n mod 128 + 128) :: byte) AND 0x7F = take_bit 7 (of_nat (n mod 128 + 128))"
    by (simp add: take_bit_eq_mask mask_eq_exp_minus_1)
  also have "\<dots> = of_nat (n mod 128)"
    by (subst take_bit_of_nat) (simp add: take_bit_eq_mod)
  finally show ?thesis .
qed

lemma ucast_of_unat: "(ucast (w :: 'a::len word) :: byte) = of_nat (unat w)"
  by simp

lemma unat_shift: "unat (drop_bit k (w :: 'a::len word)) = unat w div 2 ^ k"
  by (subst unat_drop_bit_eq) (rule drop_bit_eq_div)

lemma leb128_step:
  "leb128 (n div 2 ^ k) =
     (if 128 \<le> n div 2 ^ k then of_nat (n div 2 ^ k mod 128 + 128) # leb128 (n div 2 ^ (k + 7))
      else [of_nat (n div 2 ^ k mod 128)])"
  by (subst leb128.simps) (auto simp: div_mult2_eq power_add simp del: of_nat_add)

lemma fallback_leb128: "WriteVarint32FallbackToArrayInline v = leb128 (unat v)"
proof -
  define n where "n = unat v"
  have ge: "v \<ge> 2 ^ 7 \<longleftrightarrow> 128 \<le> n" "v \<ge> 2 ^ 14 \<longleftrightarrow> 128 \<le> n div 2 ^ 7"
    "v \<ge> 2 ^ 21 \<longleftrightarrow> 128 \<le> n div 2 ^ 14" "v \<ge> 2 ^ 28 \<longleftrightarrow> 128 \<le> n div 2 ^ 21"
    by (simp_all add: word_le_nat_alt less_eq_div_iff_mult_less_eq n_def)
  have top: "n div 2 ^ 28 < 128" using unsigned_less [of v, where 'a = nat] by (simp add: n_def)
  have b: "(ucast (v OR 0x80) :: byte) = of_nat (n mod 128 + 128)"
    "(ucast (drop_bit k v OR 0x80) :: byte) = of_nat (n div 2 ^ k mod 128 + 128)" for k
    by (simp_all only: ucast_or_80 unat_shift n_def)
  have b': "(ucast (drop_bit k v) :: byte) = of_nat (n div 2 ^ k)" for k
    by (simp only: ucast_of_unat unat_shift n_def)
  note l = leb128_step [of n 0] leb128_step [of n 7] leb128_step [of n 14] leb128_step [of n 21] leb128_step [of n 28]
  show ?thesis
    using l top
    by (simp only: WriteVarint32FallbackToArrayInline_def Let_def ge b b' byte_and_7f n_def [symmetric])
      (simp del: of_nat_add)
qed

lemma WriteVarint32ToArray_leb128: "WriteVarint32ToArray v = leb128 (unat v)"
proof (cases "v < 0x80")
  case True
  then have "unat v < 128" by (simp add: word_less_nat_alt)
  then have "leb128 (unat v) = [of_nat (unat v)]" by (subst leb128.simps) simp
  then show ?thesis using True by (simp add: WriteVarint32ToArray_def)
next
  case False
  then show ?thesis by (simp add: WriteVarint32ToArray_def fallback_leb128)
qed

lemma WriteTagToArray_leb128: "WriteTagToArray v = leb128 (unat v)"
proof -
  consider "v < 2 ^ 7" | "\<not> v < 2 ^ 7" "v < 2 ^ 14" | "\<not> v < 2 ^ 7" "\<not> v < 2 ^ 14" by blast
  then show ?thesis
  proof cases
    case 1
    then show ?thesis
      using WriteVarint32ToArray_leb128 [of v] by (simp add: WriteTagToArray_def WriteVarint32ToArray_def)
  next
    case 2
    then have n: "128 \<le> unat v" "unat v div 128 < 128" by (simp_all add: word_less_nat_alt not_less)
    have "leb128 (unat v) = [of_nat (unat v mod 128 + 128), of_nat (unat v div 128)]"
      using n by (simp add: leb128.simps [of "unat v"] leb128.simps [of "unat v div 128"] del: of_nat_add)
    moreover have "(ucast (drop_bit 7 v) :: byte) = of_nat (unat v div 2 ^ 7)"
      by (simp only: ucast_of_unat unat_shift)
    ultimately show ?thesis
      using 2 by (simp add: WriteTagToArray_def ucast_or_80 del: of_nat_add)
  next
    case 3
    then show ?thesis by (simp add: WriteTagToArray_def fallback_leb128)
  qed
qed

lemma varint_loop_leb128:
  "7 < LENGTH('a) \<Longrightarrow> varint_loop (v :: 'a::len word) = leb128 (unat v)"
proof (induction v rule: varint_loop.induct)
  case (1 v)
  have c: "unat (0x7F :: 'a word) = 127"
  proof -
    have "(127::nat) < 2 ^ 7" by simp
    also have "\<dots> \<le> 2 ^ LENGTH('a)" using 1(2) by (intro power_increasing) auto
    finally show ?thesis by (simp add: unat_numeral take_bit_eq_mod)
  qed
  have gt: "v > 0x7F \<longleftrightarrow> 128 \<le> unat v" unfolding word_less_nat_alt c by auto
  have m: "(ucast v :: byte) AND 0x7F = of_nat (unat v mod 128)"
  proof -
    have "(ucast v :: byte) AND 0x7F = take_bit 7 (of_nat (unat v))"
      by (simp add: take_bit_eq_mask mask_eq_exp_minus_1)
    also have "\<dots> = of_nat (unat v mod 128)"
      by (subst take_bit_of_nat) (simp add: take_bit_eq_mod)
    finally show ?thesis .
  qed
  have o: "(of_nat (k mod 128) :: byte) OR 0x80 = of_nat (k mod 128 + 128)" for k
    by (rule word_unat_eq_iff [THEN iffD2])
      (use nat_or_80 [of "k mod 128"] in \<open>simp add: unsigned_or_eq unat_of_nat take_bit_eq_mod del: of_nat_add\<close>)
  have sh: "unat (drop_bit 7 v) = unat v div 128" using unat_shift [of 7 v] by simp
  show ?case
  proof (cases "v > 0x7F")
    case True
    then have "varint_loop v = of_nat (unat v mod 128 + 128) # leb128 (unat v div 128)"
      using 1 by (simp only: varint_loop.simps [of v] if_True m o sh)
    then show ?thesis using True gt by (simp only: leb128.simps [of "unat v"]) simp
  next
    case False
    then have "varint_loop v = [of_nat (unat v mod 128)]"
      by (simp only: varint_loop.simps [of v] if_False m)
    then show ?thesis using False gt by (simp only: leb128.simps [of "unat v"]) simp
  qed
qed

lemma mod_div_mod: "k + 7 \<le> l \<Longrightarrow> (a mod 2 ^ l) div 2 ^ k mod 128 = a div 2 ^ k mod (128 :: nat)"
proof -
  assume "k + 7 \<le> l"
  then obtain d where l: "l = k + (7 + d)" by (metis add.assoc le_Suc_ex)
  have "(a mod 2 ^ l) div 2 ^ k = a div 2 ^ k mod (2 ^ 7 * 2 ^ d)"
    unfolding l power_add [of _ k] by (subst mod_mult2_eq) (simp add: power_add)
  then show ?thesis by (simp add: mod_mult2_eq)
qed

lemma varint64_size_bounds:
  assumes "n < 2 ^ 64"
  shows "let k = varint64_size (of_nat n) (of_nat (n div 2 ^ 28)) (of_nat (n div 2 ^ 56)) in
    1 \<le> k \<and> k \<le> 10 \<and> n < 128 ^ k \<and> (k = 1 \<or> 128 ^ (k - 1) \<le> n)"
proof -
  have p2: "unat (of_nat (n div 2 ^ 56) :: 32 word) = n div 2 ^ 56"
    using assms by (simp add: unat_of_nat)
  have p1: "unat (of_nat (n div 2 ^ 28) :: 32 word) = n div 2 ^ 28" if "n div 2 ^ 56 = 0"
    using that by (simp add: unat_of_nat)
  have p0: "unat (of_nat n :: 32 word) = n" if "n div 2 ^ 28 = 0"
    using that by (simp add: unat_of_nat)
  have z: "(w :: 32 word) = 0 \<longleftrightarrow> unat w = 0" for w by (simp add: unat_eq_zero)
  have lt: "(w :: 32 word) < 2 ^ 7 \<longleftrightarrow> unat w < 2 ^ 7" "(w :: 32 word) < 2 ^ 14 \<longleftrightarrow> unat w < 2 ^ 14"
    "(w :: 32 word) < 2 ^ 21 \<longleftrightarrow> unat w < 2 ^ 21" for w by (simp_all add: word_less_nat_alt)
  consider (a) "n div 2 ^ 28 = 0" "n div 2 ^ 56 = 0" | (b) "n div 2 ^ 28 \<noteq> 0" "n div 2 ^ 56 = 0"
    | (c) "n div 2 ^ 56 \<noteq> 0"
    by (cases "n div 2 ^ 28 = 0") auto
  then show ?thesis
  proof cases
    case a
    then show ?thesis
      unfolding varint64_size_def z lt p2 p1 [OF a(2)] p0 [OF a(1)] Let_def by auto
  next
    case b
    then show ?thesis
      unfolding varint64_size_def z lt p2 p1 [OF b(2)] Let_def
      by (auto simp: div_less_iff_less_mult not_less less_eq_div_iff_mult_less_eq)
  next
    case c
    then show ?thesis
      using assms unfolding varint64_size_def z lt p2 Let_def
      by (auto simp: div_less_iff_less_mult not_less less_eq_div_iff_mult_less_eq)
  qed
qed

lemma take_clear_last:
  assumes "1 \<le> k" "k \<le> 10" "n < 128 ^ k" "k = 1 \<or> 128 ^ (k - 1) \<le> n"
  shows "let t = take k (map (\<lambda>i. of_nat (n div 128 ^ i mod 128 + 128) :: byte) [0..<10])
         in t[k - 1 := t ! (k - 1) AND 0x7F] = leb128 n"
proof -
  obtain j where j: "k = Suc j" using assms(1) by (cases k) auto
  let ?f = "\<lambda>i. of_nat (n div 128 ^ i mod 128 + 128) :: byte"
  have t: "take k (map ?f [0..<10]) = map ?f [0..<j] @ [?f j]"
    using assms(2) j by (simp add: take_map take_upt del: of_nat_add)
  have "?f j AND 0x7F = of_nat (n div 128 ^ j)"
    using assms(3) j by (subst byte_and_7f) (simp add: div_less_iff_less_mult)
  moreover have "leb128 n = map ?f [0..<j] @ [of_nat (n div 128 ^ j)]"
    using assms j by (intro leb128_digits) auto
  ultimately show ?thesis
    unfolding Let_def t by (simp add: j nth_append list_update_append del: of_nat_add)
qed

lemma WriteVarint64ToArray_leb128: "WriteVarint64ToArray v = leb128 (unat v)"
proof -
  define n where "n = unat v"
  have n: "n < 2 ^ 64" using unsigned_less [of v, where 'a = nat] by (simp add: n_def)
  define p0 p1 p2 :: "32 word" where "p0 = ucast v" and "p1 = ucast (drop_bit 28 v)" and "p2 = ucast (drop_bit 56 v)"
  have p: "p0 = of_nat n" "p1 = of_nat (n div 2 ^ 28)" "p2 = of_nat (n div 2 ^ 56)"
    unfolding p0_def p1_def p2_def n_def unat_shift [symmetric] by simp_all
  have u: "unat p0 = n mod 2 ^ 32" "unat p1 = n div 2 ^ 28 mod 2 ^ 32" "unat p2 = n div 2 ^ 56 mod 2 ^ 32"
    unfolding p by (simp_all add: unat_of_nat)
  have "[ucast (p0 OR 0x80), ucast (drop_bit 7 p0 OR 0x80), ucast (drop_bit 14 p0 OR 0x80),
         ucast (drop_bit 21 p0 OR 0x80), ucast (p1 OR 0x80), ucast (drop_bit 7 p1 OR 0x80),
         ucast (drop_bit 14 p1 OR 0x80), ucast (drop_bit 21 p1 OR 0x80),
         ucast (p2 OR 0x80), ucast (drop_bit 7 p2 OR 0x80)]
      = map (\<lambda>i. of_nat (n div 128 ^ i mod 128 + 128) :: byte) [0..<10]"
    using mod_div_mod [of 0 32] mod_div_mod [of 7 32] mod_div_mod [of 14 32] mod_div_mod [of 21 32]
    unfolding ucast_or_80 unat_shift u
    by (simp add: upt_rec flip: div_mult2_eq del: of_nat_add)
  then show ?thesis
    using take_clear_last [of "varint64_size p0 p1 p2" n] varint64_size_bounds [OF n]
    unfolding WriteVarint64ToArray_def WriteVarint64ToArrayInline_def Let_def n_def [symmetric]
      p0_def [symmetric] p1_def [symmetric] p2_def [symmetric] p(1) [symmetric] p(2) [symmetric] p(3) [symmetric]
    by simp
qed

section \<open>Sizes\<close>

lemma VarintSize32_leb128: "VarintSize32 v = length (leb128 (unat v))"
proof -
  have lt: "v < 2 ^ 7 \<longleftrightarrow> unat v < 128 ^ 1" "v < 2 ^ 14 \<longleftrightarrow> unat v < 128 ^ 2"
    "v < 2 ^ 21 \<longleftrightarrow> unat v < 128 ^ 3" "v < 2 ^ 28 \<longleftrightarrow> unat v < 128 ^ 4"
    by (simp_all add: word_less_nat_alt)
  have "unat v < 128 ^ 5" using unsigned_less [of v, where 'a = nat] by simp
  then show ?thesis
    using length_leb128 [of 0 "unat v"] length_leb128 [of 1 "unat v"] length_leb128 [of 2 "unat v"]
      length_leb128 [of 3 "unat v"] length_leb128 [of 4 "unat v"]
    unfolding VarintSize32_def VarintSize32Fallback_def lt by auto
qed

lemma VarintSize64_leb128: "VarintSize64 v = length (leb128 (unat v))"
proof -
  have lt: "v < 2 ^ 7 \<longleftrightarrow> unat v < 128 ^ 1" "v < 2 ^ 14 \<longleftrightarrow> unat v < 128 ^ 2"
    "v < 2 ^ 21 \<longleftrightarrow> unat v < 128 ^ 3" "v < 2 ^ 28 \<longleftrightarrow> unat v < 128 ^ 4" "v < 2 ^ 35 \<longleftrightarrow> unat v < 128 ^ 5"
    "v < 2 ^ 42 \<longleftrightarrow> unat v < 128 ^ 6" "v < 2 ^ 49 \<longleftrightarrow> unat v < 128 ^ 7" "v < 2 ^ 56 \<longleftrightarrow> unat v < 128 ^ 8"
    "v < 2 ^ 63 \<longleftrightarrow> unat v < 128 ^ 9"
    by (simp_all add: word_less_nat_alt)
  have "unat v < 128 ^ 10" using unsigned_less [of v, where 'a = nat] by simp
  then show ?thesis
    using length_leb128 [of 0 "unat v"] length_leb128 [of 1 "unat v"] length_leb128 [of 2 "unat v"]
      length_leb128 [of 3 "unat v"] length_leb128 [of 4 "unat v"] length_leb128 [of 5 "unat v"]
      length_leb128 [of 6 "unat v"] length_leb128 [of 7 "unat v"] length_leb128 [of 8 "unat v"]
      length_leb128 [of 9 "unat v"]
    unfolding VarintSize64_def lt by auto
qed

section \<open>The readers compute the reference\<close>

lemma byte_bit_7: "bit (x :: byte) 7 \<longleftrightarrow> \<not> x < 128"
proof -
  have "unat x < 256" using unsigned_less [of x, where 'a = nat] by simp
  then have "unat x div 128 = 0 \<or> unat x div 128 = 1" by linarith
  then have "odd (unat x div 2 ^ 7) \<longleftrightarrow> 128 \<le> unat x" by auto
  moreover have "bit x 7 \<longleftrightarrow> odd (unat x div 2 ^ 7)"
    by (simp only: bit_iff_odd [of "unat x", symmetric] bit_unsigned_iff) simp
  ultimately show ?thesis by (simp add: word_less_nat_alt not_less)
qed

lemma continuation:
  "(x :: byte) AND 0x80 = 0 \<longleftrightarrow> x < 128"
  "(ucast x :: 32 word) AND 0x80 = 0 \<longleftrightarrow> x < 128"
  using and_exp_eq_0_iff_not_bit [of x 7] and_exp_eq_0_iff_not_bit [of "ucast x :: 32 word" 7] byte_bit_7 [of x]
  by (simp_all add: bit_ucast_iff)

lemma ucast_and_7f: "(ucast (x :: byte) :: 'a::len word) AND 0x7F = of_nat (unat x mod 128)"
proof -
  have "(ucast x :: 'a word) AND 0x7F = take_bit 7 (of_nat (unat x))"
    by (simp add: take_bit_eq_mask mask_eq_exp_minus_1)
  also have "\<dots> = of_nat (unat x mod 128)"
    by (subst take_bit_of_nat) (simp add: take_bit_eq_mod)
  finally show ?thesis .
qed

lemma or_push_bit:
  assumes "a < 2 ^ k"
  shows "(of_nat a :: 'a::len word) OR push_bit k (of_nat x) = of_nat (a + 2 ^ k * x)"
proof -
  have "take_bit k a = a" using assms by (simp add: take_bit_nat_eq_self)
  then have "bit a i \<Longrightarrow> i < k" for i by (metis bit_take_bit_iff)
  then have "a + push_bit k x = a OR push_bit k x"
    by (intro disjunctive_add) (fastforce simp: bit_push_bit_iff)
  then have "of_nat (a + 2 ^ k * x) = (of_nat (a OR push_bit k x) :: 'a word)"
    by (simp add: push_bit_eq_mult mult.commute)
  then show ?thesis by (simp add: of_nat_or_eq push_bit_of_nat)
qed

lemma vval_bound: "vval n bs < 2 ^ (7 * n)"
proof (induction n bs rule: vval.induct)
  case (3 n b bs)
  have "unat b mod 128 + 128 * vval n bs < 128 * (vval n bs + 1)" by simp
  also have "\<dots> \<le> 128 * 2 ^ (7 * n)" using 3 by (intro mult_le_mono) auto
  finally show ?case by (simp add: power_add)
qed auto

lemma varint_lines_spec:
  "a < 2 ^ (7 * j) \<Longrightarrow> p \<le> length m \<Longrightarrow>
   varint_lines (map (\<lambda>i. 7 * i) [j..<j + n]) (of_nat a) m p =
     (case vlen (take n (drop p m)) of
        Some c \<Rightarrow> Some (True, of_nat (a + 2 ^ (7 * j) * vval c (drop p m)), p + c)
      | None \<Rightarrow> if p + n \<le> length m
                then Some (False, of_nat (a + 2 ^ (7 * j) * vval n (drop p m)), p + n) else None)"
proof (induction n arbitrary: j a p)
  case 0
  then show ?case by auto
next
  case (Suc n)
  have upt: "[j..<j + Suc n] = j # [Suc j..<Suc j + n]" by (simp add: upt_conv_Cons del: upt_Suc)
  show ?case
  proof (cases "p < length m")
    case False
    then have "varint_lines (map (\<lambda>i. 7 * i) [j..<j + Suc n]) (of_nat a) m p = None"
      unfolding upt by simp
    with False Suc.prems show ?thesis by simp
  next
    case True
    let ?x = "m ! p"
    let ?a = "a + 2 ^ (7 * j) * (unat ?x mod 128)"
    have dr: "drop p m = ?x # drop (Suc p) m" using True by (simp add: Cons_nth_drop_Suc)
    have r: "of_nat a OR push_bit (7 * j) (ucast ?x AND 0x7F) = (of_nat ?a :: 32 word)"
      by (simp only: ucast_and_7f or_push_bit [OF Suc.prems(1)])
    have "?a < 2 ^ (7 * j) * (1 + unat ?x mod 128)" using Suc.prems by simp
    also have "\<dots> \<le> 2 ^ (7 * j) * 128" by (intro mult_le_mono) (auto simp: Suc_le_eq)
    finally have a': "?a < 2 ^ (7 * Suc j)" by (simp add: power_add)
    have fold: "?a + 2 ^ (7 * Suc j) * v = a + 2 ^ (7 * j) * (unat ?x mod 128 + 128 * v)" for v
      by (simp add: power_add algebra_simps)
    have unf: "varint_lines (map (\<lambda>i. 7 * i) [j..<j + Suc n]) (of_nat a) m p =
        (if ?x < 128 then Some (True, of_nat ?a, p + 1)
         else varint_lines (map (\<lambda>i. 7 * i) [Suc j..<Suc j + n]) (of_nat ?a) m (p + 1))"
      unfolding upt list.map varint_lines.simps Let_def r continuation using True by (simp only: if_True)
    have le: "p + 1 \<le> length m" using True by simp
    show ?thesis
      unfolding unf Suc.IH [OF a' le] fold
      by (auto simp: dr split: option.splits simp del: of_nat_add)
  qed
qed

lemma varint_lines_start:
  "p \<le> length m \<Longrightarrow>
   varint_lines (map (\<lambda>i. 7 * i) [0..<n]) 0 m p =
     (case vlen (take n (drop p m)) of
        Some c \<Rightarrow> Some (True, of_nat (vval c (drop p m)), p + c)
      | None \<Rightarrow> if p + n \<le> length m then Some (False, of_nat (vval n (drop p m)), p + n) else None)"
  using varint_lines_spec [of 0 0 p m n] by (simp split: option.splits)

lemma vlen_take_Some: "vlen (take n bs) = Some c \<Longrightarrow> 0 < c \<and> c \<le> n \<and> c \<le> length bs"
  by (induction bs arbitrary: n c) (auto simp: take_Cons split: nat.splits if_splits)

lemma vlen_take_None: "vlen (take n bs) = None \<Longrightarrow> k \<le> n \<Longrightarrow> vlen (take k bs) = None"
proof (induction bs arbitrary: n k)
  case (Cons b bs)
  then show ?case by (cases n; cases k) (auto split: if_splits)
qed simp

lemma vlen_take_add:
  "vlen (take (a + b) bs) =
     (case vlen (take a bs) of Some c \<Rightarrow> Some c | None \<Rightarrow> map_option (\<lambda>c. c + a) (vlen (take b (drop a bs))))"
proof (induction a arbitrary: bs)
  case 0
  show ?case by (cases "vlen (take b bs)") simp_all
next
  case (Suc a)
  show ?case
  proof (cases bs)
    case (Cons x xs)
    then show ?thesis using Suc [of xs] by (auto simp: option.map_comp comp_def split: option.splits)
  qed simp
qed

lemma vval_add: "vval (a + c) bs = vval a bs + 2 ^ (7 * a) * vval c (drop a bs)"
proof (induction a arbitrary: bs)
  case (Suc a)
  show ?case
  proof (cases bs)
    case Nil
    then show ?thesis by (cases c) auto
  next
    case (Cons x xs)
    then show ?thesis by (simp add: Suc power_add)
  qed
qed simp

lemma vval_take: "c \<le> n \<Longrightarrow> vval c (take n bs) = vval c bs"
proof (induction c bs arbitrary: n rule: vval.induct)
  case (3 c b bs)
  then show ?case by (cases n) auto
qed auto

lemma varint_discard_spec:
  "p \<le> length m \<Longrightarrow>
   varint_discard n m p =
     (case vlen (take n (drop p m)) of
        Some c \<Rightarrow> Some (Some (p + c)) | None \<Rightarrow> if p + n \<le> length m then Some None else None)"
proof (induction n arbitrary: p)
  case (Suc n)
  show ?case
  proof (cases "p < length m")
    case True
    then have dr: "drop p m = m ! p # drop (Suc p) m" by (simp add: Cons_nth_drop_Suc)
    show ?thesis using True Suc.IH [of "Suc p"] by (auto simp: dr continuation split: option.splits)
  qed (use Suc.prems in auto)
qed simp

lemma high_groups:
  "(of_nat (a + 2 ^ 28 * x) :: 32 word) = of_nat (a + 2 ^ 28 * (x mod 128 + 128 * y))"
proof -
  have "2 ^ 28 * (128 * q + r) = 2 ^ 28 * r + 2 ^ 32 * (8 * q)" for q r :: nat by simp
  from this [of "x div 128" "x mod 128"]
  have "a + 2 ^ 28 * x = a + 2 ^ 28 * (x mod 128) + 2 ^ 32 * (8 * (x div 128))"
    unfolding mult_div_mod_eq by (simp only: add.assoc)
  then have "(a + 2 ^ 28 * x) mod 2 ^ 32 = (a + 2 ^ 28 * (x mod 128)) mod 2 ^ 32"
    by (simp only: mod_mult_self2)
  also have "\<dots> = (a + 2 ^ 28 * (x mod 128) + 2 ^ 32 * (8 * y)) mod 2 ^ 32"
    by (simp only: mod_mult_self2)
  also have "\<dots> = (a + 2 ^ 28 * (x mod 128 + 128 * y)) mod 2 ^ 32"
    by (simp add: algebra_simps)
  finally show ?thesis by (simp only: word_unat_eq_iff unat_of_nat) simp
qed

declare varint_lines.simps [simp del] varint_discard.simps [simp del]

lemma shifts4: "map (\<lambda>i. 7 * i) [0..<4] = [0, 7, 14, 21 :: nat]"
  and shifts2: "map (\<lambda>i. 7 * i) [0..<2] = [0, 7 :: nat]"
  by (simp_all add: upt_rec)

lemma ReadVarint32FromArray_spec:
  assumes p: "p \<le> length m"
  shows "ReadVarint32FromArray m p =
    (case vlen (take 10 (drop p m)) of
       Some c \<Rightarrow> Some (Some (of_nat (vval c (drop p m)), p + c))
     | None \<Rightarrow> if p + 10 \<le> length m then Some None else None)"
proof -
  have l4: "varint_lines [0, 7, 14, 21] 0 m p =
     (case vlen (take 4 (drop p m)) of
        Some c \<Rightarrow> Some (True, of_nat (vval c (drop p m)), p + c)
      | None \<Rightarrow> if p + 4 \<le> length m then Some (False, of_nat (vval 4 (drop p m)), p + 4) else None)"
    using varint_lines_start [OF p, of 4] unfolding shifts4 .
  have split: "vlen (take 10 (drop p m)) = (case vlen (take 4 (drop p m)) of Some c \<Rightarrow> Some c
      | None \<Rightarrow> map_option (\<lambda>c. c + 4) (vlen (take 6 (drop (p + 4) m))))"
    using vlen_take_add [of 4 6 "drop p m"] by (simp add: add.commute split: option.splits)
  show ?thesis
  proof (cases "vlen (take 4 (drop p m)) = None \<and> p + 4 < length m")
    case False
    then show ?thesis
      by (cases "vlen (take 4 (drop p m))") (auto simp: ReadVarint32FromArray_def l4 split)
  next
    case True
    let ?x = "m ! (p + 4)"
    have dr: "drop (p + 4) m = ?x # drop (p + 5) m"
      using True Cons_nth_drop_Suc [of "p + 4" m] by (simp add: add.commute)
    have t6: "vlen (take 6 (drop (p + 4) m)) =
        (if ?x < 128 then Some 1 else map_option Suc (vlen (take 5 (drop (p + 5) m))))"
      unfolding dr by simp
    have r: "of_nat (vval 4 (drop p m)) OR push_bit 28 (ucast ?x) =
        (of_nat (vval (4 + Suc c) (drop p m)) :: 32 word)" for c
    proof -
      have "of_nat (vval 4 (drop p m)) OR push_bit 28 (of_nat (unat ?x)) =
          (of_nat (vval 4 (drop p m) + 2 ^ 28 * unat ?x) :: 32 word)"
        using vval_bound [of 4 "drop p m"] by (intro or_push_bit) simp
      also have "\<dots> = of_nat (vval 4 (drop p m) + 2 ^ 28 * (unat ?x mod 128 + 128 * vval c (drop (p + 5) m)))"
        by (rule high_groups)
      also have "\<dots> = of_nat (vval (4 + Suc c) (drop p m))"
        unfolding vval_add by (simp add: dr add.commute [of 4])
      finally show ?thesis by simp
    qed
    have r5: "(of_nat (vval (c + 5) (drop p m)) :: 32 word) = of_nat (vval 5 (drop p m))" for c
      using r [of 0] r [of c] by (simp add: eval_nat_numeral)
    have "vval 5 (drop p m) = vval (4 + Suc 0) (drop p m)" by simp
    then show ?thesis
      using True varint_discard_spec [of "p + 5" m 5]
      by (auto simp: ReadVarint32FromArray_def l4 split t6 continuation r [of 0] r5 kMaxVarintBytes_def
          kMaxVarint32Bytes_def Let_def add.commute split: option.splits)
  qed
qed

lemma varint64_join_spec:
  assumes "a < 2 ^ 28" "b < 2 ^ 28" "c < 2 ^ 14"
  shows "varint64_join (of_nat a) (of_nat b) (of_nat c) = of_nat (a + 2 ^ 28 * (b + 2 ^ 28 * c))"
proof -
  have u: "ucast (of_nat k :: 32 word) = (of_nat k :: 64 word)" if "k < 2 ^ 32" for k
    using that by (simp add: unsigned_of_nat take_bit_nat_eq_self)
  have "varint64_join (of_nat a) (of_nat b) (of_nat c)
      = (of_nat a OR push_bit 28 (of_nat b)) OR push_bit 56 (of_nat c)"
    using assms by (simp add: varint64_join_def u or.assoc)
  also have "of_nat a OR push_bit 28 (of_nat b) = (of_nat (a + 2 ^ 28 * b) :: 64 word)"
    using assms(1) by (rule or_push_bit)
  also have "\<dots> OR push_bit 56 (of_nat c) = of_nat (a + 2 ^ 28 * b + 2 ^ 56 * c)"
    using assms by (intro or_push_bit) simp
  finally show ?thesis by (simp add: algebra_simps)
qed

lemma ReadVarint64FromArray_spec:
  assumes p: "p \<le> length m"
  shows "ReadVarint64FromArray m p =
    (case vlen (take 10 (drop p m)) of
       Some c \<Rightarrow> Some (Some (of_nat (vval c (drop p m)), p + c))
     | None \<Rightarrow> if p + 10 \<le> length m then Some None else None)"
proof -
  note l4 = varint_lines_start [where n = 4, unfolded shifts4]
  note l2 = varint_lines_start [where n = 2, unfolded shifts2]
  let ?d = "\<lambda>k. drop (p + k) m"
  have split: "vlen (take 10 (drop p m)) = (case vlen (take 4 (?d 0)) of Some c \<Rightarrow> Some c
      | None \<Rightarrow> (case vlen (take 4 (?d 4)) of Some c \<Rightarrow> Some (c + 4)
      | None \<Rightarrow> map_option (\<lambda>c. c + 8) (vlen (take 2 (?d 8)))))"
    using vlen_take_add [of 4 6 "drop p m"] vlen_take_add [of 4 2 "drop 4 (drop p m)"]
    by (auto simp: add.commute option.map_comp comp_def split: option.splits)
  have v: "vval (c + 4) (drop p m) = vval 4 (drop p m) + 2 ^ 28 * vval c (?d 4)"
    "vval (c + 8) (drop p m) = vval 4 (drop p m) + 2 ^ 28 * (vval 4 (?d 4) + 2 ^ 28 * vval c (?d 8))" for c
    using vval_add [of 4 c "drop p m"] vval_add [of 4 "4 + c" "drop p m"] vval_add [of 4 c "drop 4 (drop p m)"]
    by (simp_all add: add.commute add.left_commute)
  have b4: "vval c bs < 2 ^ 28" if "c \<le> 4" for c and bs :: "byte list"
    using vval_bound [of c bs] power_increasing [of "7 * c" 28 "2 :: nat"] that by (simp add: less_le_trans)
  have b2: "vval c bs < 2 ^ 14" if "c \<le> 2" for c and bs :: "byte list"
    using vval_bound [of c bs] power_increasing [of "7 * c" 14 "2 :: nat"] that by (simp add: less_le_trans)
  show ?thesis
  proof (cases "vlen (take 4 (drop p m))")
    case (Some c)
    then show ?thesis
      using varint64_join_spec [of "vval c (drop p m)" 0 0] b4 [of c] vlen_take_Some [OF Some]
      by (simp add: ReadVarint64FromArray_def l4 [OF p] split)
  next
    case n0: None
    show ?thesis
    proof (cases "p + 4 \<le> length m")
      case False
      with n0 have "vlen (drop p m) = None" by simp
      with False show ?thesis by (simp add: ReadVarint64FromArray_def l4 [OF p])
    next
      case p4: True
      show ?thesis
      proof (cases "vlen (take 4 (?d 4))")
        case (Some c)
        then show ?thesis
          using varint64_join_spec [of "vval 4 (drop p m)" "vval c (?d 4)" 0] b4 vlen_take_Some [OF Some] p4 n0
          by (simp add: ReadVarint64FromArray_def l4 [OF p] l4 [OF p4] split v del: of_nat_add)
      next
        case n1: None
        show ?thesis
        proof (cases "p + 8 \<le> length m")
          case False
          then have "vlen (take 10 (drop p m)) = None" using n0 n1 unfolding split by simp
          then show ?thesis
            using False p4 n0 n1
            by (simp add: ReadVarint64FromArray_def l4 [OF p] l4 [OF p4])
        next
          case p8: True
          then show ?thesis
            using varint64_join_spec [of "vval 4 (drop p m)" "vval 4 (?d 4)"] b4 b2 p4 n0 n1
              vlen_take_Some [of 2 "?d 8"]
            by (auto simp: ReadVarint64FromArray_def l4 [OF p] l4 [OF p4] l2 [OF p8] split v add.commute [of 8 p]
                simp del: of_nat_add split: option.splits)
        qed
      qed
    qed
  qed
qed

section \<open>Properties\<close>

lemma leb128_length_bound:
  assumes "n < 2 ^ 64"
  shows "length (leb128 n) \<le> 10"
proof -
  have "length (leb128 n) = VarintSize64 (of_nat n)"
    using assms by (simp add: VarintSize64_leb128 unat_of_nat)
  then show ?thesis by (simp add: VarintSize64_def)
qed

lemma read_leb128:
  assumes "n < 2 ^ 64"
  shows "vlen (take 10 (leb128 n @ bs)) = Some (length (leb128 n))"
    and "vval (length (leb128 n)) (leb128 n @ bs) = n"
proof -
  have "take 10 (leb128 n @ bs) = leb128 n @ take (10 - length (leb128 n)) bs"
    using leb128_length_bound [OF assms] by simp
  then show "vlen (take 10 (leb128 n @ bs)) = Some (length (leb128 n))" by (simp add: vlen_leb128)
  show "vval (length (leb128 n)) (leb128 n @ bs) = n" by (rule vval_leb128)
qed

text \<open>The bytes of a sign-extended \<open>int32\<close> read back, truncated to 32 bits, as the \<open>int32\<close>.\<close>

lemma sign_extended_leb128:
  "\<exists>n. WriteVarint32SignExtendedToArray v = leb128 n \<and> n < 2 ^ 64 \<and> (of_nat n :: 32 word) = v"
proof (cases "sint v < 0")
  case True
  let ?w = "word_of_int (sint v) :: 64 word"
  have "(of_nat (unat ?w) :: 32 word) = ucast ?w" by simp
  also have "\<dots> = v"
  proof (rule bit_word_eqI)
    fix i assume "i < LENGTH(32)"
    then have "i < 31 \<or> i = 31" by auto
    then show "bit (ucast ?w :: 32 word) i = bit v i"
      by (auto simp: bit_ucast_iff bit_signed_iff min_def)
  qed
  finally show ?thesis
    using True unsigned_less [of ?w, where 'a = nat]
    by (intro exI [of _ "unat ?w"])
      (simp add: WriteVarint32SignExtendedToArray_def WriteVarint64ToArray_leb128)
next
  case False
  then show ?thesis
    using unsigned_less [of v, where 'a = nat]
    by (intro exI [of _ "unat v"])
      (simp add: WriteVarint32SignExtendedToArray_def WriteVarint32ToArray_leb128)
qed

lemma length_sign_extended: "length (WriteVarint32SignExtendedToArray v) = VarintSize32SignExtended v"
proof (cases "sint v < 0")
  case True
  let ?w = "word_of_int (sint v) :: 64 word"
  have "uint ?w = sint v mod 2 ^ 64" by (simp only: uint_word_of_int) simp
  also have "\<dots> = sint v + 2 ^ 64"
    using True sint_greater_eq [of v] by (subst mod_add_self2 [symmetric], intro mod_pos_pos_trivial) simp_all
  finally have "2 ^ 63 \<le> uint ?w" using sint_greater_eq [of v] by simp
  then have "\<not> ?w < 2 ^ 63" "\<not> ?w < 2 ^ 35" "\<not> ?w < 2 ^ 42" "\<not> ?w < 2 ^ 49" "\<not> ?w < 2 ^ 56"
    by (simp_all add: word_less_def)
  then have "VarintSize64 ?w = 10" by (simp add: VarintSize64_def)
  with True show ?thesis
    by (simp add: WriteVarint32SignExtendedToArray_def VarintSize32SignExtended_def
        WriteVarint64ToArray_leb128 VarintSize64_leb128)
next
  case False
  then show ?thesis
    by (simp add: WriteVarint32SignExtendedToArray_def VarintSize32SignExtended_def
        WriteVarint32ToArray_leb128 VarintSize32_leb128)
qed

text \<open>
  C17 (equivalence). The unrolled varint writers, in 32 bits, in three 32-bit parts of a 64-bit
  value with the size found by a hard-coded search tree, and the two-byte shortcut for tags, all
  store exactly the bytes that the plain loop of the slow path composes, and the size functions
  give their number.
\<close>

theorem varint_writers_agree:
  "WriteVarint32ToArray v = varint_loop v \<and> WriteTagToArray v = varint_loop v
   \<and> WriteVarint64ToArray w = varint_loop w
   \<and> length (WriteVarint32ToArray v) = VarintSize32 v \<and> length (WriteVarint64ToArray w) = VarintSize64 w
   \<and> length (WriteVarint32SignExtendedToArray v) = VarintSize32SignExtended v"
  by (simp add: WriteVarint32ToArray_leb128 WriteTagToArray_leb128 WriteVarint64ToArray_leb128
      varint_loop_leb128 VarintSize32_leb128 VarintSize64_leb128 length_sign_extended)

text \<open>
  C19 (round trip). Wherever a varint stands in an array, the readers, unrolled with the value
  assembled by shifts, return the value that was written and the pointer behind it; a negative
  \<open>int32\<close>, written sign-extended in ten bytes, comes back from the 32-bit reader.
\<close>

theorem varint_roundtrip:
  "ReadVarint32FromArray (pre @ WriteVarint32ToArray v @ post) (length pre)
     = Some (Some (v, length pre + VarintSize32 v))
   \<and> ReadVarint64FromArray (pre @ WriteVarint64ToArray w @ post) (length pre)
     = Some (Some (w, length pre + VarintSize64 w))
   \<and> ReadVarint32FromArray (pre @ WriteVarint32SignExtendedToArray v @ post) (length pre)
     = Some (Some (v, length pre + VarintSize32SignExtended v))"
proof -
  have v: "unat v < 2 ^ 64" "unat w < 2 ^ 64"
    using unsigned_less [of v, where 'a = nat] unsigned_less [of w, where 'a = nat] by simp_all
  obtain n where n: "WriteVarint32SignExtendedToArray v = leb128 n" "n < 2 ^ 64" "(of_nat n :: 32 word) = v"
    using sign_extended_leb128 by blast
  have "VarintSize32SignExtended v = length (leb128 n)"
    using length_sign_extended [of v] n(1) by simp
  then show ?thesis
    using n read_leb128 [OF v(1)] read_leb128 [OF v(2)] read_leb128 [OF n(2)]
    by (simp add: ReadVarint32FromArray_spec ReadVarint64FromArray_spec WriteVarint32ToArray_leb128
        WriteVarint64ToArray_leb128 VarintSize32_leb128 VarintSize64_leb128)
qed

end
