(* ===== verification/Proto_CodedStream.thy ===== *)
theory Proto_CodedStream
  imports Proto_Varint
begin

text \<open>
  The coded input stream (class \<open>CodedInputStream\<close> of io/coded_stream.h, io/coded_stream_inl.h and
  io/coded_stream.cc under include/google/protobuf). The buffer is the current block with the two
  pointers into it; \<open>cis_input\<close> is the underlying stream, the blocks it still has to return, and
  \<open>None\<close> for the null pointer of a stream over an array. An operation returns \<open>None\<close> where the code
  would read outside the buffer or go through the null pointer; inside, a read that fails returns
  the value \<open>None\<close>.

  The specification is stated for streams over an array, the only ones the messages of this program
  are parsed from: what is read is a function of the bytes up to the limit.
\<close>

definition INT_MAX :: int where "INT_MAX = 2 ^ 31 - 1"
definition kDefaultTotalBytesLimit :: int where "kDefaultTotalBytesLimit = 64 * 2 ^ 20"
definition kDefaultTotalBytesWarningThreshold :: int where
  "kDefaultTotalBytesWarningThreshold = 32 * 2 ^ 20"
definition default_recursion_limit :: int where "default_recursion_limit = 100"

record CodedInputStream =
  cis_data :: block
  cis_buffer :: nat
  cis_buffer_end :: nat
  cis_input :: "block list option"
  total_bytes_read :: int
  overflow_bytes :: int
  last_tag :: "32 word"
  legitimate_message_end :: bool
  current_limit :: int
  buffer_size_after_limit :: int
  total_bytes_limit :: int
  total_bytes_warning_threshold :: int
  recursion_depth :: int
  recursion_limit :: int

text \<open>The constructor over an array of \<open>size\<close> bytes.\<close>

definition CodedInputStream_array :: "block \<Rightarrow> CodedInputStream" where
  "CodedInputStream_array buffer =
     \<lparr>cis_data = buffer, cis_buffer = 0, cis_buffer_end = length buffer, cis_input = None,
      total_bytes_read = int (length buffer), overflow_bytes = 0, last_tag = 0,
      legitimate_message_end = False, current_limit = int (length buffer),
      buffer_size_after_limit = 0, total_bytes_limit = kDefaultTotalBytesLimit,
      total_bytes_warning_threshold = kDefaultTotalBytesWarningThreshold,
      recursion_depth = 0, recursion_limit = default_recursion_limit\<rparr>"

definition BufferSize :: "CodedInputStream \<Rightarrow> nat" where
  "BufferSize s = cis_buffer_end s - cis_buffer s"

definition Advance :: "nat \<Rightarrow> CodedInputStream \<Rightarrow> CodedInputStream" where
  "Advance amount s = s\<lparr>cis_buffer := cis_buffer s + amount\<rparr>"

definition CurrentPosition :: "CodedInputStream \<Rightarrow> int" where
  "CurrentPosition s = total_bytes_read s - (int (BufferSize s) + buffer_size_after_limit s)"

definition SetRecursionLimit :: "int \<Rightarrow> CodedInputStream \<Rightarrow> CodedInputStream" where
  "SetRecursionLimit limit s = s\<lparr>recursion_limit := limit\<rparr>"

definition IncrementRecursionDepth :: "CodedInputStream \<Rightarrow> bool \<times> CodedInputStream" where
  "IncrementRecursionDepth s =
     (let s1 = s\<lparr>recursion_depth := recursion_depth s + 1\<rparr> in
      (recursion_depth s1 \<le> recursion_limit s1, s1))"

definition DecrementRecursionDepth :: "CodedInputStream \<Rightarrow> CodedInputStream" where
  "DecrementRecursionDepth s =
     (if recursion_depth s > 0 then s\<lparr>recursion_depth := recursion_depth s - 1\<rparr> else s)"

definition LastTagWas :: "32 word \<Rightarrow> CodedInputStream \<Rightarrow> bool" where
  "LastTagWas expected s \<longleftrightarrow> last_tag s = expected"

definition ConsumedEntireMessage :: "CodedInputStream \<Rightarrow> bool" where
  "ConsumedEntireMessage s \<longleftrightarrow> legitimate_message_end s"

section \<open>Limits and the underlying stream\<close>

definition RecomputeBufferLimits :: "CodedInputStream \<Rightarrow> CodedInputStream" where
  "RecomputeBufferLimits s =
     (let be = int (cis_buffer_end s) + buffer_size_after_limit s;
          closest_limit = min (current_limit s) (total_bytes_limit s) in
      if closest_limit < total_bytes_read s then
        s\<lparr>buffer_size_after_limit := total_bytes_read s - closest_limit,
          cis_buffer_end := nat (be - (total_bytes_read s - closest_limit))\<rparr>
      else s\<lparr>buffer_size_after_limit := 0, cis_buffer_end := nat be\<rparr>)"

definition PushLimit :: "int \<Rightarrow> CodedInputStream \<Rightarrow> int \<times> CodedInputStream" where
  "PushLimit byte_limit s =
     (let current_position = CurrentPosition s;
          old_limit = current_limit s;
          limit = (if byte_limit \<ge> 0 \<and> byte_limit \<le> INT_MAX - current_position
                   then current_position + byte_limit else INT_MAX)
      in (old_limit, RecomputeBufferLimits (s\<lparr>current_limit := min limit old_limit\<rparr>)))"

definition PopLimit :: "int \<Rightarrow> CodedInputStream \<Rightarrow> CodedInputStream" where
  "PopLimit limit s =
     (RecomputeBufferLimits (s\<lparr>current_limit := limit\<rparr>))\<lparr>legitimate_message_end := False\<rparr>"

definition BytesUntilLimit :: "CodedInputStream \<Rightarrow> int" where
  "BytesUntilLimit s =
     (if current_limit s = INT_MAX then - 1 else current_limit s - CurrentPosition s)"

definition SetTotalBytesLimit :: "int \<Rightarrow> int \<Rightarrow> CodedInputStream \<Rightarrow> CodedInputStream" where
  "SetTotalBytesLimit limit warning_threshold s =
     RecomputeBufferLimits
       (s\<lparr>total_bytes_limit := max (CurrentPosition s) limit,
          total_bytes_warning_threshold := (if warning_threshold \<ge> 0 then warning_threshold else - 1)\<rparr>)"

text \<open>\<open>NextNonEmpty\<close>: the next block with bytes, and the blocks behind it.\<close>

fun NextNonEmpty :: "block list \<Rightarrow> (block \<times> block list) option" where
  "NextNonEmpty [] = None"
| "NextNonEmpty (b # bs) = (if b = [] then NextNonEmpty bs else Some (b, bs))"

definition Refresh :: "CodedInputStream \<Rightarrow> (bool \<times> CodedInputStream) option" where
  "Refresh s =
     (if buffer_size_after_limit s > 0 \<or> overflow_bytes s > 0 \<or> total_bytes_read s = current_limit s
      then Some (False, s)
      else
        (let s1 = (if total_bytes_warning_threshold s \<ge> 0
                      \<and> total_bytes_read s \<ge> total_bytes_warning_threshold s
                   then s\<lparr>total_bytes_warning_threshold := - 2\<rparr> else s) in
         case cis_input s1 of
           None \<Rightarrow> None
         | Some blocks \<Rightarrow>
             (case NextNonEmpty blocks of
                None \<Rightarrow> Some (False, s1\<lparr>cis_data := [], cis_buffer := 0, cis_buffer_end := 0,
                                       cis_input := Some []\<rparr>)
              | Some (b, rest) \<Rightarrow>
                  (let sz = int (length b);
                       s2 = s1\<lparr>cis_data := b, cis_buffer := 0, cis_buffer_end := length b,
                               cis_input := Some rest\<rparr>;
                       s3 = (if total_bytes_read s2 \<le> INT_MAX - sz
                             then s2\<lparr>total_bytes_read := total_bytes_read s2 + sz\<rparr>
                             else
                               (let over = total_bytes_read s2 - (INT_MAX - sz) in
                                s2\<lparr>overflow_bytes := over,
                                   cis_buffer_end := nat (int (cis_buffer_end s2) - over),
                                   total_bytes_read := INT_MAX\<rparr>))
                   in Some (True, RecomputeBufferLimits s3)))))"

text \<open>\<open>Skip\<close> of the underlying stream: whether enough bytes were there, and the blocks left.\<close>

fun skip_blocks :: "nat \<Rightarrow> block list \<Rightarrow> bool \<times> block list" where
  "skip_blocks n [] = (n = 0, [])"
| "skip_blocks n (b # bs) =
     (if n < length b then (True, drop n b # bs) else skip_blocks (n - length b) bs)"

definition Skip :: "int \<Rightarrow> CodedInputStream \<Rightarrow> (bool \<times> CodedInputStream) option" where
  "Skip count s =
     (if count < 0 then Some (False, s)
      else if nat count \<le> BufferSize s then Some (True, Advance (nat count) s)
      else if buffer_size_after_limit s > 0 then Some (False, Advance (BufferSize s) s)
      else
        (let count = count - int (BufferSize s);
             s1 = s\<lparr>cis_data := [], cis_buffer := 0, cis_buffer_end := 0\<rparr>;
             closest_limit = min (current_limit s1) (total_bytes_limit s1);
             bytes_until_limit = closest_limit - total_bytes_read s1
         in
         if bytes_until_limit < count then
           (if bytes_until_limit > 0 then
              (case cis_input s1 of
                 None \<Rightarrow> None
               | Some blocks \<Rightarrow>
                   Some (False, s1\<lparr>total_bytes_read := closest_limit,
                                  cis_input := Some (snd (skip_blocks (nat bytes_until_limit) blocks))\<rparr>))
            else Some (False, s1))
         else
           (case cis_input s1 of
              None \<Rightarrow> None
            | Some blocks \<Rightarrow>
                (let (ok, rest) = skip_blocks (nat count) blocks in
                 Some (ok, s1\<lparr>total_bytes_read := total_bytes_read s1 + count, cis_input := Some rest\<rparr>)))))"

section \<open>Raw bytes and strings\<close>

text \<open>
  The loop of \<open>ReadRaw\<close> and of \<open>ReadStringFallback\<close>: copy what the buffer has, refresh, go on.
  The fuel is the number of refreshes; each one takes a block off the underlying stream. A read that
  fails leaves what it has copied in the destination.
\<close>

fun read_bytes :: "nat \<Rightarrow> nat \<Rightarrow> block \<Rightarrow> CodedInputStream \<Rightarrow> ((bool \<times> block) \<times> CodedInputStream) option" where
  "read_bytes fuel n acc s =
     (if BufferSize s < n then
        (case fuel of
           0 \<Rightarrow> None
         | Suc fuel' \<Rightarrow> do {
             bs \<leftarrow> mem_read (cis_data s) (cis_buffer s) (BufferSize s);
             (ok, s1) \<leftarrow> Refresh (Advance (BufferSize s) s);
             if ok then read_bytes fuel' (n - BufferSize s) (acc @ bs) s1 else Some ((False, acc @ bs), s1)
           })
      else do {
        bs \<leftarrow> mem_read (cis_data s) (cis_buffer s) n;
        Some ((True, acc @ bs), Advance n s)
      })"

declare read_bytes.simps [simp del]

definition blocks_left :: "CodedInputStream \<Rightarrow> nat" where
  "blocks_left s = (case cis_input s of None \<Rightarrow> 0 | Some bs \<Rightarrow> length bs)"

definition ReadRaw :: "nat \<Rightarrow> CodedInputStream \<Rightarrow> ((bool \<times> block) \<times> CodedInputStream) option" where
  "ReadRaw sz s = read_bytes (Suc (Suc (blocks_left s))) sz [] s"

definition ReadStringFallback :: "nat \<Rightarrow> CodedInputStream \<Rightarrow> ((bool \<times> block) \<times> CodedInputStream) option" where
  "ReadStringFallback sz s = read_bytes (Suc (Suc (blocks_left s))) sz [] s"

text \<open>A string is read into the string \<open>str\<close>, which a negative size leaves as it is.\<close>

definition InternalReadStringInline ::
    "int \<Rightarrow> block \<Rightarrow> CodedInputStream \<Rightarrow> ((bool \<times> block) \<times> CodedInputStream) option" where
  "InternalReadStringInline sz str s =
     (if sz < 0 then Some ((False, str), s)
      else if int (BufferSize s) \<ge> sz then
        (if sz > 0 then do {
           bs \<leftarrow> mem_read (cis_data s) (cis_buffer s) (nat sz);
           Some ((True, bs), Advance (nat sz) s)
         } else Some ((True, []), s))
      else ReadStringFallback (nat sz) s)"

definition ReadString :: "int \<Rightarrow> block \<Rightarrow> CodedInputStream \<Rightarrow> ((bool \<times> block) \<times> CodedInputStream) option" where
  "ReadString sz str s = (if sz < 0 then Some ((False, str), s) else InternalReadStringInline sz str s)"

section \<open>Fixed-width integers\<close>

definition ReadLittleEndian32Fallback :: "CodedInputStream \<Rightarrow> (32 word option \<times> CodedInputStream) option" where
  "ReadLittleEndian32Fallback s =
     (if BufferSize s \<ge> 4 then do {
        bs \<leftarrow> mem_read (cis_data s) (cis_buffer s) 4;
        Some (Some (of_le32 bs), Advance 4 s)
      } else do {
        ((ok, bs), s1) \<leftarrow> ReadRaw 4 s;
        Some (if ok then Some (of_le32 bs) else None, s1)
      })"

definition ReadLittleEndian32 :: "CodedInputStream \<Rightarrow> (32 word option \<times> CodedInputStream) option" where
  "ReadLittleEndian32 s =
     (if BufferSize s \<ge> 4 then do {
        bs \<leftarrow> mem_read (cis_data s) (cis_buffer s) 4;
        Some (Some (of_le32 bs), Advance 4 s)
      } else ReadLittleEndian32Fallback s)"

definition ReadLittleEndian64Fallback :: "CodedInputStream \<Rightarrow> (64 word option \<times> CodedInputStream) option" where
  "ReadLittleEndian64Fallback s =
     (if BufferSize s \<ge> 8 then do {
        bs \<leftarrow> mem_read (cis_data s) (cis_buffer s) 8;
        Some (Some (of_le64 bs), Advance 8 s)
      } else do {
        ((ok, bs), s1) \<leftarrow> ReadRaw 8 s;
        Some (if ok then Some (of_le64 bs) else None, s1)
      })"

definition ReadLittleEndian64 :: "CodedInputStream \<Rightarrow> (64 word option \<times> CodedInputStream) option" where
  "ReadLittleEndian64 s =
     (if BufferSize s \<ge> 8 then do {
        bs \<leftarrow> mem_read (cis_data s) (cis_buffer s) 8;
        Some (Some (of_le64 bs), Advance 8 s)
      } else ReadLittleEndian64Fallback s)"

section \<open>Varints and tags\<close>

definition buffer_byte :: "nat \<Rightarrow> CodedInputStream \<Rightarrow> byte option" where
  "buffer_byte i s =
     (if cis_buffer s + i < length (cis_data s) then Some (cis_data s ! (cis_buffer s + i)) else None)"

text \<open>\<open>buffer_end_[-1]\<close>\<close>

definition last_byte :: "CodedInputStream \<Rightarrow> byte option" where
  "last_byte s =
     (if 0 < cis_buffer_end s \<and> cis_buffer_end s \<le> length (cis_data s)
      then Some (cis_data s ! (cis_buffer_end s - 1)) else None)"

text \<open>The condition of the fast paths.\<close>

definition varint_fits :: "CodedInputStream \<Rightarrow> bool option" where
  "varint_fits s =
     (if BufferSize s \<ge> kMaxVarintBytes then Some True
      else if cis_buffer_end s > cis_buffer s then map_option (\<lambda>b. b AND 0x80 = 0) (last_byte s)
      else Some False)"

text \<open>\<open>while (buffer_ == buffer_end_) if (!Refresh()) return false;\<close>\<close>

fun refill :: "nat \<Rightarrow> CodedInputStream \<Rightarrow> (bool \<times> CodedInputStream) option" where
  "refill fuel s =
     (if cis_buffer s = cis_buffer_end s then
        (case fuel of
           0 \<Rightarrow> None
         | Suc fuel' \<Rightarrow> do {
             (ok, s1) \<leftarrow> Refresh s;
             if ok then refill fuel' s1 else Some (False, s1)
           })
      else Some (True, s))"

declare refill.simps [simp del]

text \<open>The loop of \<open>ReadVarint64Slow\<close>, with \<open>n\<close> the bytes it may still read.\<close>

fun varint64_slow :: "nat \<Rightarrow> 64 word \<Rightarrow> CodedInputStream \<Rightarrow> (64 word option \<times> CodedInputStream) option" where
  "varint64_slow 0 result s = Some (None, s)"
| "varint64_slow (Suc n) result s = do {
     (ok, s1) \<leftarrow> refill (Suc (Suc (blocks_left s))) s;
     if \<not> ok then Some (None, s1)
     else do {
       b \<leftarrow> buffer_byte 0 s1;
       let result = result OR push_bit (7 * (kMaxVarintBytes - Suc n)) (ucast b AND 0x7F);
       let s2 = Advance 1 s1;
       if b AND 0x80 \<noteq> 0 then varint64_slow n result s2 else Some (Some result, s2)
     }
   }"

definition ReadVarint64Slow :: "CodedInputStream \<Rightarrow> (64 word option \<times> CodedInputStream) option" where
  "ReadVarint64Slow s = varint64_slow kMaxVarintBytes 0 s"

definition ReadVarint64Fallback :: "CodedInputStream \<Rightarrow> (64 word option \<times> CodedInputStream) option" where
  "ReadVarint64Fallback s = do {
     fits \<leftarrow> varint_fits s;
     if fits then do {
       r \<leftarrow> ReadVarint64FromArray (cis_data s) (cis_buffer s);
       Some (case r of None \<Rightarrow> (None, s) | Some (v, ptr) \<Rightarrow> (Some v, s\<lparr>cis_buffer := ptr\<rparr>))
     } else ReadVarint64Slow s
   }"

definition ReadVarint64 :: "CodedInputStream \<Rightarrow> (64 word option \<times> CodedInputStream) option" where
  "ReadVarint64 s =
     (case (if cis_buffer s < cis_buffer_end s then buffer_byte 0 s else Some 0x80) of
        None \<Rightarrow> None
      | Some b \<Rightarrow> if b < 0x80 then Some (Some (ucast b), Advance 1 s) else ReadVarint64Fallback s)"

definition ReadVarint32Slow :: "CodedInputStream \<Rightarrow> (32 word option \<times> CodedInputStream) option" where
  "ReadVarint32Slow s = map_option (\<lambda>(r, s1). (map_option ucast r, s1)) (ReadVarint64Fallback s)"

definition ReadVarint32Fallback :: "CodedInputStream \<Rightarrow> (32 word option \<times> CodedInputStream) option" where
  "ReadVarint32Fallback s = do {
     fits \<leftarrow> varint_fits s;
     if fits then do {
       r \<leftarrow> ReadVarint32FromArray (cis_data s) (cis_buffer s);
       Some (case r of None \<Rightarrow> (None, s) | Some (v, ptr) \<Rightarrow> (Some v, s\<lparr>cis_buffer := ptr\<rparr>))
     } else ReadVarint32Slow s
   }"

definition ReadVarint32 :: "CodedInputStream \<Rightarrow> (32 word option \<times> CodedInputStream) option" where
  "ReadVarint32 s =
     (case (if cis_buffer s < cis_buffer_end s then buffer_byte 0 s else Some 0x80) of
        None \<Rightarrow> None
      | Some b \<Rightarrow> if b < 0x80 then Some (Some (ucast b), Advance 1 s) else ReadVarint32Fallback s)"

definition ReadTagSlow :: "CodedInputStream \<Rightarrow> (32 word \<times> CodedInputStream) option" where
  "ReadTagSlow s = do {
     (ok, s1) \<leftarrow> (if cis_buffer s = cis_buffer_end s then Refresh s else Some (True, s));
     if \<not> ok then
       (let current_position = total_bytes_read s1 - buffer_size_after_limit s1 in
        Some (0, s1\<lparr>legitimate_message_end :=
                      (if current_position \<ge> total_bytes_limit s1
                       then current_limit s1 = total_bytes_limit s1 else True)\<rparr>))
     else do {
       (r, s2) \<leftarrow> ReadVarint64 s1;
       Some (case r of None \<Rightarrow> 0 | Some v \<Rightarrow> ucast v, s2)
     }
   }"

definition ReadTagFallback :: "CodedInputStream \<Rightarrow> (32 word \<times> CodedInputStream) option" where
  "ReadTagFallback s = do {
     fits \<leftarrow> varint_fits s;
     if fits then do {
       r \<leftarrow> ReadVarint32FromArray (cis_data s) (cis_buffer s);
       Some (case r of None \<Rightarrow> (0, s) | Some (tag, ptr) \<Rightarrow> (tag, s\<lparr>cis_buffer := ptr\<rparr>))
     } else if BufferSize s = 0
         \<and> (buffer_size_after_limit s > 0 \<or> total_bytes_read s = current_limit s)
         \<and> total_bytes_read s - buffer_size_after_limit s < total_bytes_limit s
     then Some (0, s\<lparr>legitimate_message_end := True\<rparr>)
     else ReadTagSlow s
   }"

definition ReadTag :: "CodedInputStream \<Rightarrow> (32 word \<times> CodedInputStream) option" where
  "ReadTag s =
     (case (if cis_buffer s < cis_buffer_end s then buffer_byte 0 s else Some 0x80) of
        None \<Rightarrow> None
      | Some b \<Rightarrow>
          if b < 0x80 then Some (ucast b, Advance 1 (s\<lparr>last_tag := ucast b\<rparr>))
          else map_option (\<lambda>(tag, s1). (tag, s1\<lparr>last_tag := tag\<rparr>)) (ReadTagFallback s))"

definition ExpectTag :: "32 word \<Rightarrow> CodedInputStream \<Rightarrow> (bool \<times> CodedInputStream) option" where
  "ExpectTag expected s =
     (if expected < 2 ^ 7 then
        (if cis_buffer s < cis_buffer_end s then do {
           b \<leftarrow> buffer_byte 0 s;
           Some (if ucast b = expected then (True, Advance 1 s) else (False, s))
         } else Some (False, s))
      else if expected < 2 ^ 14 then
        (if BufferSize s \<ge> 2 then do {
           b0 \<leftarrow> buffer_byte 0 s;
           b1 \<leftarrow> buffer_byte 1 s;
           Some (if b0 = ucast (expected OR 0x80) \<and> b1 = ucast (drop_bit 7 expected)
                 then (True, Advance 2 s) else (False, s))
         } else Some (False, s))
      else Some (False, s))"

definition ExpectAtEnd :: "CodedInputStream \<Rightarrow> bool \<times> CodedInputStream" where
  "ExpectAtEnd s =
     (if cis_buffer s = cis_buffer_end s
        \<and> (buffer_size_after_limit s \<noteq> 0 \<or> total_bytes_read s = current_limit s)
      then (True, s\<lparr>last_tag := 0, legitimate_message_end := True\<rparr>)
      else (False, s))"

section \<open>Streams over an array\<close>

text \<open>
  The invariant of a stream over an array: the pointers are in order, the whole array counts as
  read, and there is a limit at the end of the buffer, which is what keeps \<open>Refresh\<close> from using
  the null stream.
\<close>

definition flat :: "CodedInputStream \<Rightarrow> bool" where
  "flat s \<longleftrightarrow> cis_input s = None \<and> cis_buffer s \<le> cis_buffer_end s \<and> overflow_bytes s = 0
     \<and> int (cis_buffer_end s) + buffer_size_after_limit s = int (length (cis_data s))
     \<and> 0 \<le> buffer_size_after_limit s \<and> total_bytes_read s = int (length (cis_data s))
     \<and> (0 < buffer_size_after_limit s \<or> total_bytes_read s = current_limit s)"

text \<open>The bytes that can still be read.\<close>

definition rest :: "CodedInputStream \<Rightarrow> byte list" where
  "rest s = take (BufferSize s) (drop (cis_buffer s) (cis_data s))"

lemma flat_array: "flat (CodedInputStream_array bs)" "rest (CodedInputStream_array bs) = bs"
  by (simp_all add: flat_def CodedInputStream_array_def rest_def BufferSize_def)

lemma flat_end: "flat s \<Longrightarrow> cis_buffer_end s \<le> length (cis_data s)"
  by (auto simp: flat_def)

lemma length_rest: "flat s \<Longrightarrow> length (rest s) = BufferSize s"
  using flat_end [of s] by (simp add: rest_def BufferSize_def)

lemma flat_update [simp]:
  "flat (s\<lparr>last_tag := t\<rparr>) = flat s" "flat (s\<lparr>legitimate_message_end := b\<rparr>) = flat s"
  "flat (s\<lparr>recursion_depth := d\<rparr>) = flat s"
  by (simp_all add: flat_def)

lemma rest_update [simp]:
  "rest (s\<lparr>last_tag := t\<rparr>) = rest s" "rest (s\<lparr>legitimate_message_end := b\<rparr>) = rest s"
  "rest (s\<lparr>recursion_depth := d\<rparr>) = rest s"
  by (simp_all add: rest_def BufferSize_def)

lemma flat_Advance: "flat s \<Longrightarrow> n \<le> length (rest s) \<Longrightarrow> flat (Advance n s) \<and> rest (Advance n s) = drop n (rest s)"
  using flat_end [of s] by (auto simp: flat_def Advance_def rest_def BufferSize_def drop_take add.commute)

lemma flat_Refresh: "flat s \<Longrightarrow> Refresh s = Some (False, s)"
  by (auto simp: flat_def Refresh_def)

lemma flat_buffer_byte: "flat s \<Longrightarrow> i < length (rest s) \<Longrightarrow> buffer_byte i s = Some (rest s ! i)"
  using flat_end [of s] by (auto simp: buffer_byte_def rest_def BufferSize_def)

lemma flat_mem_read:
  assumes "flat s" "n \<le> length (rest s)"
  shows "mem_read (cis_data s) (cis_buffer s) n = Some (take n (rest s))"
proof -
  have "n \<le> cis_buffer_end s - cis_buffer s" "cis_buffer s \<le> cis_buffer_end s"
      "cis_buffer_end s \<le> length (cis_data s)"
    using assms length_rest [OF assms(1)] flat_end [OF assms(1)] by (simp_all add: BufferSize_def flat_def)
  then show ?thesis by (simp add: mem_read_def rest_def BufferSize_def min_def)
qed

lemma Advance_0 [simp]: "Advance 0 s = s"
  by (simp add: Advance_def)

lemma Advance_Advance: "Advance a (Advance b s) = Advance (b + a) s"
  by (simp add: Advance_def add.assoc)

lemma flat_empty: "flat s \<Longrightarrow> cis_buffer s = cis_buffer_end s \<longleftrightarrow> rest s = []"
  using length_rest [of s] by (auto simp: BufferSize_def flat_def simp flip: length_0_conv)

lemma flat_nonempty: "flat s \<Longrightarrow> cis_buffer s < cis_buffer_end s \<longleftrightarrow> rest s \<noteq> []"
  using flat_empty [of s] by (auto simp: flat_def)

section \<open>Reading from an array\<close>

lemma flat_refill:
  "flat s \<Longrightarrow> refill (Suc n) s = Some (rest s \<noteq> [], s)"
  by (auto simp: refill.simps [of "Suc n"] flat_empty flat_Refresh)

lemma varint64_slow_spec:
  "flat s \<Longrightarrow> n \<le> 10 \<Longrightarrow> a < 2 ^ (7 * (10 - n)) \<Longrightarrow>
   varint64_slow n (of_nat a) s =
     Some (case vlen (take n (rest s)) of
       Some c \<Rightarrow> (Some (of_nat (a + 2 ^ (7 * (10 - n)) * vval c (rest s))), Advance c s)
     | None \<Rightarrow> (None, Advance (min n (length (rest s))) s))"
proof (induction n arbitrary: s a)
  case (Suc n)
  show ?case
  proof (cases "rest s")
    case Nil
    then show ?thesis using Suc.prems by (simp add: flat_refill)
  next
    case (Cons b bs)
    let ?k = "10 - Suc n"
    let ?a = "a + 2 ^ (7 * ?k) * (unat b mod 128)"
    have byte: "buffer_byte 0 s = Some b"
      using flat_buffer_byte [OF Suc.prems(1), of 0] Cons by simp
    have adv: "flat (Advance 1 s)" "rest (Advance 1 s) = bs"
      using flat_Advance [OF Suc.prems(1), of 1] Cons by simp_all
    have r: "(of_nat a :: 64 word) OR push_bit (7 * (kMaxVarintBytes - Suc n)) (ucast b AND 0x7F) = of_nat ?a"
      by (simp only: kMaxVarintBytes_def ucast_and_7f or_push_bit [OF Suc.prems(3)])
    have k: "10 - n = Suc ?k" using Suc.prems(2) by simp
    have "?a < 2 ^ (7 * ?k) * (1 + unat b mod 128)" using Suc.prems(3) by simp
    also have "\<dots> \<le> 2 ^ (7 * ?k) * 128" by (intro mult_le_mono) (auto simp: Suc_le_eq)
    finally have a': "?a < 2 ^ (7 * (10 - n))" unfolding k by (simp add: power_add)
    have fold: "?a + 2 ^ (7 * (10 - n)) * v = a + 2 ^ (7 * ?k) * (unat b mod 128 + 128 * v)" for v
      unfolding k by (simp add: power_add algebra_simps)
    have n: "n \<le> 10" using Suc.prems(2) by simp
    have unf: "varint64_slow (Suc n) (of_nat a) s =
        (if b < 128 then Some (Some (of_nat ?a), Advance 1 s) else varint64_slow n (of_nat ?a) (Advance 1 s))"
      using Cons by (simp add: flat_refill [OF Suc.prems(1)] byte r Let_def continuation del: of_nat_add push_bit_and)
    show ?thesis
      unfolding unf Suc.IH [OF adv(1) n a'] adv(2) fold Cons
      by (auto simp: Advance_Advance split: option.splits simp del: of_nat_add)
  qed
qed simp

lemma flat_ReadVarint64Slow:
  "flat s \<Longrightarrow> \<exists>k \<le> length (rest s). ReadVarint64Slow s =
     Some (case vlen (take 10 (rest s)) of
       Some c \<Rightarrow> (Some (of_nat (vval c (rest s))), Advance c s) | None \<Rightarrow> (None, Advance k s))"
  using varint64_slow_spec [of s 10 0]
  by (intro exI [of _ "min 10 (length (rest s))"])
    (simp add: ReadVarint64Slow_def kMaxVarintBytes_def split: option.splits)

lemma vlen_append: "vlen bs = Some c \<Longrightarrow> vlen (bs @ cs) = Some c"
  by (induction bs arbitrary: c) (auto split: if_splits)

lemma vlen_last: "bs \<noteq> [] \<Longrightarrow> last bs < 128 \<Longrightarrow> \<exists>c. vlen bs = Some c"
  by (induction bs) (auto split: if_splits)

lemma vval_append: "c \<le> length bs \<Longrightarrow> vval c (bs @ cs) = vval c bs"
  using vval_take [of c "length bs" "bs @ cs"] by simp

lemma flat_varint_fits:
  assumes fl: "flat s"
  shows "\<exists>fits. varint_fits s = Some fits \<and>
    (fits \<longrightarrow> rest s \<noteq> []
      \<and> vlen (take 10 (drop (cis_buffer s) (cis_data s))) = vlen (take 10 (rest s))
      \<and> (vlen (take 10 (rest s)) = None \<longrightarrow> cis_buffer s + 10 \<le> length (cis_data s)))"
proof -
  have len: "length (rest s) = cis_buffer_end s - cis_buffer s"
    using length_rest [OF fl] by (simp add: BufferSize_def)
  have ord: "cis_buffer s \<le> cis_buffer_end s" "cis_buffer_end s \<le> length (cis_data s)"
    using fl flat_end [OF fl] by (simp_all add: flat_def)
  have app: "drop (cis_buffer s) (cis_data s) = rest s @ drop (cis_buffer_end s) (cis_data s)"
    using ord append_take_drop_id [of "cis_buffer_end s - cis_buffer s" "drop (cis_buffer s) (cis_data s)"]
    by (simp add: rest_def BufferSize_def)
  consider "10 \<le> length (rest s)" | "length (rest s) < 10" "rest s \<noteq> []" | "rest s = []" by linarith
  then show ?thesis
  proof cases
    case 1
    then have "varint_fits s = Some True" by (simp add: varint_fits_def kMaxVarintBytes_def BufferSize_def len)
    moreover have "rest s \<noteq> []" using 1 by auto
    moreover have "cis_buffer s + 10 \<le> length (cis_data s)" using 1 ord len by linarith
    ultimately show ?thesis using 1 by (intro exI [of _ True]) (simp add: app)
  next
    case 2
    have i: "cis_buffer s < cis_buffer_end s" using 2 len by (metis length_greater_0_conv zero_less_diff)
    then have "rest s ! (length (rest s) - 1) = cis_data s ! (cis_buffer_end s - 1)"
      using ord unfolding len by (simp add: rest_def BufferSize_def)
    then have "last_byte s = Some (last (rest s))"
      using 2 i ord by (simp add: last_byte_def last_conv_nth)
    then have f: "varint_fits s = Some (last (rest s) < 128)"
      using 2 len i by (simp add: varint_fits_def kMaxVarintBytes_def BufferSize_def continuation)
    show ?thesis
    proof (cases "last (rest s) < 128")
      case True
      then obtain c where c: "vlen (rest s) = Some c" using 2 vlen_last by blast
      have "take 10 (rest s @ drop (cis_buffer_end s) (cis_data s))
          = rest s @ take (10 - length (rest s)) (drop (cis_buffer_end s) (cis_data s))"
        using 2 by simp
      then show ?thesis using f True c 2 by (intro exI [of _ True]) (simp add: app vlen_append)
    qed (use f in \<open>intro exI [of _ False]; simp\<close>)
  next
    case 3
    then show ?thesis
      using len ord by (intro exI [of _ False]) (simp add: varint_fits_def kMaxVarintBytes_def BufferSize_def)
  qed
qed

lemma drop_buffer:
  "flat s \<Longrightarrow> \<exists>more. drop (cis_buffer s) (cis_data s) = rest s @ more"
  unfolding rest_def
  by (rule exI [of _ "drop (BufferSize s) (drop (cis_buffer s) (cis_data s))"]) (simp only: append_take_drop_id)

lemma flat_vval:
  assumes "flat s" "vlen (take 10 (rest s)) = Some c"
  shows "vval c (drop (cis_buffer s) (cis_data s)) = vval c (rest s)"
  using drop_buffer [OF assms(1)] vlen_take_Some [OF assms(2)] by (auto simp: vval_append)

lemma flat_buffer: "flat s \<Longrightarrow> cis_buffer s \<le> length (cis_data s)"
  using flat_end [of s] by (auto simp: flat_def)

text \<open>Where the condition of the fast path holds, the array readers stay inside the buffer.\<close>

lemma flat_FromArray:
  assumes fl: "flat s"
  shows "\<exists>fits. varint_fits s = Some fits \<and>
    (fits \<longrightarrow> rest s \<noteq> []
      \<and> ReadVarint32FromArray (cis_data s) (cis_buffer s) =
          Some (map_option (\<lambda>c. (of_nat (vval c (rest s)), cis_buffer s + c)) (vlen (take 10 (rest s))))
      \<and> ReadVarint64FromArray (cis_data s) (cis_buffer s) =
          Some (map_option (\<lambda>c. (of_nat (vval c (rest s)), cis_buffer s + c)) (vlen (take 10 (rest s)))))"
proof -
  note specs = ReadVarint32FromArray_spec [OF flat_buffer [OF fl]] ReadVarint64FromArray_spec [OF flat_buffer [OF fl]]
  show ?thesis
    using flat_varint_fits [OF fl]
  proof (elim exE conjE, intro exI conjI impI)
    fix fits
    assume f: "fits \<longrightarrow> rest s \<noteq> []
        \<and> vlen (take 10 (drop (cis_buffer s) (cis_data s))) = vlen (take 10 (rest s))
        \<and> (vlen (take 10 (rest s)) = None \<longrightarrow> cis_buffer s + 10 \<le> length (cis_data s))" and fits
    then have *: "rest s \<noteq> []" "vlen (take 10 (drop (cis_buffer s) (cis_data s))) = vlen (take 10 (rest s))"
        "vlen (take 10 (rest s)) = None \<longrightarrow> cis_buffer s + 10 \<le> length (cis_data s)"
      by simp_all
    show "rest s \<noteq> []" by fact
    show "ReadVarint32FromArray (cis_data s) (cis_buffer s) =
        Some (map_option (\<lambda>c. (of_nat (vval c (rest s)), cis_buffer s + c)) (vlen (take 10 (rest s))))"
      "ReadVarint64FromArray (cis_data s) (cis_buffer s) =
        Some (map_option (\<lambda>c. (of_nat (vval c (rest s)), cis_buffer s + c)) (vlen (take 10 (rest s))))"
      unfolding specs * (2) using * (3) flat_vval [OF fl]
      by (cases "vlen (take 10 (rest s))"; simp)+
  qed
qed

text \<open>The value and the stream after a varint was read, \<open>k\<close> bytes being used up by a failing read.\<close>

abbreviation varint_result ::
  "nat \<Rightarrow> CodedInputStream \<Rightarrow> 'a::len word option \<times> CodedInputStream" where
  "varint_result k s \<equiv>
     (case vlen (take 10 (rest s)) of
        Some c \<Rightarrow> (Some (of_nat (vval c (rest s))), Advance c s) | None \<Rightarrow> (None, Advance k s))"

lemma flat_ReadVarint64Fallback:
  assumes fl: "flat s"
  shows "\<exists>k \<le> length (rest s). ReadVarint64Fallback s = Some (varint_result k s)"
proof -
  obtain fits where fits: "varint_fits s = Some fits" and arr:
      "fits \<longrightarrow> ReadVarint64FromArray (cis_data s) (cis_buffer s) =
          Some (map_option (\<lambda>c. (of_nat (vval c (rest s)), cis_buffer s + c)) (vlen (take 10 (rest s))))"
    using flat_FromArray [OF fl] by (elim exE conjE) auto
  show ?thesis
  proof (cases fits)
    case True
    with fits arr show ?thesis
      by (intro exI [of _ 0])
        (simp add: ReadVarint64Fallback_def Advance_def split: option.splits)
  next
    case False
    with fits flat_ReadVarint64Slow [OF fl] show ?thesis by (simp add: ReadVarint64Fallback_def)
  qed
qed

lemma first_byte:
  assumes fl: "flat s"
  shows "(if cis_buffer s < cis_buffer_end s then buffer_byte 0 s else Some 0x80) =
    Some (case rest s of [] \<Rightarrow> 0x80 | b # _ \<Rightarrow> b)"
  using flat_nonempty [OF fl] flat_buffer_byte [OF fl, of 0] by (cases "rest s") auto

lemma one_byte_varint:
  "rest s = b # bs \<Longrightarrow> b < 0x80 \<Longrightarrow> varint_result k s = (Some (ucast b :: 'a::len word), Advance 1 s)"
proof -
  assume b: "rest s = b # bs" "b < 0x80"
  then have "unat b < 128" by (simp add: word_less_nat_alt)
  then show ?thesis using b by simp
qed

lemma flat_ReadVarint64:
  assumes fl: "flat s"
  shows "\<exists>k \<le> length (rest s). ReadVarint64 s = Some (varint_result k s)"
proof (cases "\<exists>b bs. rest s = b # bs \<and> b < 0x80")
  case True
  then obtain b bs where b: "rest s = b # bs" "b < 0x80" by blast
  have "ReadVarint64 s = Some (Some (ucast b), Advance 1 s)"
    unfolding ReadVarint64_def first_byte [OF fl] using b by simp
  then show ?thesis using one_byte_varint [OF b, of 0, where 'a = 64] by auto
next
  case False
  then have "ReadVarint64 s = ReadVarint64Fallback s"
    unfolding ReadVarint64_def first_byte [OF fl] by (auto split: list.splits)
  then show ?thesis using flat_ReadVarint64Fallback [OF fl] by simp
qed

lemma ucast_of_nat_64: "(ucast (of_nat n :: 64 word) :: 32 word) = of_nat n"
  by (rule word_unat_eq_iff [THEN iffD2]) (simp add: unsigned_ucast_eq unat_of_nat take_bit_eq_mod mod_mod_cancel)

lemma flat_ReadVarint32:
  assumes fl: "flat s"
  shows "\<exists>k \<le> length (rest s). ReadVarint32 s = Some (varint_result k s)"
proof (cases "\<exists>b bs. rest s = b # bs \<and> b < 0x80")
  case True
  then obtain b bs where b: "rest s = b # bs" "b < 0x80" by blast
  have "ReadVarint32 s = Some (Some (ucast b), Advance 1 s)"
    unfolding ReadVarint32_def first_byte [OF fl] using b by simp
  then show ?thesis using one_byte_varint [OF b, of 0, where 'a = 32] by auto
next
  case False
  then have eq: "ReadVarint32 s = ReadVarint32Fallback s"
    unfolding ReadVarint32_def first_byte [OF fl] by (auto split: list.splits)
  obtain fits where fits: "varint_fits s = Some fits" and arr:
      "fits \<longrightarrow> ReadVarint32FromArray (cis_data s) (cis_buffer s) =
          Some (map_option (\<lambda>c. (of_nat (vval c (rest s)), cis_buffer s + c)) (vlen (take 10 (rest s))))"
    using flat_FromArray [OF fl] by (elim exE conjE) auto
  obtain k where k: "k \<le> length (rest s)" "ReadVarint64Fallback s = Some (varint_result k s)"
    using flat_ReadVarint64Fallback [OF fl] by blast
  show ?thesis
  proof (cases fits)
    case True
    with fits arr eq show ?thesis
      by (intro exI [of _ 0]) (simp add: ReadVarint32Fallback_def Advance_def split: option.splits)
  next
    case False
    with fits eq k show ?thesis
      by (intro exI [of _ k])
        (simp add: ReadVarint32Fallback_def ReadVarint32Slow_def ucast_of_nat_64 split: option.splits)
  qed
qed

text \<open>A tag, 0 at the end of the bytes or when there is no varint.\<close>

lemma flat_ReadTag:
  assumes fl: "flat s"
  shows "\<exists>k \<le> length (rest s). \<exists>e. ReadTag s = Some
    (case vlen (take 10 (rest s)) of
       Some c \<Rightarrow> (of_nat (vval c (rest s)), (Advance c s)\<lparr>last_tag := of_nat (vval c (rest s))\<rparr>)
     | None \<Rightarrow> (0, (Advance k s)\<lparr>last_tag := 0, legitimate_message_end := e\<rparr>))
    \<and> (rest s = [] \<and> total_bytes_read s - buffer_size_after_limit s < total_bytes_limit s \<longrightarrow> e)"
proof (cases "\<exists>b bs. rest s = b # bs \<and> b < 0x80")
  case True
  then obtain b bs where b: "rest s = b # bs" "b < 0x80" by blast
  have "ReadTag s = Some (ucast b, Advance 1 (s\<lparr>last_tag := ucast b\<rparr>))"
    unfolding ReadTag_def first_byte [OF fl] using b by simp
  then show ?thesis
    using b one_byte_varint [OF b, of 0, where 'a = 32] by (auto simp: Advance_def)
next
  case False
  then have eq: "ReadTag s = map_option (\<lambda>(tag, s1). (tag, s1\<lparr>last_tag := tag\<rparr>)) (ReadTagFallback s)"
    unfolding ReadTag_def first_byte [OF fl] by (auto split: list.splits)
  obtain fits where fits: "varint_fits s = Some fits" and ne: "fits \<longrightarrow> rest s \<noteq> []" and arr:
      "fits \<longrightarrow> ReadVarint32FromArray (cis_data s) (cis_buffer s) =
          Some (map_option (\<lambda>c. (of_nat (vval c (rest s)), cis_buffer s + c)) (vlen (take 10 (rest s))))"
    using flat_FromArray [OF fl] by (elim exE conjE) auto
  obtain k where k: "k \<le> length (rest s)" "ReadVarint64 s = Some (varint_result k s)"
    using flat_ReadVarint64 [OF fl] by blast
  show ?thesis
  proof (cases fits)
    case True
    with fits ne arr eq show ?thesis
      by (intro exI [of _ 0] exI [of _ "legitimate_message_end s"] conjI)
        (auto simp: ReadTagFallback_def Advance_def split: option.splits)
  next
    case nofit: False
    show ?thesis
    proof (cases "rest s = []")
      case False
      then have "ReadTagFallback s = Some (case vlen (take 10 (rest s)) of
          Some c \<Rightarrow> (of_nat (vval c (rest s)), Advance c s) | None \<Rightarrow> (0, Advance k s))"
        using fits nofit k(2) flat_empty [OF fl] length_rest [OF fl]
        by (auto simp: ReadTagFallback_def ReadTagSlow_def ucast_of_nat_64 split: option.splits)
      with False eq k(1) show ?thesis
        by (intro exI [of _ k] exI [of _ "legitimate_message_end s"] conjI)
          (auto simp: Advance_def split: option.splits)
    next
      case True
      then have emp: "BufferSize s = 0" "cis_buffer s = cis_buffer_end s"
        using flat_empty [OF fl] length_rest [OF fl] by simp_all
      have lim: "0 < buffer_size_after_limit s \<or> total_bytes_read s = current_limit s"
        using fl unfolding flat_def by blast
      let ?e = "total_bytes_read s - buffer_size_after_limit s < total_bytes_limit s \<or> current_limit s = total_bytes_limit s"
      have "ReadTagFallback s = Some (0, s\<lparr>legitimate_message_end := ?e\<rparr>)"
        using fits nofit emp lim flat_Refresh [OF fl]
        by (simp add: ReadTagFallback_def ReadTagSlow_def Let_def not_less)
      with True eq show ?thesis
        by (intro exI [of _ 0] exI [of _ ?e] conjI) simp_all
    qed
  qed
qed

lemma flat_read_bytes:
  assumes fl: "flat s"
  shows "read_bytes (Suc f) n [] s =
    Some (if n \<le> length (rest s) then ((True, take n (rest s)), Advance n s)
          else ((False, rest s), Advance (length (rest s)) s))"
proof (cases "n \<le> length (rest s)")
  case True
  then show ?thesis
    by (simp add: read_bytes.simps length_rest [OF fl, symmetric] flat_mem_read [OF fl])
next
  case False
  have "flat (Advance (length (rest s)) s)" using flat_Advance [OF fl] by simp
  from flat_Refresh [OF this] False show ?thesis
    by (simp add: read_bytes.simps length_rest [OF fl, symmetric] flat_mem_read [OF fl])
qed

lemma flat_InternalReadStringInline:
  assumes fl: "flat s"
  shows "InternalReadStringInline n str s =
    Some (if 0 \<le> n \<and> nat n \<le> length (rest s) then ((True, take (nat n) (rest s)), Advance (nat n) s)
          else if n < 0 then ((False, str), s)
          else ((False, rest s), Advance (length (rest s)) s))"
proof (cases "0 \<le> n \<and> nat n \<le> length (rest s)")
  case True
  then show ?thesis
    using flat_mem_read [OF fl, of "nat n"] length_rest [OF fl]
    by (auto simp: InternalReadStringInline_def nat_le_iff)
next
  case False
  then show ?thesis
    using flat_read_bytes [OF fl] length_rest [OF fl]
    by (auto simp: InternalReadStringInline_def ReadStringFallback_def)
qed

lemma flat_LittleEndian:
  assumes fl: "flat s"
  shows "ReadLittleEndian32 s = Some (if 4 \<le> length (rest s) then (Some (of_le32 (take 4 (rest s))), Advance 4 s)
      else (None, Advance (length (rest s)) s))"
    and "ReadLittleEndian64 s = Some (if 8 \<le> length (rest s) then (Some (of_le64 (take 8 (rest s))), Advance 8 s)
      else (None, Advance (length (rest s)) s))"
  using flat_read_bytes [OF fl] flat_mem_read [OF fl] length_rest [OF fl, symmetric]
  by (simp_all add: ReadLittleEndian32_def ReadLittleEndian64_def ReadLittleEndian32Fallback_def
      ReadLittleEndian64Fallback_def ReadRaw_def)

lemma flat_ExpectTag:
  assumes fl: "flat s" and small: "t < 2 ^ 7"
  shows "ExpectTag t s = Some (if \<exists>bs. rest s = ucast t # bs then (True, Advance 1 s) else (False, s))"
proof -
  have uc: "ucast (b :: byte) = t \<longleftrightarrow> b = ucast t" for b
  proof
    assume "ucast b = t"
    then have "ucast t = (ucast (ucast b :: 32 word) :: byte)" by simp
    also have "\<dots> = b" by (rule bit_word_eqI) (simp add: bit_ucast_iff)
    finally show "b = ucast t" ..
  next
    assume "b = ucast t"
    moreover have "ucast (ucast t :: byte) = t"
      using small by (simp add: word_less_nat_alt word_unat_eq_iff unsigned_ucast_eq unsigned_take_bit_eq
          take_bit_nat_eq_self)
    ultimately show "ucast b = t" by simp
  qed
  show ?thesis
    using small flat_nonempty [OF fl] flat_buffer_byte [OF fl, of 0]
    by (cases "rest s") (auto simp: ExpectTag_def uc)
qed

lemma flat_ExpectAtEnd:
  "flat s \<Longrightarrow> ExpectAtEnd s =
     (if rest s = [] then (True, s\<lparr>last_tag := 0, legitimate_message_end := True\<rparr>) else (False, s))"
  using flat_empty [of s] by (auto simp: ExpectAtEnd_def flat_def)

end
