(* ===== verification/Proto_WireFormat.thy ===== *)
theory Proto_WireFormat
  imports Proto_CodedStream
begin

text \<open>
  The wire format (wire_format_lite.h, wire_format_lite_inl.h, wire_format_lite.cc, wire_format.cc,
  unknown_field_set.h, unknown_field_set.cc under include/google/protobuf): tags, the readers and
  writers of primitive fields, and the fields a message type does not know.

  A write to an array is again the list of bytes it stores. A field that cannot be skipped, or whose
  string cannot be read, makes the parse fail; what the failing call leaves in the field set is not
  modelled, the result is then \<open>None\<close> inside the \<open>Some\<close>.
\<close>

section \<open>Tags\<close>

definition WIRETYPE_VARINT :: "32 word" where "WIRETYPE_VARINT = 0"
definition WIRETYPE_FIXED64 :: "32 word" where "WIRETYPE_FIXED64 = 1"
definition WIRETYPE_LENGTH_DELIMITED :: "32 word" where "WIRETYPE_LENGTH_DELIMITED = 2"
definition WIRETYPE_START_GROUP :: "32 word" where "WIRETYPE_START_GROUP = 3"
definition WIRETYPE_END_GROUP :: "32 word" where "WIRETYPE_END_GROUP = 4"
definition WIRETYPE_FIXED32 :: "32 word" where "WIRETYPE_FIXED32 = 5"

lemmas wiretypes = WIRETYPE_VARINT_def WIRETYPE_FIXED64_def WIRETYPE_LENGTH_DELIMITED_def
  WIRETYPE_START_GROUP_def WIRETYPE_END_GROUP_def WIRETYPE_FIXED32_def

definition kTagTypeBits :: nat where "kTagTypeBits = 3"
definition kTagTypeMask :: "32 word" where "kTagTypeMask = 2 ^ kTagTypeBits - 1"

definition MakeTag :: "32 word \<Rightarrow> 32 word \<Rightarrow> 32 word" where
  "MakeTag field_number type = push_bit kTagTypeBits field_number OR type"

definition GetTagWireType :: "32 word \<Rightarrow> 32 word" where
  "GetTagWireType tag = tag AND kTagTypeMask"

definition GetTagFieldNumber :: "32 word \<Rightarrow> 32 word" where
  "GetTagFieldNumber tag = drop_bit kTagTypeBits tag"

section \<open>Signed integers\<close>

definition ZigZagEncode32 :: "32 word \<Rightarrow> 32 word" where
  "ZigZagEncode32 n = push_bit 1 n XOR signed_drop_bit 31 n"

definition ZigZagDecode32 :: "32 word \<Rightarrow> 32 word" where
  "ZigZagDecode32 n = drop_bit 1 n XOR - (n AND 1)"

definition ZigZagEncode64 :: "64 word \<Rightarrow> 64 word" where
  "ZigZagEncode64 n = push_bit 1 n XOR signed_drop_bit 63 n"

definition ZigZagDecode64 :: "64 word \<Rightarrow> 64 word" where
  "ZigZagDecode64 n = drop_bit 1 n XOR - (n AND 1)"

section \<open>Reading primitive fields\<close>

text \<open>A signed value is its bit pattern; the template instances are named by their field type.\<close>

definition ReadPrimitive_INT32 :: "CodedInputStream \<Rightarrow> (32 word option \<times> CodedInputStream) option" where
  "ReadPrimitive_INT32 s = ReadVarint32 s"
definition ReadPrimitive_INT64 :: "CodedInputStream \<Rightarrow> (64 word option \<times> CodedInputStream) option" where
  "ReadPrimitive_INT64 s = ReadVarint64 s"
definition ReadPrimitive_UINT32 :: "CodedInputStream \<Rightarrow> (32 word option \<times> CodedInputStream) option" where
  "ReadPrimitive_UINT32 s = ReadVarint32 s"
definition ReadPrimitive_UINT64 :: "CodedInputStream \<Rightarrow> (64 word option \<times> CodedInputStream) option" where
  "ReadPrimitive_UINT64 s = ReadVarint64 s"
definition ReadPrimitive_SINT32 :: "CodedInputStream \<Rightarrow> (32 word option \<times> CodedInputStream) option" where
  "ReadPrimitive_SINT32 s = map_option (\<lambda>(r, s1). (map_option ZigZagDecode32 r, s1)) (ReadVarint32 s)"
definition ReadPrimitive_SINT64 :: "CodedInputStream \<Rightarrow> (64 word option \<times> CodedInputStream) option" where
  "ReadPrimitive_SINT64 s = map_option (\<lambda>(r, s1). (map_option ZigZagDecode64 r, s1)) (ReadVarint64 s)"
definition ReadPrimitive_FIXED32 :: "CodedInputStream \<Rightarrow> (32 word option \<times> CodedInputStream) option" where
  "ReadPrimitive_FIXED32 s = ReadLittleEndian32 s"
definition ReadPrimitive_FIXED64 :: "CodedInputStream \<Rightarrow> (64 word option \<times> CodedInputStream) option" where
  "ReadPrimitive_FIXED64 s = ReadLittleEndian64 s"
definition ReadPrimitive_SFIXED32 :: "CodedInputStream \<Rightarrow> (32 word option \<times> CodedInputStream) option" where
  "ReadPrimitive_SFIXED32 s = ReadLittleEndian32 s"
definition ReadPrimitive_SFIXED64 :: "CodedInputStream \<Rightarrow> (64 word option \<times> CodedInputStream) option" where
  "ReadPrimitive_SFIXED64 s = ReadLittleEndian64 s"
definition ReadPrimitive_BOOL :: "CodedInputStream \<Rightarrow> (bool option \<times> CodedInputStream) option" where
  "ReadPrimitive_BOOL s = map_option (\<lambda>(r, s1). (map_option (\<lambda>v. v \<noteq> 0) r, s1)) (ReadVarint32 s)"
definition ReadPrimitive_ENUM :: "CodedInputStream \<Rightarrow> (32 word option \<times> CodedInputStream) option" where
  "ReadPrimitive_ENUM s = ReadVarint32 s"

text \<open>Strings and bytes: the length, a \<open>uint32\<close> passed on as an \<open>int\<close>, then the characters, read into
  the string \<open>str\<close>.\<close>

definition WFL_ReadString :: "block \<Rightarrow> CodedInputStream \<Rightarrow> ((bool \<times> block) \<times> CodedInputStream) option" where
  "WFL_ReadString str s = do {
     (len, s1) \<leftarrow> ReadVarint32 s;
     case len of None \<Rightarrow> Some ((False, str), s1) | Some n \<Rightarrow> InternalReadStringInline (sint n) str s1
   }"

definition WFL_ReadBytes :: "block \<Rightarrow> CodedInputStream \<Rightarrow> ((bool \<times> block) \<times> CodedInputStream) option" where
  "WFL_ReadBytes str s = do {
     (len, s1) \<leftarrow> ReadVarint32 s;
     case len of None \<Rightarrow> Some ((False, str), s1) | Some n \<Rightarrow> InternalReadStringInline (sint n) str s1
   }"

section \<open>Writing fields to an array\<close>

definition WFL_WriteTagToArray :: "32 word \<Rightarrow> 32 word \<Rightarrow> byte list" where
  "WFL_WriteTagToArray field_number type = WriteTagToArray (MakeTag field_number type)"

definition WriteInt32NoTagToArray :: "32 word \<Rightarrow> byte list" where
  "WriteInt32NoTagToArray v = WriteVarint32SignExtendedToArray v"
definition WriteInt64NoTagToArray :: "64 word \<Rightarrow> byte list" where
  "WriteInt64NoTagToArray v = WriteVarint64ToArray v"
definition WriteUInt32NoTagToArray :: "32 word \<Rightarrow> byte list" where
  "WriteUInt32NoTagToArray v = WriteVarint32ToArray v"
definition WriteUInt64NoTagToArray :: "64 word \<Rightarrow> byte list" where
  "WriteUInt64NoTagToArray v = WriteVarint64ToArray v"
definition WriteSInt32NoTagToArray :: "32 word \<Rightarrow> byte list" where
  "WriteSInt32NoTagToArray v = WriteVarint32ToArray (ZigZagEncode32 v)"
definition WriteSInt64NoTagToArray :: "64 word \<Rightarrow> byte list" where
  "WriteSInt64NoTagToArray v = WriteVarint64ToArray (ZigZagEncode64 v)"
definition WriteFixed32NoTagToArray :: "32 word \<Rightarrow> byte list" where
  "WriteFixed32NoTagToArray v = WriteLittleEndian32ToArray v"
definition WriteFixed64NoTagToArray :: "64 word \<Rightarrow> byte list" where
  "WriteFixed64NoTagToArray v = WriteLittleEndian64ToArray v"
definition WriteSFixed32NoTagToArray :: "32 word \<Rightarrow> byte list" where
  "WriteSFixed32NoTagToArray v = WriteLittleEndian32ToArray v"
definition WriteSFixed64NoTagToArray :: "64 word \<Rightarrow> byte list" where
  "WriteSFixed64NoTagToArray v = WriteLittleEndian64ToArray v"
definition WriteBoolNoTagToArray :: "bool \<Rightarrow> byte list" where
  "WriteBoolNoTagToArray v = WriteVarint32ToArray (if v then 1 else 0)"
definition WriteEnumNoTagToArray :: "32 word \<Rightarrow> byte list" where
  "WriteEnumNoTagToArray v = WriteVarint32SignExtendedToArray v"

definition WriteInt32ToArray :: "32 word \<Rightarrow> 32 word \<Rightarrow> byte list" where
  "WriteInt32ToArray fn v = WFL_WriteTagToArray fn WIRETYPE_VARINT @ WriteInt32NoTagToArray v"
definition WriteInt64ToArray :: "32 word \<Rightarrow> 64 word \<Rightarrow> byte list" where
  "WriteInt64ToArray fn v = WFL_WriteTagToArray fn WIRETYPE_VARINT @ WriteInt64NoTagToArray v"
definition WriteUInt32ToArray :: "32 word \<Rightarrow> 32 word \<Rightarrow> byte list" where
  "WriteUInt32ToArray fn v = WFL_WriteTagToArray fn WIRETYPE_VARINT @ WriteUInt32NoTagToArray v"
definition WriteUInt64ToArray :: "32 word \<Rightarrow> 64 word \<Rightarrow> byte list" where
  "WriteUInt64ToArray fn v = WFL_WriteTagToArray fn WIRETYPE_VARINT @ WriteUInt64NoTagToArray v"
definition WriteSInt32ToArray :: "32 word \<Rightarrow> 32 word \<Rightarrow> byte list" where
  "WriteSInt32ToArray fn v = WFL_WriteTagToArray fn WIRETYPE_VARINT @ WriteSInt32NoTagToArray v"
definition WriteSInt64ToArray :: "32 word \<Rightarrow> 64 word \<Rightarrow> byte list" where
  "WriteSInt64ToArray fn v = WFL_WriteTagToArray fn WIRETYPE_VARINT @ WriteSInt64NoTagToArray v"
definition WriteFixed32ToArray :: "32 word \<Rightarrow> 32 word \<Rightarrow> byte list" where
  "WriteFixed32ToArray fn v = WFL_WriteTagToArray fn WIRETYPE_FIXED32 @ WriteFixed32NoTagToArray v"
definition WriteFixed64ToArray :: "32 word \<Rightarrow> 64 word \<Rightarrow> byte list" where
  "WriteFixed64ToArray fn v = WFL_WriteTagToArray fn WIRETYPE_FIXED64 @ WriteFixed64NoTagToArray v"
definition WriteSFixed32ToArray :: "32 word \<Rightarrow> 32 word \<Rightarrow> byte list" where
  "WriteSFixed32ToArray fn v = WFL_WriteTagToArray fn WIRETYPE_FIXED32 @ WriteSFixed32NoTagToArray v"
definition WriteSFixed64ToArray :: "32 word \<Rightarrow> 64 word \<Rightarrow> byte list" where
  "WriteSFixed64ToArray fn v = WFL_WriteTagToArray fn WIRETYPE_FIXED64 @ WriteSFixed64NoTagToArray v"
definition WriteBoolToArray :: "32 word \<Rightarrow> bool \<Rightarrow> byte list" where
  "WriteBoolToArray fn v = WFL_WriteTagToArray fn WIRETYPE_VARINT @ WriteBoolNoTagToArray v"
definition WriteEnumToArray :: "32 word \<Rightarrow> 32 word \<Rightarrow> byte list" where
  "WriteEnumToArray fn v = WFL_WriteTagToArray fn WIRETYPE_VARINT @ WriteEnumNoTagToArray v"

definition WriteStringToArray :: "32 word \<Rightarrow> block \<Rightarrow> byte list" where
  "WriteStringToArray fn v = WFL_WriteTagToArray fn WIRETYPE_LENGTH_DELIMITED
     @ WriteVarint32ToArray (of_nat (length v)) @ WriteStringToArray_raw v"
definition WriteBytesToArray :: "32 word \<Rightarrow> block \<Rightarrow> byte list" where
  "WriteBytesToArray fn v = WFL_WriteTagToArray fn WIRETYPE_LENGTH_DELIMITED
     @ WriteVarint32ToArray (of_nat (length v)) @ WriteStringToArray_raw v"

section \<open>Sizes\<close>

definition Int32Size :: "32 word \<Rightarrow> nat" where "Int32Size v = VarintSize32SignExtended v"
definition Int64Size :: "64 word \<Rightarrow> nat" where "Int64Size v = VarintSize64 v"
definition UInt32Size :: "32 word \<Rightarrow> nat" where "UInt32Size v = VarintSize32 v"
definition UInt64Size :: "64 word \<Rightarrow> nat" where "UInt64Size v = VarintSize64 v"
definition SInt32Size :: "32 word \<Rightarrow> nat" where "SInt32Size v = VarintSize32 (ZigZagEncode32 v)"
definition SInt64Size :: "64 word \<Rightarrow> nat" where "SInt64Size v = VarintSize64 (ZigZagEncode64 v)"
definition EnumSize :: "32 word \<Rightarrow> nat" where "EnumSize v = VarintSize32SignExtended v"
definition StringSize :: "block \<Rightarrow> nat" where
  "StringSize v = VarintSize32 (of_nat (length v)) + length v"
definition BytesSize :: "block \<Rightarrow> nat" where
  "BytesSize v = VarintSize32 (of_nat (length v)) + length v"
definition LengthDelimitedSize :: "nat \<Rightarrow> nat" where
  "LengthDelimitedSize len = VarintSize32 (of_nat len) + len"

section \<open>Unknown fields\<close>

text \<open>The constructors are the field types; the number is a bit field of 29 bits.\<close>

datatype UnknownField =
    TYPE_VARINT "32 word" "64 word"
  | TYPE_FIXED32 "32 word" "32 word"
  | TYPE_FIXED64 "32 word" "64 word"
  | TYPE_LENGTH_DELIMITED "32 word" block
  | TYPE_GROUP "32 word" "UnknownField list"

type_synonym UnknownFieldSet = "UnknownField list"

definition AddVarint :: "32 word \<Rightarrow> 64 word \<Rightarrow> UnknownFieldSet \<Rightarrow> UnknownFieldSet" where
  "AddVarint number v ufs = ufs @ [TYPE_VARINT (take_bit 29 number) v]"
definition AddFixed32 :: "32 word \<Rightarrow> 32 word \<Rightarrow> UnknownFieldSet \<Rightarrow> UnknownFieldSet" where
  "AddFixed32 number v ufs = ufs @ [TYPE_FIXED32 (take_bit 29 number) v]"
definition AddFixed64 :: "32 word \<Rightarrow> 64 word \<Rightarrow> UnknownFieldSet \<Rightarrow> UnknownFieldSet" where
  "AddFixed64 number v ufs = ufs @ [TYPE_FIXED64 (take_bit 29 number) v]"
definition AddLengthDelimited :: "32 word \<Rightarrow> block \<Rightarrow> UnknownFieldSet \<Rightarrow> UnknownFieldSet" where
  "AddLengthDelimited number v ufs = ufs @ [TYPE_LENGTH_DELIMITED (take_bit 29 number) v]"
definition AddGroup :: "32 word \<Rightarrow> UnknownFieldSet \<Rightarrow> UnknownFieldSet \<Rightarrow> UnknownFieldSet" where
  "AddGroup number g ufs = ufs @ [TYPE_GROUP (take_bit 29 number) g]"
definition AddField :: "UnknownField \<Rightarrow> UnknownFieldSet \<Rightarrow> UnknownFieldSet" where
  "AddField field ufs = ufs @ [field]"
definition UFS_MergeFrom :: "UnknownFieldSet \<Rightarrow> UnknownFieldSet \<Rightarrow> UnknownFieldSet" where
  "UFS_MergeFrom other ufs = foldl (\<lambda>fs f. AddField f fs) ufs other"

fun field_number :: "UnknownField \<Rightarrow> 32 word" where
  "field_number (TYPE_VARINT n _) = n"
| "field_number (TYPE_FIXED32 n _) = n"
| "field_number (TYPE_FIXED64 n _) = n"
| "field_number (TYPE_LENGTH_DELIMITED n _) = n"
| "field_number (TYPE_GROUP n _) = n"

definition DeleteSubrange :: "nat \<Rightarrow> nat \<Rightarrow> UnknownFieldSet \<Rightarrow> UnknownFieldSet" where
  "DeleteSubrange start num ufs = take start ufs @ drop (start + num) ufs"

text \<open>The loop of \<open>DeleteByNumber\<close>: the kept fields are moved down to index \<open>left\<close>.\<close>

function delete_by_number :: "32 word \<Rightarrow> nat \<Rightarrow> nat \<Rightarrow> UnknownFieldSet \<Rightarrow> nat \<times> UnknownFieldSet" where
  "delete_by_number number i left ufs =
     (if i < length ufs then
        (if field_number (ufs ! i) = number then delete_by_number number (i + 1) left ufs
         else delete_by_number number (i + 1) (left + 1)
                (if i \<noteq> left then ufs[left := ufs ! i] else ufs))
      else (left, ufs))"
  by pat_completeness auto
termination
  by (relation "measure (\<lambda>(number, i, left, ufs). length ufs - i)") auto

declare delete_by_number.simps [simp del]

definition DeleteByNumber :: "32 word \<Rightarrow> UnknownFieldSet \<Rightarrow> UnknownFieldSet" where
  "DeleteByNumber number ufs =
     (case delete_by_number number 0 0 ufs of (left, fs) \<Rightarrow> take left fs)"

text \<open>
  \<open>SkipField\<close> and \<open>SkipMessage\<close>, recording into a field set. The fuel counts the tags read; more
  tags than bytes cannot be read. On failure the set keeps what was recorded until then, also a
  string or a group that was begun.
\<close>

definition skipped ::
    "('v \<Rightarrow> UnknownFieldSet) \<Rightarrow> UnknownFieldSet \<Rightarrow> ('v option \<times> CodedInputStream) option
      \<Rightarrow> ((bool \<times> UnknownFieldSet) \<times> CodedInputStream) option" where
  "skipped add ufs result = map_option (\<lambda>(r, s1). (case r of None \<Rightarrow> (False, ufs) | Some v \<Rightarrow> (True, add v), s1)) result"

function (sequential) SkipMessage ::
    "nat \<Rightarrow> CodedInputStream \<Rightarrow> UnknownFieldSet \<Rightarrow> ((bool \<times> UnknownFieldSet) \<times> CodedInputStream) option"
  and SkipField ::
    "nat \<Rightarrow> 32 word \<Rightarrow> CodedInputStream \<Rightarrow> UnknownFieldSet \<Rightarrow> ((bool \<times> UnknownFieldSet) \<times> CodedInputStream) option"
where
  "SkipMessage 0 s ufs = None"
| "SkipMessage (Suc n) s ufs = Option.bind (ReadTag s) (\<lambda>(tag, s1).
     if tag = 0 then Some ((True, ufs), s1)
     else if GetTagWireType tag = WIRETYPE_END_GROUP then Some ((True, ufs), s1)
     else Option.bind (SkipField n tag s1 ufs) (\<lambda>((ok, ufs'), s2).
       if ok then SkipMessage n s2 ufs' else Some ((False, ufs'), s2)))"
| "SkipField n tag s ufs =
     (let number = GetTagFieldNumber tag; wt = GetTagWireType tag in
      if wt = WIRETYPE_VARINT then skipped (\<lambda>v. AddVarint number v ufs) ufs (ReadVarint64 s)
      else if wt = WIRETYPE_FIXED64 then skipped (\<lambda>v. AddFixed64 number v ufs) ufs (ReadLittleEndian64 s)
      else if wt = WIRETYPE_LENGTH_DELIMITED then
        Option.bind (ReadVarint32 s) (\<lambda>(r, s1).
          case r of
            None \<Rightarrow> Some ((False, ufs), s1)
          | Some len \<Rightarrow>
              map_option (\<lambda>((ok, v), s2). ((ok, AddLengthDelimited number v ufs), s2))
                (ReadString (sint len) [] s1))
      else if wt = WIRETYPE_START_GROUP then
        (let (ok, s1) = IncrementRecursionDepth s in
         if \<not> ok then Some ((False, ufs), s1)
         else Option.bind (SkipMessage n s1 []) (\<lambda>((ok, g), s2).
           if \<not> ok then Some ((False, AddGroup number g ufs), s2)
           else
             (let s3 = DecrementRecursionDepth s2 in
              Some ((LastTagWas (MakeTag (GetTagFieldNumber tag) WIRETYPE_END_GROUP) s3,
                     AddGroup number g ufs), s3))))
      else if wt = WIRETYPE_FIXED32 then skipped (\<lambda>v. AddFixed32 number v ufs) ufs (ReadLittleEndian32 s)
      else Some ((False, ufs), s))"
  by pat_completeness auto
termination
  by (relation "measure (\<lambda>x. case x of Inl (n, s, f) \<Rightarrow> 2 * n | Inr (n, t, s, f) \<Rightarrow> 2 * n + 1)") auto

declare SkipMessage.simps [simp del] SkipField.simps [simp del]

text \<open>Serialisation and size, field by field.\<close>

fun SerializeUnknownFieldsToArray :: "UnknownFieldSet \<Rightarrow> byte list"
  and serialize_unknown_field :: "UnknownField \<Rightarrow> byte list" where
  "SerializeUnknownFieldsToArray [] = []"
| "SerializeUnknownFieldsToArray (f # fs) = serialize_unknown_field f @ SerializeUnknownFieldsToArray fs"
| "serialize_unknown_field (TYPE_VARINT n v) = WriteInt64ToArray n v"
| "serialize_unknown_field (TYPE_FIXED32 n v) = WriteFixed32ToArray n v"
| "serialize_unknown_field (TYPE_FIXED64 n v) = WriteFixed64ToArray n v"
| "serialize_unknown_field (TYPE_LENGTH_DELIMITED n v) = WriteBytesToArray n v"
| "serialize_unknown_field (TYPE_GROUP n g) =
     WFL_WriteTagToArray n WIRETYPE_START_GROUP @ SerializeUnknownFieldsToArray g
     @ WFL_WriteTagToArray n WIRETYPE_END_GROUP"

fun ComputeUnknownFieldsSize :: "UnknownFieldSet \<Rightarrow> nat"
  and unknown_field_size :: "UnknownField \<Rightarrow> nat" where
  "ComputeUnknownFieldsSize [] = 0"
| "ComputeUnknownFieldsSize (f # fs) = unknown_field_size f + ComputeUnknownFieldsSize fs"
| "unknown_field_size (TYPE_VARINT n v) = VarintSize32 (MakeTag n WIRETYPE_VARINT) + VarintSize64 v"
| "unknown_field_size (TYPE_FIXED32 n v) = VarintSize32 (MakeTag n WIRETYPE_FIXED32) + 4"
| "unknown_field_size (TYPE_FIXED64 n v) = VarintSize32 (MakeTag n WIRETYPE_FIXED64) + 8"
| "unknown_field_size (TYPE_LENGTH_DELIMITED n v) =
     VarintSize32 (MakeTag n WIRETYPE_LENGTH_DELIMITED) + VarintSize32 (of_nat (length v)) + length v"
| "unknown_field_size (TYPE_GROUP n g) =
     VarintSize32 (MakeTag n WIRETYPE_START_GROUP) + ComputeUnknownFieldsSize g
     + VarintSize32 (MakeTag n WIRETYPE_END_GROUP)"

section \<open>Tags and signed integers\<close>

lemma mask_7: "(w :: 32 word) AND 7 = take_bit 3 w"
  by (simp add: take_bit_eq_mask mask_eq_exp_minus_1)

lemma bit_small: "(t :: 32 word) < 8 \<Longrightarrow> bit t i \<Longrightarrow> i < 3"
proof -
  assume "t < 8" and b: "bit t i"
  then have "unat t < 2 ^ 3" by (simp add: word_less_nat_alt)
  then have "take_bit 3 (unat t) = unat t" by (simp add: take_bit_nat_eq_self)
  moreover have "bit (unat t) i" using b by (simp add: bit_unsigned_iff)
  ultimately show "i < 3" by (metis bit_take_bit_iff)
qed

lemma GetTag_MakeTag:
  assumes "t < 8" "take_bit 29 n = n"
  shows "GetTagWireType (MakeTag n t) = t" "GetTagFieldNumber (MakeTag n t) = n"
proof -
  show "GetTagWireType (MakeTag n t) = t"
    unfolding GetTagWireType_def MakeTag_def kTagTypeMask_def kTagTypeBits_def
    by (rule bit_word_eqI) (use bit_small [OF assms(1)] in \<open>auto simp: mask_7 bit_simps\<close>)
  have n: "bit n i \<Longrightarrow> i < 29" for i using assms(2) by (metis bit_take_bit_iff)
  show "GetTagFieldNumber (MakeTag n t) = n"
    unfolding GetTagFieldNumber_def MakeTag_def kTagTypeBits_def
    by (rule bit_word_eqI) (use n bit_small [OF assms(1)] in \<open>fastforce simp: bit_simps\<close>)
qed

lemma MakeTag_nonzero:
  assumes "take_bit 29 n = n" "n \<noteq> 0" "t < 8"
  shows "MakeTag n t \<noteq> 0"
  using GetTag_MakeTag(2) [OF assms(3,1)] assms(2) by (auto simp: GetTagFieldNumber_def)

lemma field_number_29: "take_bit 29 (GetTagFieldNumber tag) = GetTagFieldNumber tag"
  unfolding GetTagFieldNumber_def kTagTypeBits_def
  by (rule bit_word_eqI) (auto simp: bit_simps dest: bit_imp_le_length)

lemma and_1_minus: "bit (- ((n :: 'a::len word) AND 1)) i \<longleftrightarrow> i < LENGTH('a) \<and> bit n 0"
proof (cases "bit n 0")
  case True
  then have "n AND 1 = 1" by (simp add: and_one_eq bit_0 odd_iff_mod_2_eq_one)
  then show ?thesis using True by (simp add: bit_minus_1_iff)
next
  case False
  then have "n AND 1 = 0" by (simp add: and_one_eq bit_0 even_iff_mod_2_eq_zero)
  then show ?thesis using False by simp
qed

lemma ZigZag32: "ZigZagDecode32 (ZigZagEncode32 n) = n"
proof (rule bit_word_eqI)
  fix i assume i: "i < LENGTH(32)"
  have e: "bit (ZigZagEncode32 n) j \<longleftrightarrow> j < 32 \<and> (0 < j \<and> bit n (j - 1)) \<noteq> bit n 31" if "j < 32" for j
    using that unfolding ZigZagEncode32_def bit_xor_iff bit_push_bit_iff bit_signed_drop_bit_iff by (cases j) auto
  have "bit n j \<Longrightarrow> j < 32" for j using bit_imp_le_length [of n j] by simp
  then show "bit (ZigZagDecode32 (ZigZagEncode32 n)) i = bit n i"
    using i e [of 0] e [of "1 + i"] bit_imp_le_length [of "ZigZagEncode32 n" "1 + i"]
    unfolding ZigZagDecode32_def bit_xor_iff bit_drop_bit_eq o_def and_1_minus
    by (cases "i = 31") auto
qed

lemma ZigZag64: "ZigZagDecode64 (ZigZagEncode64 n) = n"
proof (rule bit_word_eqI)
  fix i assume i: "i < LENGTH(64)"
  have e: "bit (ZigZagEncode64 n) j \<longleftrightarrow> j < 64 \<and> (0 < j \<and> bit n (j - 1)) \<noteq> bit n 63" if "j < 64" for j
    using that unfolding ZigZagEncode64_def bit_xor_iff bit_push_bit_iff bit_signed_drop_bit_iff by (cases j) auto
  have "bit n j \<Longrightarrow> j < 64" for j using bit_imp_le_length [of n j] by simp
  then show "bit (ZigZagDecode64 (ZigZagEncode64 n)) i = bit n i"
    using i e [of 0] e [of "1 + i"] bit_imp_le_length [of "ZigZagEncode64 n" "1 + i"]
    unfolding ZigZagDecode64_def bit_xor_iff bit_drop_bit_eq o_def and_1_minus
    by (cases "i = 63") auto
qed

section \<open>Reading back what was written\<close>

definition stream_at :: "CodedInputStream \<Rightarrow> byte list \<Rightarrow> bool" where
  "stream_at s bs \<longleftrightarrow> flat s \<and> rest s = bs"

lemma stream_at_array: "stream_at (CodedInputStream_array bs) bs"
  by (simp add: stream_at_def flat_array)

lemma stream_at_Advance: "stream_at s (bs @ cs) \<Longrightarrow> stream_at (Advance (length bs) s) cs"
  using flat_Advance [of s "length bs"] by (simp add: stream_at_def)

lemma stream_at_update [simp]:
  "stream_at (s\<lparr>last_tag := t\<rparr>) = stream_at s" "stream_at (s\<lparr>legitimate_message_end := b\<rparr>) = stream_at s"
  "stream_at (s\<lparr>recursion_depth := d\<rparr>) = stream_at s"
  by (simp_all add: stream_at_def fun_eq_iff)

lemma read_varint:
  assumes "stream_at s (leb128 n @ bs)" "n < 2 ^ 64"
  shows "ReadVarint32 s = Some (Some (of_nat n), Advance (length (leb128 n)) s)"
    and "ReadVarint64 s = Some (Some (of_nat n), Advance (length (leb128 n)) s)"
  using flat_ReadVarint32 [of s] flat_ReadVarint64 [of s] read_leb128 [OF assms(2), of bs] assms(1)
  by (auto simp: stream_at_def)

lemma read_tag:
  assumes "stream_at s (leb128 (unat tag) @ bs)"
  shows "ReadTag s = Some (tag, (Advance (length (leb128 (unat tag))) s)\<lparr>last_tag := tag\<rparr>)"
proof -
  have "unat tag < 2 ^ 64" using unsigned_less [of tag, where 'a = nat] by simp
  then show ?thesis
    using flat_ReadTag [of s] read_leb128 [of "unat tag" bs] assms by (auto simp: stream_at_def)
qed

lemma read_string:
  assumes "stream_at s (v @ bs)"
  shows "InternalReadStringInline (int (length v)) str s = Some ((True, v), Advance (length v) s)"
    and "ReadString (int (length v)) str s = Some ((True, v), Advance (length v) s)"
  using flat_InternalReadStringInline [of s "int (length v)"] assms
  by (auto simp: stream_at_def ReadString_def)

lemma le64_halves:
  "WriteLittleEndian64ToArray v = le32 (ucast v) @ le32 (ucast (drop_bit 32 v))"
proof -
  have a: "(ucast (drop_bit k v) :: byte) = ucast (drop_bit k (ucast v :: 32 word))" if "k \<le> 24" for k
    using that by (intro bit_word_eqI) (auto simp: bit_simps)
  have b: "(ucast (drop_bit (32 + k) v) :: byte) = ucast (drop_bit k (ucast (drop_bit 32 v) :: 32 word))" if "k \<le> 24" for k
    using that by (intro bit_word_eqI) (auto simp: bit_simps ac_simps)
  show ?thesis
    using a [of 0] a [of 8] a [of 16] a [of 24] b [of 0] b [of 8] b [of 16] b [of 24]
    by (simp add: WriteLittleEndian64ToArray_def le32_def upt_rec)
qed

lemma of_le64_le64: "of_le64 (WriteLittleEndian64ToArray v) = v"
proof -
  obtain b0 b1 b2 b3 where lo: "le32 (ucast v) = [b0, b1, b2, b3]" by (simp add: le32_def)
  obtain b4 b5 b6 b7 where hi: "le32 (ucast (drop_bit 32 v)) = [b4, b5, b6, b7]" by (simp add: le32_def)
  have "of_le64 (WriteLittleEndian64ToArray v)
      = ucast (of_le32 (le32 (ucast v) @ [])) OR push_bit 32 (ucast (of_le32 (le32 (ucast (drop_bit 32 v)) @ [])))"
    unfolding le64_halves lo hi by simp
  also have "\<dots> = ucast (ucast v :: 32 word) OR push_bit 32 (ucast (ucast (drop_bit 32 v) :: 32 word))"
    by (simp only: of_le32_le32)
  also have "\<dots> = v" by (rule bit_word_eqI) (auto simp: bit_simps)
  finally show ?thesis .
qed

lemma length_le64: "length (WriteLittleEndian64ToArray v) = 8"
  by (simp add: WriteLittleEndian64ToArray_def)

lemma read_fixed32:
  assumes "stream_at s (le32 v @ bs)"
  shows "ReadLittleEndian32 s = Some (Some v, Advance 4 s)"
  using flat_LittleEndian(1) [of s] assms of_le32_le32 [of v "[]"] by (simp add: stream_at_def)

lemma read_fixed64:
  assumes "stream_at s (WriteLittleEndian64ToArray v @ bs)"
  shows "ReadLittleEndian64 s = Some (Some v, Advance 8 s)"
  using flat_LittleEndian(2) [of s] assms of_le64_le64 [of v] by (simp add: stream_at_def length_le64)

section \<open>Skipping is total\<close>

text \<open>A read leaves a stream over the same array with at most as many bytes.\<close>

definition shrinks :: "CodedInputStream \<Rightarrow> CodedInputStream \<Rightarrow> bool" where
  "shrinks s s' \<longleftrightarrow> flat s' \<and> length (rest s') \<le> length (rest s)"

lemma shrinks_Advance: "flat s \<Longrightarrow> k \<le> length (rest s) \<Longrightarrow> shrinks s (Advance k s)"
  using flat_Advance [of s k] by (simp add: shrinks_def)

lemma shrinks_refl: "flat s \<Longrightarrow> shrinks s s"
  by (simp add: shrinks_def)

lemma shrinks_trans: "shrinks s s1 \<Longrightarrow> shrinks s1 s2 \<Longrightarrow> shrinks s s2"
  by (simp add: shrinks_def)

lemma shrinks_update [simp]:
  "shrinks s (s'\<lparr>last_tag := t\<rparr>) = shrinks s s'" "shrinks s (s'\<lparr>legitimate_message_end := b\<rparr>) = shrinks s s'"
  "shrinks s (s'\<lparr>recursion_depth := d\<rparr>) = shrinks s s'"
  "shrinks (s\<lparr>recursion_depth := d\<rparr>) s' = shrinks s s'"
  by (simp_all add: shrinks_def)

lemma shrinks_depth:
  "shrinks s (snd (IncrementRecursionDepth s)) = flat s" "shrinks s (DecrementRecursionDepth s') = shrinks s s'"
  by (auto simp: IncrementRecursionDepth_def DecrementRecursionDepth_def Let_def shrinks_def)

lemma varint_result_shrinks:
  "flat s \<Longrightarrow> k \<le> length (rest s) \<Longrightarrow> shrinks s (snd (varint_result k s :: 'a::len word option \<times> CodedInputStream))"
  using vlen_take_Some [of 10 "rest s"] shrinks_Advance [of s] by (auto split: option.splits)

lemma varint_shrinks:
  assumes "flat s"
  shows "\<exists>r s'. ReadVarint32 s = Some (r, s') \<and> shrinks s s'"
    and "\<exists>r s'. ReadVarint64 s = Some (r, s') \<and> shrinks s s'"
proof -
  obtain k where "k \<le> length (rest s)" "ReadVarint32 s = Some (varint_result k s)"
    using flat_ReadVarint32 [OF assms] by blast
  then show "\<exists>r s'. ReadVarint32 s = Some (r, s') \<and> shrinks s s'"
    using varint_result_shrinks [OF assms, of k, where 'a = 32]
    by (cases "varint_result k s :: 32 word option \<times> CodedInputStream") simp
  obtain k where "k \<le> length (rest s)" "ReadVarint64 s = Some (varint_result k s)"
    using flat_ReadVarint64 [OF assms] by blast
  then show "\<exists>r s'. ReadVarint64 s = Some (r, s') \<and> shrinks s s'"
    using varint_result_shrinks [OF assms, of k, where 'a = 64]
    by (cases "varint_result k s :: 64 word option \<times> CodedInputStream") simp
qed

lemma string_shrinks:
  assumes "flat s"
  shows "\<exists>r s'. InternalReadStringInline n str s = Some (r, s') \<and> shrinks s s'"
    and "\<exists>r s'. ReadString n str s = Some (r, s') \<and> shrinks s s'"
  using flat_InternalReadStringInline [OF assms, of n str] shrinks_Advance [OF assms] shrinks_refl [OF assms]
  by (simp_all add: ReadString_def ex_bool_eq)

lemma fixed_shrinks:
  assumes "flat s"
  shows "\<exists>r s'. ReadLittleEndian32 s = Some (r, s') \<and> shrinks s s'"
    and "\<exists>r s'. ReadLittleEndian64 s = Some (r, s') \<and> shrinks s s'"
  using flat_LittleEndian [OF assms] shrinks_Advance [OF assms] by auto

lemma tag_shrinks:
  assumes "flat s"
  shows "\<exists>tag s'. ReadTag s = Some (tag, s') \<and> shrinks s s' \<and> (tag \<noteq> 0 \<longrightarrow> length (rest s') < length (rest s))"
proof -
  obtain k e where k: "k \<le> length (rest s)" and t: "ReadTag s = Some
    (case vlen (take 10 (rest s)) of
       Some c \<Rightarrow> (of_nat (vval c (rest s)), (Advance c s)\<lparr>last_tag := of_nat (vval c (rest s))\<rparr>)
     | None \<Rightarrow> (0, (Advance k s)\<lparr>last_tag := 0, legitimate_message_end := e\<rparr>))"
    using flat_ReadTag [OF assms] by blast
  show ?thesis
  proof (cases "vlen (take 10 (rest s))")
    case None
    then show ?thesis using t k shrinks_Advance [OF assms] by simp
  next
    case (Some c)
    then show ?thesis
      using t vlen_take_Some [OF Some] shrinks_Advance [OF assms] flat_Advance [OF assms, of c] by auto
  qed
qed

lemma skip_total:
  "flat s \<Longrightarrow> length (rest s) < n \<Longrightarrow> \<exists>r s'. SkipMessage n s u = Some (r, s') \<and> shrinks s s'"
  "flat s \<Longrightarrow> length (rest s) < n \<Longrightarrow> \<exists>r s'. SkipField n tag s u = Some (r, s') \<and> shrinks s s'"
proof (induction n s u and n tag s u rule: SkipMessage_SkipField.induct)
  case (1 s u)
  then show ?case by simp
next
  case (2 n s u)
  obtain tag s1 where t: "ReadTag s = Some (tag, s1)" "shrinks s s1"
      "tag \<noteq> 0 \<longrightarrow> length (rest s1) < length (rest s)"
    using tag_shrinks [OF 2(3)] by blast
  show ?case
  proof (cases "tag = 0 \<or> GetTagWireType tag = WIRETYPE_END_GROUP")
    case True
    then show ?thesis using t(1,2) by (auto simp: SkipMessage.simps)
  next
    case False
    then have s1: "flat s1" "length (rest s1) < n" using t 2(4) by (auto simp: shrinks_def)
    obtain ok u' s2 where f: "SkipField n tag s1 u = Some ((ok, u'), s2)" "shrinks s1 s2"
      using 2(1) [OF t(1) refl] False s1 by (metis prod.collapse)
    show ?thesis
    proof (cases ok)
      case no: False
      then show ?thesis using False t f shrinks_trans [OF t(2) f(2)] by (simp add: SkipMessage.simps ex_bool_eq)
    next
      case yes: True
      have "flat s2" "length (rest s2) < n" using f(2) s1 by (auto simp: shrinks_def)
      then obtain r' s3 where r': "SkipMessage n s2 u' = Some (r', s3)" "shrinks s2 s3"
        using 2(2) [OF t(1) refl _ _ f(1) refl refl yes] False by blast
      then show ?thesis
        using False t f yes shrinks_trans [OF shrinks_trans [OF t(2) f(2)] r'(2)]
        by (simp add: SkipMessage.simps)
    qed
  qed
next
  case (3 n tag s u)
  let ?wt = "GetTagWireType tag"
  consider (len) "?wt = WIRETYPE_LENGTH_DELIMITED" | (group) "?wt = WIRETYPE_START_GROUP"
    | (other) "?wt \<noteq> WIRETYPE_LENGTH_DELIMITED" "?wt \<noteq> WIRETYPE_START_GROUP" by blast
  then show ?case
  proof cases
    case len
    obtain r s1 where r: "ReadVarint32 s = Some (r, s1)" "shrinks s s1" using varint_shrinks [OF 3(2)] by blast
    then have "flat s1" by (simp add: shrinks_def)
    then obtain r' s2 where r': "ReadString (sint (the r)) [] s1 = Some (r', s2)" "shrinks s1 s2"
      using string_shrinks(2) by blast
    with len r shrinks_trans [OF r(2) r'(2)] show ?thesis
      by (cases r; cases r') (simp_all add: SkipField.simps Let_def wiretypes ex_bool_eq)
  next
    case group
    obtain ok s1 where i: "IncrementRecursionDepth s = (ok, s1)" by force
    then have s1: "flat s1" "rest s1 = rest s" "shrinks s s1"
      using 3(2) by (auto simp: IncrementRecursionDepth_def Let_def shrinks_def)
    show ?thesis
    proof (cases ok)
      case False
      with group i s1 show ?thesis by (simp add: SkipField.simps Let_def wiretypes ex_bool_eq)
    next
      case True
      have "\<exists>r s'. SkipMessage n s1 [] = Some (r, s') \<and> shrinks s1 s'"
        using 3(1) [OF refl refl] group i True s1 3(3) by (simp add: wiretypes)
      then obtain r s2 where "SkipMessage n s1 [] = Some (r, s2)" "shrinks s1 s2" by blast
      then show ?thesis
        using group i True shrinks_trans [OF s1(3)]
        by (cases r) (simp_all add: SkipField.simps Let_def wiretypes shrinks_depth ex_bool_eq)
    qed
  next
    case other
    obtain r1 s1 r2 s2 r3 s3 where "ReadVarint64 s = Some (r1, s1)" "shrinks s s1"
        "ReadLittleEndian32 s = Some (r2, s2)" "shrinks s s2" "ReadLittleEndian64 s = Some (r3, s3)" "shrinks s s3"
      using varint_shrinks [OF 3(2)] fixed_shrinks [OF 3(2)] by blast
    with other shrinks_refl [OF 3(2)] show ?thesis
      by (auto simp: SkipField.simps Let_def skipped_def)
  qed
qed

section \<open>Unknown fields survive\<close>

lemma WFL_tag_leb128: "WFL_WriteTagToArray n t = leb128 (unat (MakeTag n t))"
  by (simp add: WFL_WriteTagToArray_def WriteTagToArray_leb128)

lemmas writes_leb128 = WFL_tag_leb128 WriteVarint32ToArray_leb128 WriteVarint64ToArray_leb128

lemma length_unknown_fields:
  "length (SerializeUnknownFieldsToArray us) = ComputeUnknownFieldsSize us"
  "length (serialize_unknown_field u) = unknown_field_size u"
  by (induction us and u rule: SerializeUnknownFieldsToArray_serialize_unknown_field.induct)
    (simp_all add: WriteInt64ToArray_def WriteInt64NoTagToArray_def WriteFixed32ToArray_def
      WriteFixed32NoTagToArray_def WriteLittleEndian32ToArray_def WriteFixed64ToArray_def
      WriteFixed64NoTagToArray_def length_le64 WriteBytesToArray_def WriteStringToArray_raw_def
      WriteRawToArray_def writes_leb128 VarintSize32_leb128 VarintSize64_leb128)

text \<open>
  The fields a parse can produce: numbers of 29 bits, not 0 where the tag would be 0, and strings
  whose length is an \<open>int\<close>; \<open>d\<close> bounds the nesting of groups.
\<close>

fun fields_ok :: "nat \<Rightarrow> UnknownFieldSet \<Rightarrow> bool" and field_ok :: "nat \<Rightarrow> UnknownField \<Rightarrow> bool" where
  "fields_ok d [] = True"
| "fields_ok d (u # us) = (field_ok d u \<and> fields_ok d us)"
| "field_ok d (TYPE_VARINT n v) = (take_bit 29 n = n \<and> n \<noteq> 0)"
| "field_ok d (TYPE_FIXED32 n v) = (take_bit 29 n = n)"
| "field_ok d (TYPE_FIXED64 n v) = (take_bit 29 n = n)"
| "field_ok d (TYPE_LENGTH_DELIMITED n v) = (take_bit 29 n = n \<and> length v < 2 ^ 31)"
| "field_ok d (TYPE_GROUP n g) =
     (take_bit 29 n = n \<and> (case d of 0 \<Rightarrow> False | Suc d' \<Rightarrow> fields_ok d' g))"

text \<open>The tag of a field and what follows it.\<close>

fun field_tag :: "UnknownField \<Rightarrow> 32 word" where
  "field_tag (TYPE_VARINT n _) = MakeTag n WIRETYPE_VARINT"
| "field_tag (TYPE_FIXED32 n _) = MakeTag n WIRETYPE_FIXED32"
| "field_tag (TYPE_FIXED64 n _) = MakeTag n WIRETYPE_FIXED64"
| "field_tag (TYPE_LENGTH_DELIMITED n _) = MakeTag n WIRETYPE_LENGTH_DELIMITED"
| "field_tag (TYPE_GROUP n _) = MakeTag n WIRETYPE_START_GROUP"

fun field_body :: "UnknownField \<Rightarrow> byte list" where
  "field_body (TYPE_VARINT n v) = leb128 (unat v)"
| "field_body (TYPE_FIXED32 n v) = le32 v"
| "field_body (TYPE_FIXED64 n v) = WriteLittleEndian64ToArray v"
| "field_body (TYPE_LENGTH_DELIMITED n v) = leb128 (unat (of_nat (length v) :: 32 word)) @ v"
| "field_body (TYPE_GROUP n g) = SerializeUnknownFieldsToArray g @ leb128 (unat (MakeTag n WIRETYPE_END_GROUP))"

lemma serialize_unknown_field_split:
  "serialize_unknown_field u = leb128 (unat (field_tag u)) @ field_body u"
  by (cases u) (simp_all add: WriteInt64ToArray_def WriteInt64NoTagToArray_def WriteFixed32ToArray_def
      WriteFixed32NoTagToArray_def WriteLittleEndian32ToArray_def WriteFixed64ToArray_def
      WriteFixed64NoTagToArray_def WriteBytesToArray_def WriteStringToArray_raw_def
      WriteRawToArray_def writes_leb128)

text \<open>The stream behind a field: the bytes that follow, the nesting and the limits as before.\<close>

definition behind :: "CodedInputStream \<Rightarrow> byte list \<Rightarrow> CodedInputStream \<Rightarrow> bool" where
  "behind s bs s' \<longleftrightarrow> stream_at s' bs \<and> recursion_depth s' = recursion_depth s
     \<and> recursion_limit s' = recursion_limit s
     \<and> total_bytes_read s' = total_bytes_read s \<and> total_bytes_limit s' = total_bytes_limit s
     \<and> buffer_size_after_limit s' = buffer_size_after_limit s"

lemma behind_Advance: "stream_at s (cs @ bs) \<Longrightarrow> behind s bs (Advance (length cs) s)"
  using stream_at_Advance [of s cs bs] by (simp add: behind_def Advance_def)

lemma behind_trans: "behind s bs s1 \<Longrightarrow> behind s1 cs s2 \<Longrightarrow> behind s cs s2"
  by (simp add: behind_def)

lemma wiretype_less: "WIRETYPE_VARINT < 8" "WIRETYPE_FIXED64 < 8" "WIRETYPE_LENGTH_DELIMITED < 8"
  "WIRETYPE_START_GROUP < 8" "WIRETYPE_END_GROUP < 8" "WIRETYPE_FIXED32 < 8"
  by (simp_all add: wiretypes)

lemma MakeTag_wiretype: "t < 8 \<Longrightarrow> t \<noteq> 0 \<Longrightarrow> take_bit 29 n = n \<Longrightarrow> MakeTag n t \<noteq> 0"
  using GetTag_MakeTag(1) [of t n] by (auto simp: GetTagWireType_def)

lemma wiretype_nonzero: "WIRETYPE_FIXED64 \<noteq> 0" "WIRETYPE_LENGTH_DELIMITED \<noteq> 0"
  "WIRETYPE_START_GROUP \<noteq> 0" "WIRETYPE_END_GROUP \<noteq> 0" "WIRETYPE_FIXED32 \<noteq> 0"
  by (simp_all add: wiretypes)

lemma field_tag_nonzero: "field_ok d u \<Longrightarrow> field_tag u \<noteq> 0"
  by (cases u) (simp_all add: MakeTag_nonzero MakeTag_wiretype wiretype_less wiretype_nonzero)

lemma field_tag_no_end: "field_ok d u \<Longrightarrow> GetTagWireType (field_tag u) \<noteq> WIRETYPE_END_GROUP"
  by (cases u) (simp_all add: GetTag_MakeTag wiretype_less, simp_all add: wiretypes)

lemma leb128_nonempty: "0 < length (leb128 n)"
  by (subst leb128.simps) simp

lemma unat_32_64: "unat (v :: 32 word) < 2 ^ 64" and unat_64: "unat (w :: 64 word) < 2 ^ 64"
  using unsigned_less [of v, where 'a = nat] unsigned_less [of w, where 'a = nat] by simp_all

text \<open>One step of \<open>SkipMessage\<close> over a field that \<open>SkipField\<close> can skip.\<close>

lemma skip_step:
  assumes at: "stream_at s (leb128 (unat tag) @ bs)" and tag: "tag \<noteq> 0" "GetTagWireType tag \<noteq> WIRETYPE_END_GROUP"
    and f: "SkipField n tag ((Advance (length (leb128 (unat tag))) s)\<lparr>last_tag := tag\<rparr>) u = Some ((True, u'), s')"
  shows "SkipMessage (Suc n) s u = SkipMessage n s' u'"
  using read_tag [OF at] tag f by (simp add: SkipMessage.simps)

definition deep_enough :: "nat \<Rightarrow> CodedInputStream \<Rightarrow> bool" where
  "deep_enough d s \<longleftrightarrow> 0 \<le> recursion_depth s \<and> recursion_depth s + int d \<le> recursion_limit s"

lemma behind_tag:
  assumes "stream_at s (leb128 (unat tag) @ bs)"
  shows "behind s bs ((Advance (length (leb128 (unat tag))) s)\<lparr>last_tag := tag\<rparr>)"
  using behind_Advance [OF assms] by (simp add: behind_def)

lemma behind_deep: "behind s bs s' \<Longrightarrow> deep_enough d s \<Longrightarrow> deep_enough d s'"
  by (simp add: behind_def deep_enough_def)

lemma behind_at: "behind s bs s' \<Longrightarrow> stream_at s' bs"
  by (simp add: behind_def)

lemma skip_scalar:
  assumes "stream_at s (field_body u @ bs)" "field_ok d u" "\<And>n g. u \<noteq> TYPE_GROUP n g"
  shows "SkipField n (field_tag u) s us
    = Some ((True, us @ [u]), Advance (length (field_body u)) s)"
proof (cases u)
  case (TYPE_LENGTH_DELIMITED k v)
  let ?w = "of_nat (length v) :: 32 word"
  have len: "sint ?w = int (length v)"
    using assms(2) TYPE_LENGTH_DELIMITED by (simp add: signed_of_nat signed_take_bit_int_eq_self)
  have a: "stream_at s (leb128 (unat ?w) @ v @ bs)" using assms(1) TYPE_LENGTH_DELIMITED by simp
  have "of_nat (unat ?w) = ?w" by simp
  then show ?thesis
    using assms(2) TYPE_LENGTH_DELIMITED read_varint(1) [OF a unat_32_64] len
      read_string(2) [OF stream_at_Advance [OF a]]
    by (simp add: SkipField.simps GetTag_MakeTag wiretype_less Let_def AddLengthDelimited_def
        Advance_Advance)
      (simp add: wiretypes)
qed (use assms in \<open>simp_all add: SkipField.simps GetTag_MakeTag wiretype_less Let_def
   read_varint(2) [OF _ unat_64] read_fixed32 read_fixed64 length_le64
   skipped_def AddVarint_def AddFixed32_def AddFixed64_def\<close>, simp_all add: wiretypes le32_def)

lemma skip_scalar':
  assumes "field_ok d u" "stream_at s (field_body u @ bs)" "\<And>n g. u \<noteq> TYPE_GROUP n g"
  shows "\<exists>s'. behind s bs s' \<and> SkipField n (field_tag u) s us = Some ((True, us @ [u]), s')"
  using skip_scalar [OF assms(2,1,3)] behind_Advance [OF assms(2)] by blast

lemma skip_fields:
  "\<lbrakk>fields_ok d us; stream_at s (SerializeUnknownFieldsToArray us @ bs); deep_enough d s;
    length (SerializeUnknownFieldsToArray us @ bs) < N\<rbrakk>
   \<Longrightarrow> \<exists>s' M. behind s bs s' \<and> SkipMessage N s u0 = SkipMessage M s' (u0 @ us) \<and> length bs < M"
  "\<lbrakk>field_ok d u; stream_at s (field_body u @ bs); deep_enough d s; length (field_body u @ bs) < N\<rbrakk>
   \<Longrightarrow> \<exists>s'. behind s bs s' \<and> SkipField N (field_tag u) s u0 = Some ((True, u0 @ [u]), s')"
proof (induction d us and d u arbitrary: s bs N u0 and s bs N u0 rule: fields_ok_field_ok.induct)
  case (1 d)
  then show ?case by (intro exI [of _ s] exI [of _ N]) (simp add: behind_def)
next
  case (2 d u us)
  let ?bs = "SerializeUnknownFieldsToArray us @ bs"
  let ?tag = "field_tag u" and ?s1 = "(Advance (length (leb128 (unat (field_tag u)))) s)\<lparr>last_tag := field_tag u\<rparr>"
  obtain n where N: "N = Suc n" using 2(6) by (cases N) simp_all
  have at: "stream_at s (leb128 (unat ?tag) @ field_body u @ ?bs)"
    using 2(4) by (simp add: serialize_unknown_field_split)
  have s1: "behind s (field_body u @ ?bs) ?s1" by (rule behind_tag [OF at])
  have len: "length (field_body u @ ?bs) < n"
    using 2(6) leb128_nonempty [of "unat ?tag"] by (simp add: N serialize_unknown_field_split del: length_greater_0_conv)
  have ok: "field_ok d u" "fields_ok d us" using 2(3) by simp_all
  obtain s2 where s2: "behind ?s1 ?bs s2" "SkipField n ?tag ?s1 u0 = Some ((True, u0 @ [u]), s2)"
    using 2(1) [OF ok(1) behind_at [OF s1] behind_deep [OF s1 2(5)] len] by blast
  have s3: "behind s ?bs s2" by (rule behind_trans [OF s1 s2(1)])
  obtain s' M where "behind s2 bs s'" "SkipMessage n s2 (u0 @ [u]) = SkipMessage M s' ((u0 @ [u]) @ us)" "length bs < M"
    using 2(2) [OF ok(2) behind_at [OF s3] behind_deep [OF s3 2(5)], of n "u0 @ [u]"] len by auto
  moreover have "SkipMessage N s u0 = SkipMessage n s2 (u0 @ [u])"
    unfolding N by (rule skip_step [OF at field_tag_nonzero [OF ok(1)] field_tag_no_end [OF ok(1)] s2(2)])
  ultimately show ?case using behind_trans [OF s3] by auto
next
  case (7 d n g)
  then obtain d' where d: "d = Suc d'" and ok: "fields_ok d' g" "take_bit 29 n = n"
    by (cases d) simp_all
  let ?close = "MakeTag n WIRETYPE_END_GROUP"
  let ?bs = "leb128 (unat ?close) @ bs"
  let ?s1 = "s\<lparr>recursion_depth := recursion_depth s + 1\<rparr>"
  have at: "stream_at ?s1 (SerializeUnknownFieldsToArray g @ ?bs)" using 7(3) by simp
  have deep: "deep_enough d' ?s1" using 7(4) by (simp add: deep_enough_def d)
  obtain s2 M where s2: "behind ?s1 ?bs s2" "SkipMessage N ?s1 [] = SkipMessage M s2 g" "length ?bs < M"
    using 7(1) [OF d ok(1) at deep, of N "[]"] 7(5) by auto
  let ?s3 = "(Advance (length (leb128 (unat ?close))) s2)\<lparr>last_tag := ?close\<rparr>"
  have s3: "behind ?s1 bs ?s3" by (rule behind_trans [OF s2(1) behind_tag [OF behind_at [OF s2(1)]]])
  have "?close \<noteq> 0" using ok by (simp add: MakeTag_wiretype wiretype_less wiretype_nonzero)
  then have "SkipMessage M s2 g = Some ((True, g), ?s3)"
    using s2(3) read_tag [OF behind_at [OF s2(1)]] ok
    by (cases M) (simp_all add: SkipMessage.simps GetTag_MakeTag wiretype_less)
  then have "SkipField N (field_tag (TYPE_GROUP n g)) s u0
      = Some ((True, u0 @ [TYPE_GROUP n g]), DecrementRecursionDepth ?s3)"
    using s2(2) 7(4) ok
    by (simp add: SkipField.simps GetTag_MakeTag wiretype_less Let_def IncrementRecursionDepth_def
        LastTagWas_def DecrementRecursionDepth_def deep_enough_def d AddGroup_def)
      (simp add: wiretypes)
  moreover have "behind s bs (DecrementRecursionDepth ?s3)"
    using s3 7(4) by (simp add: behind_def DecrementRecursionDepth_def deep_enough_def)
  ultimately show ?case by blast
qed (rule skip_scalar', assumption, assumption, simp)+

lemma skip_end:
  assumes "stream_at s []"
  shows "\<exists>s'. SkipMessage (Suc M) s u = Some ((True, u), s')"
  using flat_ReadTag [of s] assms by (auto simp: stream_at_def SkipMessage.simps)

section \<open>The wire format is faithful\<close>

text \<open>The reader takes the bytes that were written, exactly, and gives the value back.\<close>

definition reads_back ::
    "(CodedInputStream \<Rightarrow> ('v option \<times> CodedInputStream) option) \<Rightarrow> byte list \<Rightarrow> 'v \<Rightarrow> bool" where
  "reads_back rd bytes v \<longleftrightarrow>
     (\<forall>s tail. stream_at s (bytes @ tail) \<longrightarrow> rd s = Some (Some v, Advance (length bytes) s))"

lemma reads_back_varint:
  "reads_back ReadVarint32 (leb128 (unat v)) v" "reads_back ReadVarint64 (leb128 (unat w)) w"
  by (simp_all add: reads_back_def read_varint(1) [OF _ unat_32_64] read_varint(2) [OF _ unat_64])

lemma reads_back_signed: "reads_back ReadVarint32 (WriteVarint32SignExtendedToArray v) v"
  using sign_extended_leb128 [of v] by (auto simp: reads_back_def read_varint(1))

lemma reads_back_fixed:
  "reads_back ReadLittleEndian32 (WriteLittleEndian32ToArray v) v"
  "reads_back ReadLittleEndian64 (WriteLittleEndian64ToArray w) w"
  by (simp_all add: reads_back_def read_fixed32 read_fixed64 length_le64 WriteLittleEndian32ToArray_def length_le32)

lemma reads_back_map:
  assumes "reads_back rd bytes x" "f x = v"
  shows "reads_back (\<lambda>s. map_option (\<lambda>(r, s1). (map_option f r, s1)) (rd s)) bytes v"
  using assms by (simp add: reads_back_def)

lemma read_WFL_string:
  assumes at: "stream_at s (leb128 (unat (of_nat (length v) :: 32 word)) @ v @ tail)" and "length v < 2 ^ 31"
  shows "WFL_ReadString str s
    = Some ((True, v), Advance (length (leb128 (unat (of_nat (length v) :: 32 word)) @ v)) s)"
proof -
  let ?w = "of_nat (length v) :: 32 word"
  have len: "sint ?w = int (length v)"
    using assms(2) by (simp add: signed_of_nat signed_take_bit_int_eq_self)
  show ?thesis
    using read_varint(1) [OF at unat_32_64] read_string(1) [OF stream_at_Advance [OF at]] len
    by (simp add: WFL_ReadString_def Advance_Advance)
qed

lemma WFL_ReadBytes_String: "WFL_ReadBytes = WFL_ReadString"
  by (simp add: fun_eq_iff WFL_ReadBytes_def WFL_ReadString_def)

lemmas primitive_readers = ReadPrimitive_INT32_def [abs_def] ReadPrimitive_INT64_def [abs_def]
  ReadPrimitive_UINT32_def [abs_def] ReadPrimitive_UINT64_def [abs_def] ReadPrimitive_SINT32_def [abs_def]
  ReadPrimitive_SINT64_def [abs_def] ReadPrimitive_FIXED32_def [abs_def] ReadPrimitive_FIXED64_def [abs_def]
  ReadPrimitive_SFIXED32_def [abs_def] ReadPrimitive_SFIXED64_def [abs_def] ReadPrimitive_BOOL_def [abs_def]
  ReadPrimitive_ENUM_def [abs_def]

lemmas primitive_writers = WriteInt32NoTagToArray_def WriteInt64NoTagToArray_def
  WriteUInt32NoTagToArray_def WriteUInt64NoTagToArray_def WriteSInt32NoTagToArray_def
  WriteSInt64NoTagToArray_def WriteFixed32NoTagToArray_def WriteFixed64NoTagToArray_def
  WriteSFixed32NoTagToArray_def WriteSFixed64NoTagToArray_def WriteBoolNoTagToArray_def
  WriteEnumNoTagToArray_def

text \<open>
  C16. Every scalar field type reads back what it wrote: for each of the twelve non-floating types the
  instance of \<open>ReadPrimitive\<close> applied where \<open>Write*NoTagToArray\<close> put a value returns that value and
  stops exactly behind the written bytes, whatever follows them; negative 32-bit values, which are
  written as ten bytes, included.
\<close>

theorem primitive_roundtrip:
  "reads_back ReadPrimitive_INT32 (WriteInt32NoTagToArray i32) i32
   \<and> reads_back ReadPrimitive_INT64 (WriteInt64NoTagToArray i64) i64
   \<and> reads_back ReadPrimitive_UINT32 (WriteUInt32NoTagToArray i32) i32
   \<and> reads_back ReadPrimitive_UINT64 (WriteUInt64NoTagToArray i64) i64
   \<and> reads_back ReadPrimitive_SINT32 (WriteSInt32NoTagToArray i32) i32
   \<and> reads_back ReadPrimitive_SINT64 (WriteSInt64NoTagToArray i64) i64
   \<and> reads_back ReadPrimitive_FIXED32 (WriteFixed32NoTagToArray i32) i32
   \<and> reads_back ReadPrimitive_FIXED64 (WriteFixed64NoTagToArray i64) i64
   \<and> reads_back ReadPrimitive_SFIXED32 (WriteSFixed32NoTagToArray i32) i32
   \<and> reads_back ReadPrimitive_SFIXED64 (WriteSFixed64NoTagToArray i64) i64
   \<and> reads_back ReadPrimitive_BOOL (WriteBoolNoTagToArray b) b
   \<and> reads_back ReadPrimitive_ENUM (WriteEnumNoTagToArray i32) i32"
  unfolding primitive_readers primitive_writers writes_leb128
  by (intro conjI) (rule reads_back_varint reads_back_signed reads_back_fixed
      reads_back_map [OF reads_back_varint(1)] reads_back_map [OF reads_back_varint(2)] ZigZag32 ZigZag64 | simp)+

text \<open>
  C15. Fields the receiver does not know survive: the serialised form of a set of unknown fields has the
  length \<open>ComputeUnknownFieldsSize\<close> announces, and skipping over it with \<open>SkipMessage\<close> (whose budget
  exceeds the number of bytes) records the same set again, groups nested up to the recursion limit of
  the stream included.
\<close>

theorem unknown_fields_roundtrip:
  assumes "fields_ok (nat default_recursion_limit) us"
    and "length (SerializeUnknownFieldsToArray us) < n"
  shows "length (SerializeUnknownFieldsToArray us) = ComputeUnknownFieldsSize us
    \<and> (\<exists>s'. SkipMessage n (CodedInputStream_array (SerializeUnknownFieldsToArray us)) [] = Some ((True, us), s'))"
proof -
  let ?s = "CodedInputStream_array (SerializeUnknownFieldsToArray us)"
  have at: "stream_at ?s (SerializeUnknownFieldsToArray us @ [])" using stream_at_array by simp
  have deep: "deep_enough (nat default_recursion_limit) ?s"
    by (simp add: deep_enough_def CodedInputStream_array_def default_recursion_limit_def)
  obtain s' M where "behind ?s [] s'" "SkipMessage n ?s [] = SkipMessage M s' us" "0 < M"
    using skip_fields(1) [OF assms(1) at deep, of n "[]"] assms(2) by auto
  then show ?thesis using skip_end [OF behind_at] length_unknown_fields(1) by (cases M) auto
qed

theorem unknown_fields_roundtrip_witness:
  "\<exists>s'. SkipMessage 40 (CodedInputStream_array (SerializeUnknownFieldsToArray
      [TYPE_VARINT 7 300, TYPE_GROUP 9 [TYPE_LENGTH_DELIMITED 1 [0x61, 0x62], TYPE_FIXED32 2 5]])) []
    = Some ((True, [TYPE_VARINT 7 300, TYPE_GROUP 9 [TYPE_LENGTH_DELIMITED 1 [0x61, 0x62], TYPE_FIXED32 2 5]]), s')"
proof -
  let ?us = "[TYPE_VARINT 7 300, TYPE_GROUP 9 [TYPE_LENGTH_DELIMITED 1 [0x61, 0x62], TYPE_FIXED32 2 5]]"
  have "fields_ok (nat default_recursion_limit) ?us"
    by (simp add: default_recursion_limit_def)
  moreover have "length (SerializeUnknownFieldsToArray ?us) < 40"
    unfolding length_unknown_fields by (simp add: VarintSize32_def VarintSize32Fallback_def VarintSize64_def
        MakeTag_def wiretypes kTagTypeBits_def)
  ultimately show ?thesis using unknown_fields_roundtrip by blast
qed

text \<open>
  C20. Skipping fields is total: on any bytes at all, \<open>SkipMessage\<close> and \<open>SkipField\<close> return, with
  success or failure, without an access outside the buffer; the stream they leave is well formed and
  holds no more bytes than before. The budget only has to exceed the number of bytes.
\<close>

theorem skip_safe:
  "(\<exists>r s'. SkipMessage (Suc (length bytes)) (CodedInputStream_array bytes) us = Some (r, s')
     \<and> flat s' \<and> length (rest s') \<le> length bytes)
   \<and> (\<exists>r s'. SkipField (Suc (length bytes)) tag (CodedInputStream_array bytes) us = Some (r, s')
     \<and> flat s' \<and> length (rest s') \<le> length bytes)"
  using skip_total [of "CodedInputStream_array bytes" "Suc (length bytes)"] flat_array [of bytes]
  by (auto simp: shrinks_def)

end
