(* ===== verification/JME_RpcPb.thy ===== *)
theory JME_RpcPb
  imports Proto_WireFormat
begin

text \<open>
  The message the RPC layer exchanges, \<open>jme_rpc\<close> (\<open>source/rpc/JME_RpcPb.cpp\<close>, \<open>include/rpc/JME_RpcPb.h\<close>),
  and the part of \<open>MessageLite\<close> (\<open>include/google/protobuf/message_lite.cc\<close>) that parses and serialises
  it. A string field is a pointer which may be the shared empty string: \<^term>\<open>None\<close>. A parse answers
  whether it succeeded and the message, which keeps what was read when it fails. The outer \<^term>\<open>None\<close>
  is a crash: an access outside a buffer, an overflow of \<open>int\<close> or a failed fatal check.
\<close>

section \<open>The message\<close>

record jme_rpc =
  rpc_unknown_fields :: UnknownFieldSet
  method_ptr :: "block option"
  params_ptr :: "block option"
  rpc_id_field :: "32 word"
  cached_size :: nat
  has_bits :: "32 word"

definition SharedCtor :: jme_rpc where
  "SharedCtor = \<lparr>rpc_unknown_fields = [], method_ptr = None, params_ptr = None, rpc_id_field = 0,
     cached_size = 0, has_bits = 0\<rparr>"

definition jme_rpc_new :: jme_rpc where
  "jme_rpc_new = SharedCtor"

definition has_rpc_id :: "jme_rpc \<Rightarrow> bool" where
  "has_rpc_id m \<longleftrightarrow> has_bits m AND 1 \<noteq> 0"
definition set_has_rpc_id :: "jme_rpc \<Rightarrow> jme_rpc" where
  "set_has_rpc_id m = m\<lparr>has_bits := has_bits m OR 1\<rparr>"
definition clear_has_rpc_id :: "jme_rpc \<Rightarrow> jme_rpc" where
  "clear_has_rpc_id m = m\<lparr>has_bits := has_bits m AND NOT 1\<rparr>"
definition clear_rpc_id :: "jme_rpc \<Rightarrow> jme_rpc" where
  "clear_rpc_id m = clear_has_rpc_id (m\<lparr>rpc_id_field := 0\<rparr>)"
definition rpc_id :: "jme_rpc \<Rightarrow> 32 word" where
  "rpc_id m = rpc_id_field m"
definition set_rpc_id :: "32 word \<Rightarrow> jme_rpc \<Rightarrow> jme_rpc" where
  "set_rpc_id v m = (set_has_rpc_id m)\<lparr>rpc_id_field := v\<rparr>"

definition string_of_ptr :: "block option \<Rightarrow> block" where
  "string_of_ptr p = (case p of None \<Rightarrow> [] | Some v \<Rightarrow> v)"

definition has_method :: "jme_rpc \<Rightarrow> bool" where
  "has_method m \<longleftrightarrow> has_bits m AND 2 \<noteq> 0"
definition set_has_method :: "jme_rpc \<Rightarrow> jme_rpc" where
  "set_has_method m = m\<lparr>has_bits := has_bits m OR 2\<rparr>"
definition clear_has_method :: "jme_rpc \<Rightarrow> jme_rpc" where
  "clear_has_method m = m\<lparr>has_bits := has_bits m AND NOT 2\<rparr>"
definition clear_method :: "jme_rpc \<Rightarrow> jme_rpc" where
  "clear_method m = clear_has_method (if method_ptr m \<noteq> None then m\<lparr>method_ptr := Some []\<rparr> else m)"
definition method_of :: "jme_rpc \<Rightarrow> block" where
  "method_of m = string_of_ptr (method_ptr m)"
definition set_method :: "block \<Rightarrow> jme_rpc \<Rightarrow> jme_rpc" where
  "set_method v m =
     (let m1 = set_has_method m;
          m2 = (if method_ptr m1 = None then m1\<lparr>method_ptr := Some []\<rparr> else m1) in
      m2\<lparr>method_ptr := Some v\<rparr>)"
definition mutable_method :: "jme_rpc \<Rightarrow> jme_rpc" where
  "mutable_method m =
     (let m1 = set_has_method m in
      if method_ptr m1 = None then m1\<lparr>method_ptr := Some []\<rparr> else m1)"
definition release_method :: "jme_rpc \<Rightarrow> block option \<times> jme_rpc" where
  "release_method m =
     (let m1 = clear_has_method m in
      if method_ptr m1 = None then (None, m1) else (method_ptr m1, m1\<lparr>method_ptr := None\<rparr>))"
definition set_allocated_method :: "block option \<Rightarrow> jme_rpc \<Rightarrow> jme_rpc" where
  "set_allocated_method p m =
     (if p \<noteq> None then (set_has_method m)\<lparr>method_ptr := p\<rparr>
      else (clear_has_method m)\<lparr>method_ptr := None\<rparr>)"

definition has_params :: "jme_rpc \<Rightarrow> bool" where
  "has_params m \<longleftrightarrow> has_bits m AND 4 \<noteq> 0"
definition set_has_params :: "jme_rpc \<Rightarrow> jme_rpc" where
  "set_has_params m = m\<lparr>has_bits := has_bits m OR 4\<rparr>"
definition clear_has_params :: "jme_rpc \<Rightarrow> jme_rpc" where
  "clear_has_params m = m\<lparr>has_bits := has_bits m AND NOT 4\<rparr>"
definition clear_params :: "jme_rpc \<Rightarrow> jme_rpc" where
  "clear_params m = clear_has_params (if params_ptr m \<noteq> None then m\<lparr>params_ptr := Some []\<rparr> else m)"
definition params_of :: "jme_rpc \<Rightarrow> block" where
  "params_of m = string_of_ptr (params_ptr m)"
definition set_params :: "block \<Rightarrow> jme_rpc \<Rightarrow> jme_rpc" where
  "set_params v m =
     (let m1 = set_has_params m;
          m2 = (if params_ptr m1 = None then m1\<lparr>params_ptr := Some []\<rparr> else m1) in
      m2\<lparr>params_ptr := Some v\<rparr>)"
definition mutable_params :: "jme_rpc \<Rightarrow> jme_rpc" where
  "mutable_params m =
     (let m1 = set_has_params m in
      if params_ptr m1 = None then m1\<lparr>params_ptr := Some []\<rparr> else m1)"
definition release_params :: "jme_rpc \<Rightarrow> block option \<times> jme_rpc" where
  "release_params m =
     (let m1 = clear_has_params m in
      if params_ptr m1 = None then (None, m1) else (params_ptr m1, m1\<lparr>params_ptr := None\<rparr>))"
definition set_allocated_params :: "block option \<Rightarrow> jme_rpc \<Rightarrow> jme_rpc" where
  "set_allocated_params p m =
     (if p \<noteq> None then (set_has_params m)\<lparr>params_ptr := p\<rparr>
      else (clear_has_params m)\<lparr>params_ptr := None\<rparr>)"

definition Clear :: "jme_rpc \<Rightarrow> jme_rpc" where
  "Clear m =
     (let m1 =
        (if has_bits m AND 0xff \<noteq> 0 then
           (let a = m\<lparr>rpc_id_field := 0\<rparr>;
                b = (if has_method a \<and> method_ptr a \<noteq> None then a\<lparr>method_ptr := Some []\<rparr> else a) in
            if has_params b \<and> params_ptr b \<noteq> None then b\<lparr>params_ptr := Some []\<rparr> else b)
         else m) in
      m1\<lparr>has_bits := 0, rpc_unknown_fields := []\<rparr>)"




definition IsInitialized :: "jme_rpc \<Rightarrow> bool" where
  "IsInitialized m \<longleftrightarrow> has_bits m AND 7 = 7"

definition Swap :: "jme_rpc \<Rightarrow> jme_rpc \<Rightarrow> jme_rpc \<times> jme_rpc" where
  "Swap m other =
     (m\<lparr>rpc_id_field := rpc_id_field other, method_ptr := method_ptr other, params_ptr := params_ptr other,
        has_bits := has_bits other, rpc_unknown_fields := rpc_unknown_fields other,
        cached_size := cached_size other\<rparr>,
      other\<lparr>rpc_id_field := rpc_id_field m, method_ptr := method_ptr m, params_ptr := params_ptr m,
        has_bits := has_bits m, rpc_unknown_fields := rpc_unknown_fields m,
        cached_size := cached_size m\<rparr>)"

section \<open>Serialising\<close>

definition ByteSize :: "jme_rpc \<Rightarrow> (nat \<times> jme_rpc) option" where
  "ByteSize m =
     (let t1 = (if has_bits m AND 0xff \<noteq> 0 then
                  (if has_rpc_id m then 1 + Int32Size (rpc_id m) else 0)
                  + (if has_method m then 1 + StringSize (method_of m) else 0)
                  + (if has_params m then 1 + BytesSize (params_of m) else 0)
                else 0);
          total_size = t1 + (if rpc_unknown_fields m \<noteq> []
                             then ComputeUnknownFieldsSize (rpc_unknown_fields m) else 0) in
      if total_size < 2 ^ 31 then Some (total_size, m\<lparr>cached_size := total_size\<rparr>) else None)"

definition SerializeWithCachedSizesToArray :: "jme_rpc \<Rightarrow> byte list" where
  "SerializeWithCachedSizesToArray m =
     (if has_rpc_id m then WriteInt32ToArray 1 (rpc_id m) else [])
     @ (if has_method m then WriteStringToArray 2 (method_of m) else [])
     @ (if has_params m then WriteBytesToArray 3 (params_of m) else [])
     @ (if rpc_unknown_fields m \<noteq> [] then SerializeUnknownFieldsToArray (rpc_unknown_fields m) else [])"

text \<open>
  The output string is resized to what \<open>ByteSize\<close> announced and written in place; any other number of
  bytes is an overrun or ends in the fatal \<open>ByteSizeConsistencyError\<close>.
\<close>

definition AppendPartialToString :: "block \<Rightarrow> jme_rpc \<Rightarrow> (block \<times> jme_rpc) option" where
  "AppendPartialToString out m = do {
     (byte_size, m1) \<leftarrow> ByteSize m;
     _ \<leftarrow> (if length out + byte_size < 2 ^ 31 then Some () else None);
     let bytes = SerializeWithCachedSizesToArray m1;
     if length bytes = byte_size then Some (out @ bytes, m1) else None
   }"

text \<open>\<open>debug\<close>: compiled with the debug checks of protobuf, which make a missing required field fatal.\<close>

definition AppendToString :: "bool \<Rightarrow> block \<Rightarrow> jme_rpc \<Rightarrow> (block \<times> jme_rpc) option" where
  "AppendToString debug out m =
     (if debug \<and> \<not> IsInitialized m then None else AppendPartialToString out m)"

definition SerializeToString :: "bool \<Rightarrow> jme_rpc \<Rightarrow> (block \<times> jme_rpc) option" where
  "SerializeToString debug m = AppendToString debug [] m"

definition SerializeAsString :: "bool \<Rightarrow> jme_rpc \<Rightarrow> (block \<times> jme_rpc) option" where
  "SerializeAsString debug m = AppendToString debug [] m"

section \<open>Parsing\<close>

text \<open>How the body of the \<open>switch\<close> ends: with a \<open>return\<close> or with \<open>break\<close>.\<close>

datatype flow = Return bool jme_rpc | Break jme_rpc

definition parse_params :: "CodedInputStream \<Rightarrow> jme_rpc \<Rightarrow> (flow \<times> CodedInputStream) option" where
  "parse_params s m = do {
     let m0 = mutable_params m;
     ((ok, v), s1) \<leftarrow> WFL_ReadBytes (params_of m0) s;
     let m1 = m0\<lparr>params_ptr := Some v\<rparr>;
     if \<not> ok then Some (Return False m1, s1)
     else (let (at_end, s2) = ExpectAtEnd s1 in Some (if at_end then Return True m1 else Break m1, s2))
   }"

definition parse_method :: "CodedInputStream \<Rightarrow> jme_rpc \<Rightarrow> (flow \<times> CodedInputStream) option" where
  "parse_method s m = do {
     let m0 = mutable_method m;
     ((ok, v), s1) \<leftarrow> WFL_ReadString (method_of m0) s;
     let m1 = m0\<lparr>method_ptr := Some v\<rparr>;
     if \<not> ok then Some (Return False m1, s1)
     else do {
       (expected, s2) \<leftarrow> ExpectTag 26 s1;
       if expected then parse_params s2 m1 else Some (Break m1, s2)
     }
   }"

definition parse_rpc_id :: "CodedInputStream \<Rightarrow> jme_rpc \<Rightarrow> (flow \<times> CodedInputStream) option" where
  "parse_rpc_id s m = do {
     (r, s1) \<leftarrow> ReadPrimitive_INT32 s;
     case r of
       None \<Rightarrow> Some (Return False m, s1)
     | Some v \<Rightarrow> do {
         let m1 = set_has_rpc_id (m\<lparr>rpc_id_field := v\<rparr>);
         (expected, s2) \<leftarrow> ExpectTag 18 s1;
         if expected then parse_method s2 m1 else Some (Break m1, s2)
       }
   }"

definition handle_uninterpreted ::
    "nat \<Rightarrow> 32 word \<Rightarrow> CodedInputStream \<Rightarrow> jme_rpc \<Rightarrow> (flow \<times> CodedInputStream) option" where
  "handle_uninterpreted n tag s m =
     (if GetTagWireType tag = WIRETYPE_END_GROUP then Some (Return True m, s)
      else do {
        ((ok, u), s1) \<leftarrow> SkipField n tag s (rpc_unknown_fields m);
        let m1 = m\<lparr>rpc_unknown_fields := u\<rparr>;
        Some (if ok then Break m1 else Return False m1, s1)
      })"

definition merge_field ::
    "nat \<Rightarrow> 32 word \<Rightarrow> CodedInputStream \<Rightarrow> jme_rpc \<Rightarrow> (flow \<times> CodedInputStream) option" where
  "merge_field n tag s m =
     (if GetTagFieldNumber tag = 1 \<and> GetTagWireType tag = WIRETYPE_VARINT then parse_rpc_id s m
      else if GetTagFieldNumber tag = 2 \<and> GetTagWireType tag = WIRETYPE_LENGTH_DELIMITED then parse_method s m
      else if GetTagFieldNumber tag = 3 \<and> GetTagWireType tag = WIRETYPE_LENGTH_DELIMITED then parse_params s m
      else handle_uninterpreted n tag s m)"

text \<open>The loop over the tags. The fuel counts tags; there are never more tags than bytes.\<close>

fun MergePartialFromCodedStream ::
    "nat \<Rightarrow> CodedInputStream \<Rightarrow> jme_rpc \<Rightarrow> ((bool \<times> jme_rpc) \<times> CodedInputStream) option" where
  "MergePartialFromCodedStream 0 s m = None"
| "MergePartialFromCodedStream (Suc n) s m = do {
     (tag, s1) \<leftarrow> ReadTag s;
     if tag = 0 then Some ((True, m), s1)
     else do {
       (f, s2) \<leftarrow> merge_field n tag s1 m;
       case f of
         Return ok m1 \<Rightarrow> Some ((ok, m1), s2)
       | Break m1 \<Rightarrow> MergePartialFromCodedStream n s2 m1
     }
   }"

definition InlineMergeFromCodedStream ::
    "nat \<Rightarrow> CodedInputStream \<Rightarrow> jme_rpc \<Rightarrow> ((bool \<times> jme_rpc) \<times> CodedInputStream) option" where
  "InlineMergeFromCodedStream n s m = do {
     ((ok, m1), s1) \<leftarrow> MergePartialFromCodedStream n s m;
     Some ((ok \<and> IsInitialized m1, m1), s1)
   }"

definition InlineParseFromCodedStream ::
    "nat \<Rightarrow> CodedInputStream \<Rightarrow> jme_rpc \<Rightarrow> ((bool \<times> jme_rpc) \<times> CodedInputStream) option" where
  "InlineParseFromCodedStream n s m = InlineMergeFromCodedStream n s (Clear m)"

definition InlineParseFromArray :: "block \<Rightarrow> jme_rpc \<Rightarrow> (bool \<times> jme_rpc) option" where
  "InlineParseFromArray bytes m = do {
     ((ok, m1), s1) \<leftarrow> InlineParseFromCodedStream (Suc (length bytes)) (CodedInputStream_array bytes) m;
     Some (ok \<and> ConsumedEntireMessage s1, m1)
   }"

text \<open>The length of the string is passed on as an \<open>int\<close>.\<close>

definition ParseFromString :: "block \<Rightarrow> jme_rpc \<Rightarrow> (bool \<times> jme_rpc) option" where
  "ParseFromString bytes m = (if length bytes < 2 ^ 31 then InlineParseFromArray bytes m else None)"

section \<open>The fields and their presence bits\<close>

lemma has_bit:
  "has_rpc_id m \<longleftrightarrow> bit (has_bits m) 0" "has_method m \<longleftrightarrow> bit (has_bits m) 1" "has_params m \<longleftrightarrow> bit (has_bits m) 2"
  using and_exp_eq_0_iff_not_bit [of "has_bits m" 0] and_exp_eq_0_iff_not_bit [of "has_bits m" 1]
    and_exp_eq_0_iff_not_bit [of "has_bits m" 2]
  by (simp_all add: has_rpc_id_def has_method_def has_params_def)

lemma bit_2_4: "bit (2 :: 32 word) i \<longleftrightarrow> i = 1" "bit (4 :: 32 word) i \<longleftrightarrow> i = 2"
  using bit_exp_iff [of 1 i, where 'a = "32 word"] bit_exp_iff [of 2 i, where 'a = "32 word"] by auto

lemma bits_7: "bit (7 :: 32 word) i \<longleftrightarrow> i < 3"
  using bit_mask_iff [of 3 i, where 'a = "32 word"] by (auto simp: mask_eq_exp_minus_1)

lemma bits_ff: "bit (0xff :: 32 word) i \<longleftrightarrow> i < 8"
  using bit_mask_iff [of 8 i, where 'a = "32 word"] by (auto simp: mask_eq_exp_minus_1)

lemma set_bits:
  "bit (w OR 1) i \<longleftrightarrow> bit (w :: 32 word) i \<or> i = 0" "bit (w OR 2) i \<longleftrightarrow> bit w i \<or> i = 1"
  "bit (w OR 4) i \<longleftrightarrow> bit w i \<or> i = 2"
  unfolding bit_or_iff bit_2_4 bit_1_iff by auto

lemma clear_bits:
  "bit (w AND - 2) i \<longleftrightarrow> bit (w :: 32 word) i \<and> i \<noteq> 0" "bit (w AND - 3) i \<longleftrightarrow> bit w i \<and> i \<noteq> 1"
  "bit (w AND - 5) i \<longleftrightarrow> bit w i \<and> i \<noteq> 2"
proof -
  have "- 2 = NOT (1 :: 32 word)" "- 3 = NOT (2 :: 32 word)" "- 5 = NOT (4 :: 32 word)" by simp_all
  then show "bit (w AND - 2) i \<longleftrightarrow> bit (w :: 32 word) i \<and> i \<noteq> 0" "bit (w AND - 3) i \<longleftrightarrow> bit w i \<and> i \<noteq> 1"
    "bit (w AND - 5) i \<longleftrightarrow> bit w i \<and> i \<noteq> 2"
    using bit_imp_le_length [of w i] by (simp_all only: bit_and_iff bit_not_iff bit_2_4 bit_1_iff) auto
qed

lemma IsInitialized_has: "IsInitialized m \<longleftrightarrow> has_rpc_id m \<and> has_method m \<and> has_params m"
proof -
  have "has_bits m AND 7 = 7 \<longleftrightarrow> (\<forall>i. i < 3 \<longrightarrow> bit (has_bits m) i)"
    unfolding bit_eq_iff [of "has_bits m AND 7"] bit_and_iff bits_7
    by auto (erule allE, erule impE, erule less_le_trans, simp, simp)
  also have "\<dots> \<longleftrightarrow> bit (has_bits m) 0 \<and> bit (has_bits m) 1 \<and> bit (has_bits m) 2"
    by (auto simp: numeral_3_eq_3 numeral_2_eq_2 less_Suc_eq)
  finally show ?thesis by (simp add: IsInitialized_def has_bit)
qed

lemma no_known_field:
  assumes "has_bits m AND 0xff = 0"
  shows "\<not> has_rpc_id m \<and> \<not> has_method m \<and> \<not> has_params m"
proof -
  have "\<not> bit (has_bits m) i" if "i < 8" for i
  proof
    assume "bit (has_bits m) i"
    then have "bit (has_bits m AND 0xff) i" using that by (simp only: bit_and_iff bits_ff)
    then show False by (simp add: assms)
  qed
  then show ?thesis by (simp add: has_bit)
qed

text \<open>
  What the operations keep: no bit is set but the three in use, and a field without its bit holds the
  default value.
\<close>

definition rpc_inv :: "jme_rpc \<Rightarrow> bool" where
  "rpc_inv m \<longleftrightarrow> take_bit 3 (has_bits m) = has_bits m \<and> (\<not> has_rpc_id m \<longrightarrow> rpc_id m = 0)
     \<and> (\<not> has_method m \<longrightarrow> method_of m = []) \<and> (\<not> has_params m \<longrightarrow> params_of m = [])"

text \<open>What a message says.\<close>

definition contents :: "jme_rpc \<Rightarrow> 32 word option \<times> block option \<times> block option \<times> UnknownFieldSet" where
  "contents m =
     (if has_rpc_id m then Some (rpc_id m) else None, if has_method m then Some (method_of m) else None,
      if has_params m then Some (params_of m) else None, rpc_unknown_fields m)"

lemmas rpc_ops = set_has_rpc_id_def clear_has_rpc_id_def clear_rpc_id_def rpc_id_def set_rpc_id_def
  set_has_method_def clear_has_method_def clear_method_def method_of_def set_method_def
  mutable_method_def release_method_def set_allocated_method_def
  set_has_params_def clear_has_params_def clear_params_def params_of_def set_params_def
  mutable_params_def release_params_def set_allocated_params_def string_of_ptr_def

lemmas rpc_bits = has_bit set_bits clear_bits

lemma take_bit_3: "take_bit 3 (w :: 32 word) = w \<longleftrightarrow> (\<forall>i. bit w i \<longrightarrow> i < 3)"
  by (metis bit_take_bit_iff bit_word_eqI)

lemma rpc_inv_bits:
  "rpc_inv m \<longleftrightarrow> (\<forall>i. bit (has_bits m) i \<longrightarrow> i < 3) \<and> (\<not> has_rpc_id m \<longrightarrow> rpc_id m = 0)
     \<and> (\<not> has_method m \<longrightarrow> method_of m = []) \<and> (\<not> has_params m \<longrightarrow> params_of m = [])"
  by (simp add: rpc_inv_def take_bit_3)

lemma contents_set:
  "contents (set_rpc_id v m) = (Some v, snd (contents m))"
  "contents (set_method x m) = (fst (contents m), Some x, snd (snd (contents m)))"
  "contents (set_params x m) = (fst (contents m), fst (snd (contents m)), Some x, snd (snd (snd (contents m))))"
  by (auto simp: contents_def rpc_ops rpc_bits Let_def)



lemma rpc_inv_new: "rpc_inv jme_rpc_new"
  by (simp add: rpc_inv_def jme_rpc_new_def SharedCtor_def rpc_ops)

lemma Clear_spec:
  assumes "rpc_inv m"
  shows "rpc_inv (Clear m)" "contents (Clear m) = (None, None, None, [])"
proof -
  show "rpc_inv (Clear m)"
    using assms no_known_field [of m] unfolding Clear_def
    by (auto simp: rpc_inv_def rpc_ops Let_def has_bit)
  show "contents (Clear m) = (None, None, None, [])"
    by (simp add: contents_def has_bit) (simp add: Clear_def Let_def)
qed




section \<open>Sizes and bytes\<close>

lemma rpc_tags:
  "WFL_WriteTagToArray 1 WIRETYPE_VARINT = [8]" "WFL_WriteTagToArray 2 WIRETYPE_LENGTH_DELIMITED = [18]"
  "WFL_WriteTagToArray 3 WIRETYPE_LENGTH_DELIMITED = [26]"
  by (simp_all add: WFL_tag_leb128 MakeTag_def wiretypes kTagTypeBits_def) (simp_all add: leb128.simps)

text \<open>The bytes of the present fields.\<close>

lemma rpc_bytes:
  "SerializeWithCachedSizesToArray m =
     (if has_rpc_id m then 8 # WriteInt32NoTagToArray (rpc_id m) else [])
     @ (if has_method m then 18 # leb128 (unat (of_nat (length (method_of m)) :: 32 word)) @ method_of m else [])
     @ (if has_params m then 26 # leb128 (unat (of_nat (length (params_of m)) :: 32 word)) @ params_of m else [])
     @ SerializeUnknownFieldsToArray (rpc_unknown_fields m)"
  by (simp add: SerializeWithCachedSizesToArray_def WriteInt32ToArray_def WriteStringToArray_def
      WriteBytesToArray_def rpc_tags WriteStringToArray_raw_def WriteRawToArray_def WriteVarint32ToArray_leb128)

lemma ByteSize_length:
  "ByteSize m = (if length (SerializeWithCachedSizesToArray m) < 2 ^ 31
     then Some (length (SerializeWithCachedSizesToArray m),
                m\<lparr>cached_size := length (SerializeWithCachedSizesToArray m)\<rparr>) else None)"
proof -
  have "(if has_bits m AND 0xff \<noteq> 0 then
           (if has_rpc_id m then 1 + Int32Size (rpc_id m) else 0)
           + (if has_method m then 1 + StringSize (method_of m) else 0)
           + (if has_params m then 1 + BytesSize (params_of m) else 0)
         else 0)
      + (if rpc_unknown_fields m \<noteq> [] then ComputeUnknownFieldsSize (rpc_unknown_fields m) else 0)
      = length (SerializeWithCachedSizesToArray m)"
    using no_known_field [of m]
    by (simp add: rpc_bytes length_unknown_fields Int32Size_def StringSize_def BytesSize_def
        length_sign_extended VarintSize32_leb128 WriteInt32NoTagToArray_def)
  then show ?thesis unfolding ByteSize_def Let_def by simp
qed

lemma serialize_cached [simp]:
  "SerializeWithCachedSizesToArray (m\<lparr>cached_size := n\<rparr>) = SerializeWithCachedSizesToArray m"
  by (simp add: SerializeWithCachedSizesToArray_def has_bit rpc_ops)

lemma AppendPartialToString_eq:
  "AppendPartialToString out m =
     (if length out + length (SerializeWithCachedSizesToArray m) < 2 ^ 31
      then Some (out @ SerializeWithCachedSizesToArray m,
                 m\<lparr>cached_size := length (SerializeWithCachedSizesToArray m)\<rparr>) else None)"
  by (simp add: AppendPartialToString_def ByteSize_length Let_def)

section \<open>Parsing is total\<close>

lemma shrinks_after:
  "shrinks s s1 \<Longrightarrow> \<exists>r s'. x = Some (r, s') \<and> shrinks s1 s' \<Longrightarrow> \<exists>r s'. x = Some (r, s') \<and> shrinks s s'"
  by (auto simp: shrinks_def)

lemma WFL_string_shrinks:
  assumes "flat s"
  shows "\<exists>r s'. WFL_ReadString str s = Some (r, s') \<and> shrinks s s'"
proof -
  obtain r s1 where r: "ReadVarint32 s = Some (r, s1)" "shrinks s s1" using varint_shrinks [OF assms] by blast
  then have "flat s1" by (simp add: shrinks_def)
  then show ?thesis
    using r shrinks_after [OF r(2) string_shrinks(1)] by (cases r) (simp_all add: WFL_ReadString_def ex_bool_eq)
qed

lemma expect_shrinks:
  assumes "flat s"
  shows "t < 2 ^ 7 \<Longrightarrow> \<exists>b s'. ExpectTag t s = Some (b, s') \<and> shrinks s s'"
    and "shrinks s (snd (ExpectAtEnd s))"
  using flat_ExpectTag [OF assms, of t] flat_ExpectAtEnd [OF assms] shrinks_Advance [OF assms, of 1] shrinks_refl [OF assms]
  by auto

text \<open>A step that reads a well-formed stream, and what it does to the message.\<close>

definition parses :: "(flow \<times> CodedInputStream) option \<Rightarrow> CodedInputStream \<Rightarrow> bool" where
  "parses r s \<longleftrightarrow> (\<exists>f s'. r = Some (f, s') \<and> shrinks s s'
     \<and> (case f of Return _ m \<Rightarrow> rpc_inv m | Break m \<Rightarrow> rpc_inv m))"

lemma parsesI [intro]:
  "shrinks s s' \<Longrightarrow> rpc_inv m \<Longrightarrow> parses (Some (Return b m, s')) s"
  "shrinks s s' \<Longrightarrow> rpc_inv m \<Longrightarrow> parses (Some (Break m, s')) s"
  by (simp_all add: parses_def)

lemma parses_after: "shrinks s s1 \<Longrightarrow> parses r s1 \<Longrightarrow> parses r s"
  by (auto simp: parses_def shrinks_def)

lemma rpc_inv_store:
  assumes "rpc_inv m"
  shows "rpc_inv ((mutable_params m)\<lparr>params_ptr := Some v\<rparr>)" "rpc_inv ((mutable_method m)\<lparr>method_ptr := Some v\<rparr>)"
    "rpc_inv (set_has_rpc_id (m\<lparr>rpc_id_field := i\<rparr>))" "rpc_inv (m\<lparr>rpc_unknown_fields := u\<rparr>)"
  using assms by (auto simp: rpc_inv_bits rpc_ops rpc_bits Let_def split: option.splits)

lemma parse_params_parses:
  assumes "flat s" "rpc_inv m"
  shows "parses (parse_params s m) s"
proof -
  obtain ok v s1 where r: "WFL_ReadString (params_of (mutable_params m)) s = Some ((ok, v), s1)" "shrinks s s1"
    using WFL_string_shrinks [OF assms(1)] by (metis prod.collapse)
  obtain e s2 where e: "ExpectAtEnd s1 = (e, s2)" by force
  have "shrinks s s2"
    using expect_shrinks(2) [of s1] shrinks_trans [OF r(2), of s2] r(2) e by (simp add: shrinks_def)
  then show ?thesis
    using r e rpc_inv_store(1) [OF assms(2)]
    by (auto simp: parse_params_def WFL_ReadBytes_String Let_def)
qed

lemma parse_method_parses:
  assumes "flat s" "rpc_inv m"
  shows "parses (parse_method s m) s"
proof -
  obtain ok v s1 where r: "WFL_ReadString (method_of (mutable_method m)) s = Some ((ok, v), s1)" "shrinks s s1"
    using WFL_string_shrinks [OF assms(1)] by (metis prod.collapse)
  obtain b s2 where b: "ExpectTag 26 s1 = Some (b, s2)" "shrinks s1 s2"
    using expect_shrinks(1) [of s1 26] r(2) by (auto simp: shrinks_def)
  have "flat s2" using b by (simp add: shrinks_def)
  then show ?thesis
    using r b(1) shrinks_trans [OF r(2) b(2)] rpc_inv_store(2) [OF assms(2)]
      parses_after [OF shrinks_trans [OF r(2) b(2)] parse_params_parses]
    by (auto simp: parse_method_def Let_def)
qed

lemma parse_rpc_id_parses:
  assumes "flat s" "rpc_inv m"
  shows "parses (parse_rpc_id s m) s"
proof -
  obtain r s1 where r: "ReadPrimitive_INT32 s = Some (r, s1)" "shrinks s s1"
    using varint_shrinks [OF assms(1)] unfolding ReadPrimitive_INT32_def by blast
  obtain b s2 where b: "ExpectTag 18 s1 = Some (b, s2)" "shrinks s1 s2"
    using expect_shrinks(1) [of s1 18] r(2) by (auto simp: shrinks_def)
  have "flat s2" using b by (simp add: shrinks_def)
  then show ?thesis
    using r b(1) shrinks_trans [OF r(2) b(2)] rpc_inv_store(3) [OF assms(2)] assms(2)
      parses_after [OF shrinks_trans [OF r(2) b(2)] parse_method_parses]
    by (cases r) (auto simp: parse_rpc_id_def Let_def)
qed

lemma merge_field_parses:
  assumes "flat s" "length (rest s) < n" "rpc_inv m"
  shows "parses (merge_field n tag s m) s"
proof -
  obtain ok u s1 where "SkipField n tag s (rpc_unknown_fields m) = Some ((ok, u), s1)" "shrinks s s1"
    using skip_total(2) [OF assms(1,2)] by (metis prod.collapse)
  then show ?thesis
    using assms parse_params_parses parse_method_parses parse_rpc_id_parses shrinks_refl [OF assms(1)]
      rpc_inv_store(4) [OF assms(3)]
    by (auto simp: merge_field_def handle_uninterpreted_def Let_def)
qed

lemma merge_total:
  "flat s \<Longrightarrow> length (rest s) < n \<Longrightarrow> rpc_inv m \<Longrightarrow>
   \<exists>ok m' s'. MergePartialFromCodedStream n s m = Some ((ok, m'), s') \<and> rpc_inv m'"
proof (induction n arbitrary: s m)
  case 0
  then show ?case by simp
next
  case (Suc n)
  obtain tag s1 where t: "ReadTag s = Some (tag, s1)" "shrinks s s1"
      "tag \<noteq> 0 \<longrightarrow> length (rest s1) < length (rest s)"
    using tag_shrinks [OF Suc(2)] by blast
  show ?case
  proof (cases "tag = 0")
    case True
    then show ?thesis using t Suc(4) by (simp add: ex_bool_eq)
  next
    case False
    then have s1: "flat s1" "length (rest s1) < n" using t Suc(3) by (auto simp: shrinks_def)
    obtain f s2 where f: "merge_field n tag s1 m = Some (f, s2)" "shrinks s1 s2"
        "case f of Return _ m \<Rightarrow> rpc_inv m | Break m \<Rightarrow> rpc_inv m"
      using merge_field_parses [OF s1 Suc(4), of tag] unfolding parses_def by blast
    have "flat s2" "length (rest s2) < n" using f(2) s1 by (auto simp: shrinks_def)
    then show ?thesis using False t(1) f Suc(1) by (cases f) simp_all
  qed
qed

lemma parse_total:
  assumes "length bytes < 2 ^ 31" "rpc_inv m"
  shows "\<exists>ok m'. ParseFromString bytes m = Some (ok, m') \<and> rpc_inv m' \<and> (ok \<longrightarrow> IsInitialized m')"
proof -
  obtain ok m' s' where "MergePartialFromCodedStream (Suc (length bytes)) (CodedInputStream_array bytes) (Clear m)
      = Some ((ok, m'), s')" "rpc_inv m'"
    using merge_total [of "CodedInputStream_array bytes" "Suc (length bytes)" "Clear m"] flat_array [of bytes]
      Clear_spec(1) [OF assms(2)] by (auto simp del: MergePartialFromCodedStream.simps)
  then show ?thesis
    using assms(1) by (auto simp: ParseFromString_def InlineParseFromArray_def InlineParseFromCodedStream_def
      InlineMergeFromCodedStream_def simp del: MergePartialFromCodedStream.simps)
qed

section \<open>Reading a message back\<close>

text \<open>An unknown field that the parser does not take for one of the three fields of the message.\<close>

definition foreign :: "UnknownField \<Rightarrow> bool" where
  "foreign u \<longleftrightarrow> field_tag u \<notin> {MakeTag 1 WIRETYPE_VARINT, MakeTag 2 WIRETYPE_LENGTH_DELIMITED,
     MakeTag 3 WIRETYPE_LENGTH_DELIMITED}"

lemma MakeTag_GetTag: "MakeTag (GetTagFieldNumber tag) (GetTagWireType tag) = tag"
  unfolding MakeTag_def GetTagFieldNumber_def GetTagWireType_def kTagTypeMask_def kTagTypeBits_def
  by (rule bit_word_eqI) (auto simp: bit_simps mask_7)

lemma merge_foreign:
  assumes "foreign u"
  shows "merge_field n (field_tag u) s m = handle_uninterpreted n (field_tag u) s m"
proof -
  have "GetTagFieldNumber (field_tag u) = k \<and> GetTagWireType (field_tag u) = t \<longrightarrow> field_tag u = MakeTag k t" for k t
    using MakeTag_GetTag [of "field_tag u"] by auto
  then show ?thesis using assms unfolding merge_field_def foreign_def by auto
qed

text \<open>The stream counts fewer bytes than the limit of 64 megabytes.\<close>

definition below_limit :: "CodedInputStream \<Rightarrow> bool" where
  "below_limit s \<longleftrightarrow> total_bytes_read s - buffer_size_after_limit s < total_bytes_limit s"

lemma behind_limit: "behind s bs s' \<Longrightarrow> below_limit s \<Longrightarrow> below_limit s'"
  by (simp add: behind_def below_limit_def)

lemma merge_end:
  assumes "stream_at s []" "below_limit s"
  shows "\<exists>s'. MergePartialFromCodedStream (Suc n) s m = Some ((True, m), s') \<and> ConsumedEntireMessage s'"
  using flat_ReadTag [of s] assms
  by (auto simp: stream_at_def below_limit_def ConsumedEntireMessage_def)

lemma merge_unknown:
  "\<lbrakk>fields_ok d us; list_all foreign us; stream_at s (SerializeUnknownFieldsToArray us); deep_enough d s;
    below_limit s; length (SerializeUnknownFieldsToArray us) < n\<rbrakk>
   \<Longrightarrow> \<exists>s'. MergePartialFromCodedStream n s m
        = Some ((True, m\<lparr>rpc_unknown_fields := rpc_unknown_fields m @ us\<rparr>), s') \<and> ConsumedEntireMessage s'"
proof (induction us arbitrary: s m n)
  case Nil
  then show ?case using merge_end [of s "n - 1" m] by (cases n) simp_all
next
  case (Cons u us)
  let ?bs = "SerializeUnknownFieldsToArray us" and ?tag = "field_tag u"
  let ?s1 = "(Advance (length (leb128 (unat ?tag))) s)\<lparr>last_tag := ?tag\<rparr>"
  let ?m = "m\<lparr>rpc_unknown_fields := rpc_unknown_fields m @ [u]\<rparr>"
  obtain k where n: "n = Suc k" using Cons(7) by (cases n) simp_all
  have ok: "field_ok d u" "fields_ok d us" "foreign u" "list_all foreign us" using Cons(2,3) by simp_all
  have at: "stream_at s (leb128 (unat ?tag) @ field_body u @ ?bs)"
    using Cons(4) by (simp add: serialize_unknown_field_split)
  have s1: "behind s (field_body u @ ?bs) ?s1" by (rule behind_tag [OF at])
  have len: "length (field_body u @ ?bs) < k"
    using Cons(7) leb128_nonempty [of "unat ?tag"]
    by (simp add: n serialize_unknown_field_split del: length_greater_0_conv)
  obtain s2 where s2: "behind ?s1 ?bs s2"
      "SkipField k ?tag ?s1 (rpc_unknown_fields m) = Some ((True, rpc_unknown_fields m @ [u]), s2)"
    using skip_fields(2) [OF ok(1) behind_at [OF s1] behind_deep [OF s1 Cons(5)] len] by blast
  have s3: "behind s ?bs s2" by (rule behind_trans [OF s1 s2(1)])
  have "merge_field k ?tag ?s1 m = Some (Break ?m, s2)"
    unfolding merge_foreign [OF ok(3)]
    using s2(2) field_tag_no_end [OF ok(1)] by (simp add: handle_uninterpreted_def)
  then have "MergePartialFromCodedStream n s m = MergePartialFromCodedStream k s2 ?m"
    using read_tag [OF at] field_tag_nonzero [OF ok(1)] by (simp add: n)
  then show ?case
    using Cons(1) [OF ok(2,4) behind_at [OF s3] behind_deep [OF s3 Cons(5)] behind_limit [OF s3 Cons(6)], of k ?m] len
    by simp
qed

text \<open>The three fields in the order in which they are written.\<close>

abbreviation string_bytes :: "block \<Rightarrow> byte list" where
  "string_bytes v \<equiv> leb128 (unat (of_nat (length v) :: 32 word)) @ v"

lemma expect_hit:
  assumes "stream_at s (ucast t # bs)" "t < 2 ^ 7"
  shows "ExpectTag t s = Some (True, Advance 1 s)" "behind s bs (Advance 1 s)"
  using flat_ExpectTag [of s t] assms behind_Advance [of s "[ucast t]" bs] by (auto simp: stream_at_def)

lemma reads_backD:
  "reads_back rd bytes v \<Longrightarrow> stream_at s (bytes @ tail) \<Longrightarrow> rd s = Some (Some v, Advance (length bytes) s)"
  by (auto simp: reads_back_def)

lemma parse_params_bytes:
  assumes at: "stream_at s (string_bytes v @ bs)" and len: "length v < 2 ^ 31"
  shows "\<exists>s'. parse_params s m = Some (if bs = [] then Return True ((mutable_params m)\<lparr>params_ptr := Some v\<rparr>)
        else Break ((mutable_params m)\<lparr>params_ptr := Some v\<rparr>), s') \<and> behind s bs s' \<and> (bs = [] \<longrightarrow> ConsumedEntireMessage s')"
proof -
  let ?s1 = "Advance (length (string_bytes v)) s"
  have s1: "behind s bs ?s1" using behind_Advance [of s "string_bytes v" bs] at by simp
  have "WFL_ReadString str s = Some ((True, v), ?s1)" for str
    using read_WFL_string [of s v bs] at len by simp
  then show ?thesis
    using s1 flat_ExpectAtEnd [of ?s1]
    by (auto simp: parse_params_def WFL_ReadBytes_String Let_def behind_def stream_at_def ConsumedEntireMessage_def)
qed

lemma parse_method_bytes:
  assumes at: "stream_at s (string_bytes v @ 26 # bs)" and len: "length v < 2 ^ 31"
  shows "\<exists>s'. parse_method s m = parse_params s' ((mutable_method m)\<lparr>method_ptr := Some v\<rparr>) \<and> behind s bs s'"
proof -
  let ?s1 = "Advance (length (string_bytes v)) s"
  have s1: "behind s (26 # bs) ?s1" using behind_Advance [of s "string_bytes v" "26 # bs"] at by simp
  have "WFL_ReadString str s = Some ((True, v), ?s1)" for str
    using read_WFL_string [of s v "26 # bs"] at len by simp
  then have "parse_method s m = parse_params (Advance 1 ?s1) ((mutable_method m)\<lparr>method_ptr := Some v\<rparr>)"
    using expect_hit(1) [of ?s1 26 bs] behind_at [OF s1] by (simp add: parse_method_def Let_def)
  then show ?thesis using behind_trans [OF s1] expect_hit(2) [of ?s1 26 bs] behind_at [OF s1] by auto
qed

lemma parse_rpc_id_bytes:
  assumes at: "stream_at s (WriteInt32NoTagToArray i @ 18 # bs)"
  shows "\<exists>s'. parse_rpc_id s m = parse_method s' (set_has_rpc_id (m\<lparr>rpc_id_field := i\<rparr>)) \<and> behind s bs s'"
proof -
  let ?s1 = "Advance (length (WriteInt32NoTagToArray i)) s"
  have s1: "behind s (18 # bs) ?s1" using behind_Advance [OF at] by simp
  have "ReadPrimitive_INT32 s = Some (Some i, ?s1)"
    using reads_backD [OF reads_back_signed [of i], of s "18 # bs"] at
    by (simp add: ReadPrimitive_INT32_def WriteInt32NoTagToArray_def)
  then have "parse_rpc_id s m = parse_method (Advance 1 ?s1) (set_has_rpc_id (m\<lparr>rpc_id_field := i\<rparr>))"
    using expect_hit(1) [of ?s1 18 bs] behind_at [OF s1] by (simp add: parse_rpc_id_def Let_def)
  then show ?thesis using behind_trans [OF s1] expect_hit(2) [of ?s1 18 bs] behind_at [OF s1] by auto
qed

text \<open>The whole message: what the parser makes of the bytes of an initialised one.\<close>

definition parsed :: "32 word \<Rightarrow> block \<Rightarrow> block \<Rightarrow> UnknownFieldSet \<Rightarrow> jme_rpc \<Rightarrow> jme_rpc" where
  "parsed i x p us m = (set_params p (set_method x (set_rpc_id i m)))
     \<lparr>rpc_unknown_fields := rpc_unknown_fields m @ us\<rparr>"

lemma parsed_steps:
  "(mutable_params ((mutable_method (set_has_rpc_id (m\<lparr>rpc_id_field := i\<rparr>)))\<lparr>method_ptr := Some x\<rparr>))\<lparr>params_ptr := Some p\<rparr>
     = parsed i x p [] m"
  "(parsed i x p [] m)\<lparr>rpc_unknown_fields := rpc_unknown_fields (parsed i x p [] m) @ us\<rparr> = parsed i x p us m"
  by (simp_all add: parsed_def rpc_ops Let_def)

lemma contents_parsed: "contents (parsed i x p us (Clear m)) = (Some i, Some x, Some p, us)"
proof -
  have "rpc_unknown_fields (Clear m) = []" by (simp add: Clear_def Let_def)
  moreover have "contents (m\<lparr>rpc_unknown_fields := u\<rparr>) = (case contents m of (i, x, p, _) \<Rightarrow> (i, x, p, u))" for m u
    by (simp add: contents_def has_bit rpc_ops)
  ultimately show ?thesis by (simp add: parsed_def contents_set)
qed

lemma tag_8: "leb128 (unat (8 :: 32 word)) = [8]" "merge_field n 8 s m = parse_rpc_id s m"
  by (simp add: leb128.simps)
    (simp add: merge_field_def GetTagFieldNumber_def GetTagWireType_def kTagTypeBits_def kTagTypeMask_def wiretypes)

lemma merge_message:
  assumes bytes: "bytes = 8 # WriteInt32NoTagToArray i @ 18 # string_bytes x @ 26 # string_bytes p @ SerializeUnknownFieldsToArray us"
    and at: "stream_at s bytes" and len: "length x < 2 ^ 31" "length p < 2 ^ 31"
    and us: "fields_ok d us" "list_all foreign us" "deep_enough d s" and lim: "below_limit s" and n: "length bytes < n"
  shows "\<exists>s'. MergePartialFromCodedStream n s m = Some ((True, parsed i x p us m), s') \<and> ConsumedEntireMessage s'"
proof -
  let ?us = "SerializeUnknownFieldsToArray us"
  let ?b2 = "string_bytes p @ ?us" let ?b1 = "string_bytes x @ 26 # ?b2"
  let ?b0 = "WriteInt32NoTagToArray i @ 18 # ?b1"
  let ?m1 = "(mutable_method (set_has_rpc_id (m\<lparr>rpc_id_field := i\<rparr>)))\<lparr>method_ptr := Some x\<rparr>"
  obtain k where k: "n = Suc k" using n by (cases n) simp_all
  have at0: "stream_at s (leb128 (unat (8 :: 32 word)) @ ?b0)" using at unfolding bytes tag_8(1) by simp
  let ?s0 = "(Advance (length (leb128 (unat (8 :: 32 word)))) s)\<lparr>last_tag := 8\<rparr>"
  have s0: "behind s ?b0 ?s0" by (rule behind_tag [OF at0])
  obtain s1 where s1: "parse_rpc_id ?s0 m = parse_method s1 (set_has_rpc_id (m\<lparr>rpc_id_field := i\<rparr>))" "behind ?s0 ?b1 s1"
    using parse_rpc_id_bytes [OF behind_at [OF s0]] by blast
  obtain s2 where s2: "parse_method s1 (set_has_rpc_id (m\<lparr>rpc_id_field := i\<rparr>))
      = parse_params s2 ((mutable_method (set_has_rpc_id (m\<lparr>rpc_id_field := i\<rparr>)))\<lparr>method_ptr := Some x\<rparr>)" "behind s1 ?b2 s2"
    using parse_method_bytes [OF behind_at [OF s1(2)] len(1)] by blast
  obtain s3 where s3: "parse_params s2 ((mutable_method (set_has_rpc_id (m\<lparr>rpc_id_field := i\<rparr>)))\<lparr>method_ptr := Some x\<rparr>)
      = Some (if ?us = [] then Return True (parsed i x p [] m) else Break (parsed i x p [] m), s3)"
      "behind s2 ?us s3" "?us = [] \<longrightarrow> ConsumedEntireMessage s3"
    using parse_params_bytes [OF behind_at [OF s2(2)] len(2), of ?m1] unfolding parsed_steps(1) by blast
  have s: "behind s ?us s3"
    by (rule behind_trans [OF behind_trans [OF behind_trans [OF s0 s1(2)] s2(2)] s3(2)])
  have m: "MergePartialFromCodedStream n s m =
      (if ?us = [] then Some ((True, parsed i x p [] m), s3) else MergePartialFromCodedStream k s3 (parsed i x p [] m))"
    using read_tag [OF at0] s1(1) s2(1) s3(1) by (simp add: k tag_8)
  show ?thesis
  proof (cases "us = []")
    case True
    then show ?thesis using m s3(3) by simp
  next
    case False
    then have "?us \<noteq> []" by (cases us) (simp_all add: serialize_unknown_field_split leb128.simps)
    then show ?thesis
      using m n merge_unknown [OF us(1,2) behind_at [OF s] behind_deep [OF s us(3)] behind_limit [OF s lim], of k "parsed i x p [] m"]
      by (simp add: parsed_steps(2) bytes k)
  qed
qed

section \<open>The message survives the wire\<close>

lemma rpc_roundtrip_aux:
  assumes "IsInitialized m" "length (SerializeWithCachedSizesToArray m) < 2 ^ 26"
    and "fields_ok 100 (rpc_unknown_fields m)" "list_all foreign (rpc_unknown_fields m)"
  shows "\<exists>m1 m2. SerializeAsString debug m = Some (SerializeWithCachedSizesToArray m, m1)
    \<and> ParseFromString (SerializeWithCachedSizesToArray m) m0 = Some (True, m2)
    \<and> contents m2 = contents m \<and> rpc_id m2 = rpc_id m \<and> method_of m2 = method_of m \<and> params_of m2 = params_of m"
proof -
  have has: "has_rpc_id m" "has_method m" "has_params m" using assms(1) by (simp_all add: IsInitialized_has)
  let ?bytes = "SerializeWithCachedSizesToArray m"
  let ?m2 = "parsed (rpc_id m) (method_of m) (params_of m) (rpc_unknown_fields m) (Clear m0)"
  have con: "contents ?m2 = contents m" using contents_parsed has by (simp add: contents_def)
  have b: "?bytes = 8 # WriteInt32NoTagToArray (rpc_id m) @ 18 # string_bytes (method_of m)
      @ 26 # string_bytes (params_of m) @ SerializeUnknownFieldsToArray (rpc_unknown_fields m)"
    using has by (simp add: rpc_bytes)
  have len: "length (method_of m) < 2 ^ 31" "length (params_of m) < 2 ^ 31" using assms(2) by (simp_all add: b)
  have deep: "deep_enough 100 (CodedInputStream_array ?bytes)"
    by (simp add: deep_enough_def CodedInputStream_array_def default_recursion_limit_def)
  have lim: "below_limit (CodedInputStream_array ?bytes)"
    using assms(2) by (simp add: below_limit_def CodedInputStream_array_def kDefaultTotalBytesLimit_def)
  obtain s' where "MergePartialFromCodedStream (Suc (length ?bytes)) (CodedInputStream_array ?bytes) (Clear m0)
      = Some ((True, ?m2), s')" "ConsumedEntireMessage s'"
    using merge_message [OF b stream_at_array len assms(3,4) deep lim] by blast
  moreover have "IsInitialized ?m2"
    using con assms(1) by (auto simp: contents_def IsInitialized_has split: if_splits)
  ultimately have "ParseFromString ?bytes m0 = Some (True, ?m2)"
    using assms(2) by (simp add: ParseFromString_def InlineParseFromArray_def InlineParseFromCodedStream_def
        InlineMergeFromCodedStream_def del: MergePartialFromCodedStream.simps)
  moreover have "SerializeAsString debug m = Some (?bytes, m\<lparr>cached_size := length ?bytes\<rparr>)"
    using assms(1,2) by (simp add: SerializeAsString_def AppendToString_def AppendPartialToString_eq)
  moreover have "rpc_id ?m2 = rpc_id m" "method_of ?m2 = method_of m" "params_of ?m2 = params_of m"
    by (simp_all add: parsed_def rpc_ops Let_def)
  ultimately show ?thesis using con by blast
qed

text \<open>A call or a reply: a new message with its three fields set.\<close>

definition rpc_message :: "32 word \<Rightarrow> block \<Rightarrow> block \<Rightarrow> jme_rpc" where
  "rpc_message i x p = set_params p (set_method x (set_rpc_id i jme_rpc_new))"

lemma rpc_message_fields:
  "rpc_id (rpc_message i x p) = i" "method_of (rpc_message i x p) = x" "params_of (rpc_message i x p) = p"
  "rpc_unknown_fields (rpc_message i x p) = []" "IsInitialized (rpc_message i x p)"
  by (simp_all add: IsInitialized_has rpc_message_def rpc_ops rpc_bits Let_def jme_rpc_new_def SharedCtor_def)

lemma rpc_message_bytes:
  "SerializeWithCachedSizesToArray (rpc_message i x p)
     = 8 # WriteInt32NoTagToArray i @ 18 # string_bytes x @ 26 # string_bytes p"
  using rpc_message_fields(5) [of i x p] by (simp add: rpc_bytes rpc_message_fields IsInitialized_has)

lemma rpc_message_length:
  "length (SerializeWithCachedSizesToArray (rpc_message i x p)) \<le> length x + length p + 33"
proof -
  have "length (WriteInt32NoTagToArray i) \<le> 10"
    by (simp add: WriteInt32NoTagToArray_def length_sign_extended VarintSize32SignExtended_def VarintSize32_def
        VarintSize32Fallback_def)
  then show ?thesis
    using leb128_length_bound [OF unat_32_64, of "of_nat (length x)"] leb128_length_bound [OF unat_32_64, of "of_nat (length p)"]
    by (simp add: rpc_message_bytes)
qed

lemma rpc_message_roundtrip:
  assumes "length x + length p + 33 < 2 ^ 26"
  shows "\<exists>m1 m2. SerializeAsString debug (rpc_message i x p) = Some (SerializeWithCachedSizesToArray (rpc_message i x p), m1)
    \<and> ParseFromString (SerializeWithCachedSizesToArray (rpc_message i x p)) m0 = Some (True, m2)
    \<and> rpc_id m2 = i \<and> method_of m2 = x \<and> params_of m2 = p"
  using rpc_roundtrip_aux [OF rpc_message_fields(5), of i x p debug m0] rpc_message_length [of i x p] assms
  by (auto simp: rpc_message_fields)

text \<open>
  A call that was cut inside its parameters: the parse fails, but the message holds the method and
  what was left of the parameters.
\<close>

lemma truncated_message:
  assumes len: "length x + length p + 33 < 2 ^ 26" and k: "k < length p"
  shows "\<exists>m2. ParseFromString (8 # WriteInt32NoTagToArray i @ 18 # string_bytes x
        @ 26 # leb128 (unat (of_nat (length p) :: 32 word)) @ take k p) m0 = Some (False, m2)
    \<and> rpc_id m2 = i \<and> method_of m2 = x \<and> params_of m2 = take k p"
proof -
  let ?w = "of_nat (length p) :: 32 word" let ?m = "Clear m0"
  let ?b2 = "leb128 (unat ?w) @ take k p" let ?b1 = "string_bytes x @ 26 # ?b2"
  let ?b0 = "WriteInt32NoTagToArray i @ 18 # ?b1" let ?bytes = "8 # ?b0"
  let ?s = "CodedInputStream_array ?bytes"
  let ?ma = "set_has_rpc_id (?m\<lparr>rpc_id_field := i\<rparr>)"
  let ?m1 = "(mutable_method ?ma)\<lparr>method_ptr := Some x\<rparr>"
  let ?m2 = "(mutable_params ?m1)\<lparr>params_ptr := Some (take k p)\<rparr>"
  have w: "sint ?w = int (length p)" using len by (simp add: signed_of_nat signed_take_bit_int_eq_self)
  have "stream_at ?s ?bytes" by (rule stream_at_array)
  then have at0: "stream_at ?s (leb128 (unat (8 :: 32 word)) @ ?b0)" unfolding tag_8(1) by simp
  let ?sa = "(Advance (length (leb128 (unat (8 :: 32 word)))) ?s)\<lparr>last_tag := 8\<rparr>"
  obtain s1 where s1: "parse_rpc_id ?sa ?m = parse_method s1 ?ma" "behind ?sa ?b1 s1"
    using parse_rpc_id_bytes [OF behind_at [OF behind_tag [OF at0]]] by blast
  obtain s2 where s2: "parse_method s1 ?ma = parse_params s2 ?m1" "behind s1 ?b2 s2"
    using parse_method_bytes [OF behind_at [OF s1(2)]] len by auto
  let ?s3 = "Advance (length (leb128 (unat ?w))) s2"
  have at3: "stream_at ?s3 (take k p)" by (rule stream_at_Advance [OF behind_at [OF s2(2)]])
  have "WFL_ReadBytes str s2 = Some ((False, take k p), Advance (length (take k p)) ?s3)" for str
    using read_varint(1) [OF behind_at [OF s2(2)] unat_32_64] flat_InternalReadStringInline [of ?s3 "int (length p)"] at3 k w
    by (auto simp: WFL_ReadBytes_def stream_at_def)
  then have "\<exists>s'. merge_field n 8 ?sa ?m = Some (Return False ?m2, s')" for n
    using s1(1) s2(1) by (simp add: tag_8 parse_params_def Let_def)
  then obtain s' where "merge_field (length ?bytes) 8 ?sa ?m = Some (Return False ?m2, s')" by blast
  then have merge: "MergePartialFromCodedStream (Suc (length ?bytes)) ?s ?m = Some ((False, ?m2), s')"
    unfolding MergePartialFromCodedStream.simps using read_tag [OF at0] by simp
  have "length ?bytes < 2 ^ 31"
    using rpc_message_length [of i x p] len k by (simp add: rpc_message_bytes)
  then have "ParseFromString ?bytes m0 = Some (False, ?m2)"
    unfolding ParseFromString_def InlineParseFromArray_def InlineParseFromCodedStream_def
      InlineMergeFromCodedStream_def merge by simp
  then show ?thesis by (simp add: rpc_ops Let_def)
qed

text \<open>
  C5. A message with its three required fields, and whatever fields an older peer does not know, is
  serialised without overrunning the string that \<open>ByteSize\<close> dimensioned, and parsing these bytes into
  any message object gives a message with the same call id, method, parameters and unknown fields.
  The bounds are those of the code: 64 megabytes for a message and 100 nested groups.
\<close>

theorem rpc_roundtrip:
  assumes "IsInitialized m" "length (SerializeWithCachedSizesToArray m) < 2 ^ 26"
    and "fields_ok 100 (rpc_unknown_fields m)" "list_all foreign (rpc_unknown_fields m)"
  shows "\<exists>bytes m1 m2. SerializeAsString debug m = Some (bytes, m1)
    \<and> ParseFromString bytes m0 = Some (True, m2)
    \<and> contents m2 = contents m \<and> rpc_id m2 = rpc_id m \<and> method_of m2 = method_of m \<and> params_of m2 = params_of m"
  using rpc_roundtrip_aux [OF assms] by blast

theorem rpc_roundtrip_witness:
  "let m = set_params [1, 2] (set_method [0x61] (set_rpc_id (- 5) jme_rpc_new)) in
   \<exists>bytes m1 m2. SerializeAsString True m = Some (bytes, m1) \<and> ParseFromString bytes jme_rpc_new = Some (True, m2)
     \<and> contents m2 = (Some (- 5), Some [0x61], Some [1, 2], [])"
proof -
  let ?m = "set_params [1, 2] (set_method [0x61] (set_rpc_id (- 5) jme_rpc_new))"
  have c: "contents ?m = (Some (- 5), Some [0x61], Some [1, 2], [])"
    by (simp add: contents_set) (simp add: contents_def jme_rpc_new_def SharedCtor_def)
  have u: "rpc_unknown_fields ?m = []" by (simp add: rpc_ops Let_def jme_rpc_new_def SharedCtor_def)
  have i: "IsInitialized ?m" using c by (auto simp: contents_def IsInitialized_has split: if_splits)
  have f: "rpc_id ?m = - 5" "method_of ?m = [0x61]" "params_of ?m = [1, 2]" by (simp_all add: rpc_ops Let_def)
  have "length (SerializeWithCachedSizesToArray ?m) < 2 ^ 26"
    using i u by (simp add: rpc_bytes IsInitialized_has f WriteInt32NoTagToArray_def length_sign_extended
        VarintSize32SignExtended_def VarintSize32_def VarintSize32Fallback_def leb128.simps)
  then show ?thesis using rpc_roundtrip [OF i, of True jme_rpc_new] u c by (auto simp: Let_def)
qed

text \<open>
  C8. Parsing is total and safe: on any bytes a peer can send, \<open>ParseFromString\<close> returns without an
  access outside the buffer; the message it leaves satisfies the invariant, also when the parse fails;
  and when it reports success the three required fields are present.
\<close>

theorem rpc_parse_safe:
  "length bytes < 2 ^ 31 \<Longrightarrow> rpc_inv m \<Longrightarrow>
   \<exists>ok m'. ParseFromString bytes m = Some (ok, m') \<and> rpc_inv m' \<and> (ok \<longrightarrow> IsInitialized m')"
  by (rule parse_total)

theorem rpc_parse_safe_witness: "\<exists>r. ParseFromString [8, 0xff, 0xff, 18, 200] jme_rpc_new = Some r"
  using rpc_parse_safe [of "[8, 0xff, 0xff, 18, 200]" jme_rpc_new] rpc_inv_new by auto






end
