(* ===== verification/JME_RpcServer.thy ===== *)
theory JME_RpcServer
  imports JME_Acceptor JME_RpcHandler JME_RpcPb
begin

text \<open>
  The RPC server (include/rpc/JME_RpcServer.h, source/rpc/JME_RpcServer.cpp): the acceptor it starts and
  the handler of its sessions. The state \<open>'w\<close> of the registered methods is passed through; \<open>debug\<close> is
  the build with the debug checks of protobuf. The callbacks \<open>sessionConnectFailed\<close> and
  \<open>sessionDisconnect\<close> are empty.
\<close>

definition RPCSession :: int where "RPCSession = 1"

definition RpcServer_new :: "(nat \<Rightarrow> block) \<Rightarrow> int \<Rightarrow> 16 word \<Rightarrow> nat \<Rightarrow> TcpAcceptor" where
  "RpcServer_new nedmalloc nid prt bufferSize = accept nedmalloc nid 0 bufferSize (TcpAcceptor_new prt)"

definition RpcServer_response :: "bool \<Rightarrow> jme_rpc \<Rightarrow> tcp \<Rightarrow> tcp option" where
  "RpcServer_response debug rpc s = do {
     (m, _) \<leftarrow> SerializeToString debug rpc;
     (_, s1) \<leftarrow> writeMessage (Message_str RPCMessage m) s;
     Some s1
   }"

definition RpcSession_sessionConnectSucceed :: "string option \<Rightarrow> string option \<Rightarrow> bool \<Rightarrow> tcp \<Rightarrow> tcp" where
  "RpcSession_sessionConnectSucceed addr prt nb s = start RPCSession addr prt nb s"

text \<open>The result of \<open>ParseFromString\<close> is not looked at.\<close>

definition RpcSession_sessionReceiveMessage ::
    "bool \<Rightarrow> 'w rpc_handlers \<Rightarrow> Message \<Rightarrow> tcp \<Rightarrow> 'w \<Rightarrow> (tcp \<times> 'w) option" where
  "RpcSession_sessionReceiveMessage debug handlers msg s w = do {
     param \<leftarrow> getMessageStr msg;
     (_, rpc) \<leftarrow> ParseFromString param jme_rpc_new;
     let (result, w1) = execRpcHandler (method_of rpc) (params_of rpc) handlers w;
     case result of
       None \<Rightarrow> Some (s, w1)
     | Some bytes \<Rightarrow> do {
         s1 \<leftarrow> RpcServer_response debug
           (set_params bytes (set_method (method_of rpc) (set_rpc_id (rpc_id rpc) jme_rpc_new))) s;
         Some (s1, w1)
       }
   }"

definition RpcSession_sessionReadError :: "error_code \<Rightarrow> tcp \<Rightarrow> tcp" where
  "RpcSession_sessionReadError shut s = stop shut s"

section \<open>Lemmas\<close>

lemma getMessageStr_str: "length bs + 14 < 2 ^ 31 \<Longrightarrow> getMessageStr (Message_str i bs) = Some bs"
  using wf_msg_dataLen [OF wf_Message_str, of bs i] by (simp add: getMessageStr_def mem_simps)

text \<open>What a peer puts on the wire for a call or a reply.\<close>

definition rpc_wire :: "32 word \<Rightarrow> block \<Rightarrow> block \<Rightarrow> Message" where
  "rpc_wire i x p = Message_str RPCMessage (SerializeWithCachedSizesToArray (rpc_message i x p))"

abbreviation small_call :: "block \<Rightarrow> block \<Rightarrow> bool" where
  "small_call x p \<equiv> length x + length p + 33 < 2 ^ 26"

lemma rpc_wire_ok:
  assumes "small_call x p"
  shows "wf_msg (rpc_wire i x p)"
    "getMessageStr (rpc_wire i x p) = Some (SerializeWithCachedSizesToArray (rpc_message i x p))"
    "length (encode (rpc_wire i x p)) \<le> length x + length p + 47"
proof -
  have len: "length (SerializeWithCachedSizesToArray (rpc_message i x p)) + 14 < 2 ^ 31"
    using rpc_message_length [of i x p] assms by simp
  show wf: "wf_msg (rpc_wire i x p)" unfolding rpc_wire_def by (rule wf_Message_str [OF len])
  show "getMessageStr (rpc_wire i x p) = Some (SerializeWithCachedSizesToArray (rpc_message i x p))"
    unfolding rpc_wire_def by (rule getMessageStr_str [OF len])
  show "length (encode (rpc_wire i x p)) \<le> length x + length p + 47"
    using wf_msg_encode [OF wf] rpc_message_length [of i x p] by (simp add: rpc_wire_def MessageHeaderLength_def)
qed

lemma serialize_rpc_message:
  assumes "small_call x p"
  shows "\<exists>m1. SerializeAsString debug (rpc_message i x p) = Some (SerializeWithCachedSizesToArray (rpc_message i x p), m1)"
    and "\<exists>m1. SerializeToString debug (rpc_message i x p) = Some (SerializeWithCachedSizesToArray (rpc_message i x p), m1)"
  using rpc_message_roundtrip [OF assms, of debug i jme_rpc_new]
  by (auto simp: SerializeAsString_def SerializeToString_def)

lemma response_writes:
  assumes "small_call x p"
  shows "RpcServer_response debug (rpc_message i x p) s = map_option snd (writeMessage (rpc_wire i x p) s)"
  using serialize_rpc_message(2) [OF assms, of debug i]
  by (auto simp: RpcServer_response_def rpc_wire_def map_option_case split: option.splits prod.splits)

text \<open>The server's reaction, once the message it makes of the bytes is known.\<close>

lemma server_executes:
  assumes "getMessageStr msg = Some bytes" "ParseFromString bytes jme_rpc_new = Some (ok, rpc)"
    and "execRpcHandler (method_of rpc) (params_of rpc) handlers w = (Some reply, w')"
    and "small_call (method_of rpc) reply"
  shows "RpcSession_sessionReceiveMessage debug handlers msg s w =
    map_option (\<lambda>(_, s1). (s1, w')) (writeMessage (rpc_wire (rpc_id rpc) (method_of rpc) reply) s)"
  using assms response_writes [OF assms(4), of debug "rpc_id rpc" s]
  by (auto simp: RpcSession_sessionReceiveMessage_def rpc_message_def [symmetric] map_option_case
      split: option.splits)

text \<open>The reply as the client will find it behind what was queued before.\<close>

lemma server_reply_queued:
  assumes "getMessageStr msg = Some bytes" "ParseFromString bytes jme_rpc_new = Some (ok, rpc)"
    and "execRpcHandler (method_of rpc) (params_of rpc) handlers w = (Some reply, w')"
    and "small_call (method_of rpc) reply"
    and "tcp_inv s" "isOk s" "socket_open s"
    and "length (outgoing s) + length (method_of rpc) + length reply + 47 \<le> writeBufferSize s"
  shows "\<exists>s'. RpcSession_sessionReceiveMessage debug handlers msg s w = Some (s', w')
    \<and> tcp_inv s' \<and> outgoing s' = outgoing s @ encode (rpc_wire (rpc_id rpc) (method_of rpc) reply)"
proof -
  let ?m = "rpc_wire (rpc_id rpc) (method_of rpc) reply"
  have "length (outgoing s) + length (encode ?m) \<le> writeBufferSize s"
    using rpc_wire_ok(3) [OF assms(4), of "rpc_id rpc"] assms(8) by simp
  then show ?thesis
    using session.send_law [OF assms(5) rpc_wire_ok(1) [OF assms(4)], of "rpc_id rpc"] assms(6,7)
    unfolding server_executes [OF assms(1-4)] by auto
qed

section \<open>Properties\<close>

text \<open>
  C22 (functional behaviour). A call that arrives complete runs the registered method exactly once,
  with the method's name and the parameters the client sent, and its reply is queued behind whatever
  the session has queued before, as one message that carries the id and the name of the call. A method
  that returns null, or that is not registered, is answered with nothing at all.
\<close>

theorem server_answers:
  assumes "small_call x p" "tcp_inv s" "isOk s" "socket_open s"
    and "execRpcHandler x p handlers w = (result, w')"
    and "\<forall>reply. result = Some reply \<longrightarrow> small_call x reply
      \<and> length (outgoing s) + length x + length reply + 47 \<le> writeBufferSize s"
  shows "\<exists>s'. RpcSession_sessionReceiveMessage debug handlers (rpc_wire i x p) s w = Some (s', w') \<and> tcp_inv s'
    \<and> outgoing s' = outgoing s @ (case result of None \<Rightarrow> [] | Some reply \<Rightarrow> encode (rpc_wire i x reply))"
proof -
  obtain m2 where m2: "ParseFromString (SerializeWithCachedSizesToArray (rpc_message i x p)) jme_rpc_new = Some (True, m2)"
      "rpc_id m2 = i" "method_of m2 = x" "params_of m2 = p"
    using rpc_message_roundtrip [OF assms(1), of debug i jme_rpc_new] by blast
  show ?thesis
  proof (cases result)
    case None
    then show ?thesis
      using assms(2,5) m2 rpc_wire_ok(2) [OF assms(1), of i] by (simp add: RpcSession_sessionReceiveMessage_def)
  next
    case (Some reply)
    then show ?thesis
      using server_reply_queued [OF rpc_wire_ok(2) [OF assms(1)] m2(1), of handlers w reply w' s debug] assms m2 by simp
  qed
qed

theorem server_answers_witness:
  "let handlers = [[0x61] \<mapsto> (\<lambda>p w. (Some (rev p), Suc w))];
       s = (TcpSession_new [] (replicate 100 0) 0 0)\<lparr>status := Connected, socket_open := True\<rparr> in
   \<exists>s'. RpcSession_sessionReceiveMessage True handlers (rpc_wire 7 [0x61] [1, 2]) s (0 :: nat) = Some (s', 1)
     \<and> outgoing s' = encode (rpc_wire 7 [0x61] [2, 1])"
proof -
  let ?s = "(TcpSession_new [] (replicate 100 0) 0 0)\<lparr>status := Connected, socket_open := True\<rparr>"
  have inv: "tcp_inv ?s" using tcp_inv_new [of "[]" "replicate 100 0"] by simp
  have s: "isOk ?s" "socket_open ?s" "outgoing ?s = []" "writeBufferSize ?s = 100"
    by (simp_all add: isOk_def TcpSession_new_def outgoing_def)
  show ?thesis
    using server_answers [of "[0x61]" "[1, 2]" ?s "[[0x61] \<mapsto> (\<lambda>p w. (Some (rev p), Suc w))]" 0 "Some [2, 1]" 1 True 7]
      inv s by (auto simp: execRpcHandler_def Let_def)
qed

text \<open>
  C37 (error behaviour). A call that was cut off inside its parameters does not parse, and the server
  runs its method all the same: with the parameters that are left, and it queues the reply as if the
  call had been complete.
\<close>

theorem truncated_call_executed:
  assumes "small_call x p" "k < length p" "tcp_inv s" "isOk s" "socket_open s"
    and "execRpcHandler x (take k p) handlers w = (Some reply, w')" "small_call x reply"
    and "length (outgoing s) + length x + length reply + 47 \<le> writeBufferSize s"
  shows "\<exists>bytes m2 s'. bytes = take (length (SerializeWithCachedSizesToArray (rpc_message i x p)) - (length p - k))
      (SerializeWithCachedSizesToArray (rpc_message i x p))
    \<and> ParseFromString bytes jme_rpc_new = Some (False, m2)
    \<and> RpcSession_sessionReceiveMessage debug handlers (Message_str RPCMessage bytes) s w = Some (s', w')
    \<and> outgoing s' = outgoing s @ encode (rpc_wire i x reply)"
proof -
  let ?full = "SerializeWithCachedSizesToArray (rpc_message i x p)"
  let ?cut = "8 # WriteInt32NoTagToArray i @ 18 # string_bytes x
        @ 26 # leb128 (unat (of_nat (length p) :: 32 word)) @ take k p"
  have full: "?full = ?cut @ drop k p" by (simp add: rpc_message_bytes)
  have "length ?full - (length p - k) = length ?cut"
    using assms(2) arg_cong [OF full, of length] by (simp only: length_append length_drop)
  then have cut: "?cut = take (length ?full - (length p - k)) ?full"
    using full by (metis append_eq_conv_conj)
  obtain m2 where m2: "ParseFromString ?cut jme_rpc_new = Some (False, m2)" "rpc_id m2 = i" "method_of m2 = x"
      "params_of m2 = take k p"
    using truncated_message [OF assms(1,2), of i jme_rpc_new] by blast
  have "length ?cut + 14 < 2 ^ 31"
    using rpc_message_length [of i x p] assms(1) by (simp add: rpc_message_bytes)
  from server_reply_queued [OF getMessageStr_str [OF this] m2(1), of handlers w reply w' s debug RPCMessage] m2 assms
  show ?thesis unfolding cut by auto
qed

theorem truncated_call_executed_witness:
  "let handlers = [[0x61] \<mapsto> (\<lambda>p w. (Some p, Suc w))];
       s = (TcpSession_new [] (replicate 100 0) 0 0)\<lparr>status := Connected, socket_open := True\<rparr> in
   \<exists>bytes s'. RpcSession_sessionReceiveMessage True handlers (Message_str RPCMessage bytes) s (0 :: nat) = Some (s', 1)
     \<and> outgoing s' = encode (rpc_wire 7 [0x61] [1])"
proof -
  let ?s = "(TcpSession_new [] (replicate 100 0) 0 0)\<lparr>status := Connected, socket_open := True\<rparr>"
  have inv: "tcp_inv ?s" using tcp_inv_new [of "[]" "replicate 100 0"] by simp
  have s: "isOk ?s" "socket_open ?s" "outgoing ?s = []" "writeBufferSize ?s = 100"
    by (simp_all add: isOk_def TcpSession_new_def outgoing_def)
  show ?thesis
    using truncated_call_executed [of "[0x61]" "[1, 2, 3]" 1 ?s "[[0x61] \<mapsto> (\<lambda>p w. (Some p, Suc w))]" 0 "[1]" 1 7 True]
      inv s by (auto simp: execRpcHandler_def Let_def)
qed

end
