(* ===== verification/JME_RpcClient.thy ===== *)
theory JME_RpcClient
  imports JME_RpcServer
begin

text \<open>
  The RPC client (include/rpc/JME_RpcClient.h, source/rpc/JME_RpcClient.cpp): the outstanding calls, their
  dead-line timers and the client's handlers. Callbacks are code of the user and stand as numbers; what the
  client calls is recorded in \<open>events\<close>, with the id of the call. \<open>_session\<close> is a weak pointer: \<^term>\<open>None\<close>
  is an expired one, and going through it is undefined behaviour, as is incrementing \<open>_methodId\<close> beyond
  \<open>INT_MAX\<close>. The mutex makes every handler one step.
\<close>

section \<open>State\<close>

text \<open>
  A \<open>deadline_timer\<close>: waiting; expired, its handler queued with no error; cancelled, its handler queued
  with \<open>operation_aborted\<close>; its handler has run.
\<close>

datatype timer_state = Waiting | Expired | Aborted | Finished

record DeadTimer =
  dt_method :: int
  dt_handler :: nat
  dt_state :: timer_state

record RpcCallback =
  cb_fun :: nat
  cb_dt :: "nat option"
  checkDead :: bool

datatype client_event = Response int nat block | Dead int nat

record RpcClient =
  cl_session :: "tcp option"
  methodId :: int
  cbs :: "int \<rightharpoonup> RpcCallback"
  timers :: "DeadTimer list"
  events :: "client_event list"

section \<open>Callbacks and timers\<close>

definition RpcCallback_create :: "nat \<Rightarrow> RpcCallback" where
  "RpcCallback_create cb = \<lparr>cb_fun = cb, cb_dt = None, checkDead = False\<rparr>"

text \<open>The second constructor starts the timer, whose handler is bound to the call and to \<open>dcb\<close>.\<close>

definition RpcCallback_create_dead :: "nat \<Rightarrow> nat \<Rightarrow> int \<Rightarrow> RpcClient \<Rightarrow> RpcCallback \<times> RpcClient" where
  "RpcCallback_create_dead cb dcb mid c =
     (\<lparr>cb_fun = cb, cb_dt = Some (length (timers c)), checkDead = True\<rparr>,
      c\<lparr>timers := timers c @ [\<lparr>dt_method = mid, dt_handler = dcb, dt_state = Waiting\<rparr>]\<rparr>)"

definition timer_cancel :: "nat \<Rightarrow> RpcClient \<Rightarrow> RpcClient" where
  "timer_cancel t c =
     (if t < length (timers c) \<and> dt_state (timers c ! t) = Waiting
      then c\<lparr>timers := (timers c)[t := (timers c ! t)\<lparr>dt_state := Aborted\<rparr>]\<rparr> else c)"

text \<open>A callback whose last pointer goes away takes its timer with it, which cancels a pending wait.\<close>

definition release :: "RpcCallback option \<Rightarrow> RpcClient \<Rightarrow> RpcClient" where
  "release cb c = (case cb of None \<Rightarrow> c | Some b \<Rightarrow> (case cb_dt b of None \<Rightarrow> c | Some t \<Rightarrow> timer_cancel t c))"

definition removeDeadRPC :: "int \<Rightarrow> RpcClient \<Rightarrow> RpcClient" where
  "removeDeadRPC mid c = (release (cbs c mid) c)\<lparr>cbs := (cbs c)(mid := None)\<rparr>"

definition RpcDeadCallback :: "bool \<Rightarrow> int \<Rightarrow> nat \<Rightarrow> RpcClient \<Rightarrow> RpcClient" where
  "RpcDeadCallback err mid dcb c =
     (if err then c
      else (let c1 = removeDeadRPC mid c in c1\<lparr>events := events c1 @ [Dead mid dcb]\<rparr>))"

text \<open>The timer service: a wait runs out; a queued handler is run.\<close>

definition timer_expires :: "nat \<Rightarrow> RpcClient \<Rightarrow> RpcClient" where
  "timer_expires t c =
     (if t < length (timers c) \<and> dt_state (timers c ! t) = Waiting
      then c\<lparr>timers := (timers c)[t := (timers c ! t)\<lparr>dt_state := Expired\<rparr>]\<rparr> else c)"

definition timer_runs :: "nat \<Rightarrow> RpcClient \<Rightarrow> RpcClient" where
  "timer_runs t c =
     (if t < length (timers c) \<and> dt_state (timers c ! t) \<in> {Expired, Aborted} then
        RpcDeadCallback (dt_state (timers c ! t) = Aborted) (dt_method (timers c ! t)) (dt_handler (timers c ! t))
          (c\<lparr>timers := (timers c)[t := (timers c ! t)\<lparr>dt_state := Finished\<rparr>]\<rparr>)
      else c)"

section \<open>Construction\<close>

text \<open>
  The constructor creates the session and connects it; an exception of \<open>connect\<close> leaves the
  constructor. \<open>nedmalloc n\<close> is a block of \<open>n\<close> bytes.
\<close>

definition RpcClient_new ::
    "(nat \<Rightarrow> block) \<Rightarrow> int \<Rightarrow> (string \<Rightarrow> string \<Rightarrow> bool) \<Rightarrow> (string \<Rightarrow> string \<Rightarrow> error_code option) \<Rightarrow>
     string \<Rightarrow> string \<Rightarrow> nat \<Rightarrow> nat \<Rightarrow> tcp + RpcClient" where
  "RpcClient_new nedmalloc nid rsv cn a p buffSize recon =
     (case connect rsv cn a p (TcpSession_new (nedmalloc buffSize) (nedmalloc buffSize) nid recon) of
        Inl s \<Rightarrow> Inl s
      | Inr s \<Rightarrow> Inr \<lparr>cl_session = Some s, methodId = 0, cbs = Map.empty, timers = [], events = []\<rparr>)"

text \<open>\<open>create\<close> passes its last two arguments in the other order.\<close>

definition RpcClient_create ::
    "(nat \<Rightarrow> block) \<Rightarrow> int \<Rightarrow> (string \<Rightarrow> string \<Rightarrow> bool) \<Rightarrow> (string \<Rightarrow> string \<Rightarrow> error_code option) \<Rightarrow>
     string \<Rightarrow> string \<Rightarrow> nat \<Rightarrow> nat \<Rightarrow> tcp + RpcClient" where
  "RpcClient_create nedmalloc nid rsv cn a p buffSize recon =
     RpcClient_new nedmalloc nid rsv cn a p recon buffSize"

section \<open>Calling\<close>

text \<open>From \<open>set_method\<close> to the end of the \<open>try\<close> block, the same in the three overloads.\<close>

definition send_call :: "bool \<Rightarrow> block \<Rightarrow> block \<Rightarrow> RpcClient \<Rightarrow> (bool \<times> RpcClient) option" where
  "send_call debug name params c = do {
     s \<leftarrow> cl_session c;
     let rpc = set_params params (set_method name (set_rpc_id (word_of_int (methodId c)) jme_rpc_new));
     (m, _) \<leftarrow> SerializeAsString debug rpc;
     (ok, s1) \<leftarrow> writeMessage (Message_str RPCMessage m) s;
     Some (ok, c\<lparr>cl_session := Some s1\<rparr>)
   }"

text \<open>\<open>params\<close> is the serialised form of the parameter message.\<close>

definition callRpcMethod_cb :: "bool \<Rightarrow> block \<Rightarrow> block \<Rightarrow> nat \<Rightarrow> RpcClient \<Rightarrow> (bool \<times> RpcClient) option" where
  "callRpcMethod_cb debug name params cb c = do {
     s \<leftarrow> cl_session c;
     if \<not> isOk s then Some (False, c)
     else if methodId c = INT_MAX then None
     else
       (let c1 = c\<lparr>methodId := methodId c + 1\<rparr>;
            c2 = (release (cbs c1 (methodId c1)) c1)\<lparr>cbs := (cbs c1)(methodId c1 \<mapsto> RpcCallback_create cb)\<rparr> in
        send_call debug name params c2)
   }"

definition callRpcMethod_dead ::
    "bool \<Rightarrow> block \<Rightarrow> block \<Rightarrow> nat \<Rightarrow> nat \<Rightarrow> RpcClient \<Rightarrow> (bool \<times> RpcClient) option" where
  "callRpcMethod_dead debug name params cb dcb c = do {
     s \<leftarrow> cl_session c;
     if \<not> isOk s then Some (False, c)
     else if methodId c = INT_MAX then None
     else
       (let c1 = c\<lparr>methodId := methodId c + 1\<rparr>;
            (b, c2) = RpcCallback_create_dead cb dcb (methodId c1) c1;
            c3 = (release (cbs c2 (methodId c2)) c2)\<lparr>cbs := (cbs c2)(methodId c2 \<mapsto> b)\<rparr> in
        send_call debug name params c3)
   }"

definition callRpcMethod :: "bool \<Rightarrow> block \<Rightarrow> block \<Rightarrow> RpcClient \<Rightarrow> (bool \<times> RpcClient) option" where
  "callRpcMethod debug name params c = do {
     s \<leftarrow> cl_session c;
     if \<not> isOk s then Some (False, c)
     else if methodId c = INT_MAX then None
     else send_call debug name params (c\<lparr>methodId := methodId c + 1\<rparr>)
   }"

section \<open>Handlers\<close>

definition sessionConnectSucceed :: "string option \<Rightarrow> string option \<Rightarrow> bool \<Rightarrow> RpcClient \<Rightarrow> RpcClient option" where
  "sessionConnectSucceed addr prt nb c = do {
     s \<leftarrow> cl_session c;
     Some (c\<lparr>cl_session := Some (start RPCSession addr prt nb s)\<rparr>)
   }"

text \<open>The result of \<open>ParseFromString\<close> is not looked at.\<close>

definition sessionReceiveMessage :: "Message \<Rightarrow> RpcClient \<Rightarrow> RpcClient option" where
  "sessionReceiveMessage msg c = do {
     m \<leftarrow> getMessageStr msg;
     (_, rpc) \<leftarrow> ParseFromString m jme_rpc_new;
     let mid = sint (rpc_id rpc);
     case cbs c mid of
       None \<Rightarrow> Some c
     | Some b \<Rightarrow>
         (let c1 = c\<lparr>cbs := (cbs c)(mid := None)\<rparr>;
              c2 = (if checkDead b then (case cb_dt b of None \<Rightarrow> c1 | Some t \<Rightarrow> timer_cancel t c1) else c1) in
          Some (c2\<lparr>events := events c2 @ [Response mid (cb_fun b) (params_of rpc)]\<rparr>))
   }"

text \<open>\<open>reconnect\<close> may throw: \<open>Inl\<close>, with the client it leaves.\<close>

definition sessionReadError ::
    "(string \<Rightarrow> string \<Rightarrow> bool) \<Rightarrow> (string \<Rightarrow> string \<Rightarrow> error_code option) \<Rightarrow> RpcClient \<Rightarrow> (RpcClient + RpcClient) option" where
  "sessionReadError rsv cn c = do {
     s \<leftarrow> cl_session c;
     Some (case reconnect rsv cn (resetReadBuffer s) of
        Inl s1 \<Rightarrow> Inl (c\<lparr>cl_session := Some s1\<rparr>)
      | Inr s1 \<Rightarrow> Inr (c\<lparr>cl_session := Some s1\<rparr>))
   }"

definition sessionDisconnect ::
    "(string \<Rightarrow> string \<Rightarrow> bool) \<Rightarrow> (string \<Rightarrow> string \<Rightarrow> error_code option) \<Rightarrow> RpcClient \<Rightarrow> (RpcClient + RpcClient) option" where
  "sessionDisconnect rsv cn c = do {
     s \<leftarrow> cl_session c;
     Some (case reconnect rsv cn s of
        Inl s1 \<Rightarrow> Inl (c\<lparr>cl_session := Some s1\<rparr>)
      | Inr s1 \<Rightarrow> Inr (c\<lparr>cl_session := Some s1\<rparr>))
   }"

text \<open>The destructor stops a session that is still there.\<close>

definition RpcClient_destroy :: "error_code \<Rightarrow> RpcClient \<Rightarrow> RpcClient" where
  "RpcClient_destroy shut c = c\<lparr>cl_session := map_option (stop shut) (cl_session c)\<rparr>"

section \<open>Steps and invariant\<close>

text \<open>
  Every step of a client: calls, handlers, timers, and whatever else happens to its session,
  which may also expire.
\<close>

inductive client_step :: "RpcClient \<Rightarrow> RpcClient \<Rightarrow> bool" where
  step_call: "callRpcMethod debug x p c = Some (r, c') \<Longrightarrow> client_step c c'"
| step_call_cb: "callRpcMethod_cb debug x p cb c = Some (r, c') \<Longrightarrow> client_step c c'"
| step_call_dead: "callRpcMethod_dead debug x p cb dcb c = Some (r, c') \<Longrightarrow> client_step c c'"
| step_receive: "sessionReceiveMessage msg c = Some c' \<Longrightarrow> client_step c c'"
| step_connected: "sessionConnectSucceed addr prt nb c = Some c' \<Longrightarrow> client_step c c'"
| step_error: "sessionReadError rsv cn c = Some (Inr c') \<Longrightarrow> client_step c c'"
| step_error_throws: "sessionReadError rsv cn c = Some (Inl c') \<Longrightarrow> client_step c c'"
| step_expires: "client_step c (timer_expires t c)"
| step_runs: "client_step c (timer_runs t c)"
| step_session: "client_step c (c\<lparr>cl_session := s\<rparr>)"

fun responses :: "client_event list \<Rightarrow> int list" where
  "responses [] = []"
| "responses (Response i _ _ # es) = i # responses es"
| "responses (Dead _ _ # es) = responses es"

fun deaths :: "client_event list \<Rightarrow> int list" where
  "deaths [] = []"
| "deaths (Response _ _ _ # es) = deaths es"
| "deaths (Dead i _ # es) = i # deaths es"

lemma responses_append [simp]: "responses (es @ fs) = responses es @ responses fs"
  by (induction es rule: responses.induct) simp_all

lemma deaths_append [simp]: "deaths (es @ fs) = deaths es @ deaths fs"
  by (induction es rule: deaths.induct) simp_all

text \<open>
  Outstanding calls have ids that were given out, a timer of their own if they have one, and no event
  yet; a timer that waits belongs to an outstanding call; timers are for different calls; and every call
  has at most one reply and one death, the latter only from a timer that has run.
\<close>

definition calls_inv :: "RpcClient \<Rightarrow> bool" where
  "calls_inv c \<longleftrightarrow> 0 \<le> methodId c
     \<and> (\<forall>i b. cbs c i = Some b \<longrightarrow> 1 \<le> i \<and> i \<le> methodId c \<and> (checkDead b \<longleftrightarrow> cb_dt b \<noteq> None)
          \<and> (\<forall>t. cb_dt b = Some t \<longrightarrow> t < length (timers c) \<and> dt_method (timers c ! t) = i))"

definition timers_inv :: "RpcClient \<Rightarrow> bool" where
  "timers_inv c \<longleftrightarrow> distinct (map dt_method (timers c))
     \<and> (\<forall>t < length (timers c). dt_method (timers c ! t) \<le> methodId c
          \<and> (dt_state (timers c ! t) = Waiting \<longrightarrow> map_option cb_dt (cbs c (dt_method (timers c ! t))) = Some (Some t)))"

definition events_inv :: "RpcClient \<Rightarrow> bool" where
  "events_inv c \<longleftrightarrow> distinct (responses (events c)) \<and> distinct (deaths (events c))
     \<and> (\<forall>i\<in>set (responses (events c)). i \<le> methodId c \<and> cbs c i = None)
     \<and> (\<forall>i\<in>set (deaths (events c)). i \<le> methodId c \<and> cbs c i = None
          \<and> (\<exists>t < length (timers c). dt_method (timers c ! t) = i \<and> dt_state (timers c ! t) = Finished))"

definition client_inv :: "RpcClient \<Rightarrow> bool" where
  "client_inv c \<longleftrightarrow> calls_inv c \<and> timers_inv c \<and> events_inv c"

lemma client_inv_session [simp]: "client_inv (c\<lparr>cl_session := s\<rparr>) = client_inv c"
  by (simp add: client_inv_def calls_inv_def timers_inv_def events_inv_def)

lemma calls_invI:
  assumes "0 \<le> methodId c"
    and "\<And>i b. cbs c i = Some b \<Longrightarrow> 1 \<le> i \<and> i \<le> methodId c \<and> (checkDead b \<longleftrightarrow> cb_dt b \<noteq> None)"
    and "\<And>i b t. cbs c i = Some b \<Longrightarrow> cb_dt b = Some t \<Longrightarrow> t < length (timers c) \<and> dt_method (timers c ! t) = i"
  shows "calls_inv c"
  using assms unfolding calls_inv_def by blast

lemma client_inv_call:
  assumes "client_inv c" "cbs c i = Some b"
  shows "1 \<le> i" "i \<le> methodId c" "checkDead b \<longleftrightarrow> cb_dt b \<noteq> None"
    and "\<And>t. cb_dt b = Some t \<Longrightarrow> t < length (timers c)" "\<And>t. cb_dt b = Some t \<Longrightarrow> dt_method (timers c ! t) = i"
  using assms unfolding client_inv_def calls_inv_def by blast+

lemma client_inv_nonneg: "client_inv c \<Longrightarrow> 0 \<le> methodId c"
  by (simp add: client_inv_def calls_inv_def)

text \<open>Changing the state of one timer.\<close>

definition set_state :: "nat \<Rightarrow> timer_state \<Rightarrow> RpcClient \<Rightarrow> RpcClient" where
  "set_state t st c = c\<lparr>timers := (timers c)[t := (timers c ! t)\<lparr>dt_state := st\<rparr>]\<rparr>"

lemma set_state_sel [simp]:
  "cbs (set_state t st c) = cbs c" "events (set_state t st c) = events c" "methodId (set_state t st c) = methodId c"
  "cl_session (set_state t st c) = cl_session c" "length (timers (set_state t st c)) = length (timers c)"
  by (simp_all add: set_state_def)

lemma set_state_nth:
  "u < length (timers c) \<Longrightarrow> timers (set_state t st c) ! u = (timers c ! u)\<lparr>dt_state := if u = t then st else dt_state (timers c ! u)\<rparr>"
  by (simp add: set_state_def nth_list_update)

lemma set_state_methods [simp]: "map dt_method (timers (set_state t st c)) = map dt_method (timers c)"
  by (rule nth_equalityI) (simp_all add: set_state_nth)

lemma set_state_dt_method [simp]:
  "u < length (timers c) \<Longrightarrow> dt_method (timers (set_state t st c) ! u) = dt_method (timers c ! u)"
  by (simp add: set_state_nth)

lemma client_inv_deaths:
  "client_inv c \<Longrightarrow> i \<in> set (deaths (events c)) \<Longrightarrow>
   \<exists>t < length (timers c). dt_method (timers c ! t) = i \<and> dt_state (timers c ! t) = Finished"
  by (simp add: client_inv_def events_inv_def)

lemma client_inv_set_state:
  assumes inv: "client_inv c" and t: "t < length (timers c)" "st \<noteq> Waiting"
    and fin: "dt_state (timers c ! t) \<noteq> Finished \<or> st = Finished"
  shows "client_inv (set_state t st c)"
proof -
  have "calls_inv (set_state t st c) = calls_inv c"
    unfolding calls_inv_def by (simp cong: conj_cong)
  then have "calls_inv (set_state t st c)" using inv by (simp add: client_inv_def)
  moreover have "timers_inv (set_state t st c)"
    using inv t(2) unfolding client_inv_def timers_inv_def by (simp add: set_state_nth)
  moreover have "\<exists>u < length (timers c). dt_method (timers (set_state t st c) ! u) = i \<and> dt_state (timers (set_state t st c) ! u) = Finished"
    if i: "i \<in> set (deaths (events c))" for i
  proof -
    obtain u where u: "u < length (timers c)" "dt_method (timers c ! u) = i" "dt_state (timers c ! u) = Finished"
      using client_inv_deaths [OF inv i] by blast
    then have "dt_state (timers (set_state t st c) ! u) = Finished" using fin by (auto simp: set_state_nth)
    then show ?thesis using u by (intro exI [of _ u]) simp
  qed
  then have "events_inv (set_state t st c)"
    using inv unfolding client_inv_def events_inv_def by simp
  ultimately show ?thesis by (simp add: client_inv_def)
qed

lemma timer_cancel_state:
  "timer_cancel t c = (if t < length (timers c) \<and> dt_state (timers c ! t) = Waiting then set_state t Aborted c else c)"
  by (simp add: timer_cancel_def set_state_def)

lemma timer_expires_state:
  "timer_expires t c = (if t < length (timers c) \<and> dt_state (timers c ! t) = Waiting then set_state t Expired c else c)"
  by (simp add: timer_expires_def set_state_def)

lemma client_inv_cancel: "client_inv c \<Longrightarrow> client_inv (timer_cancel t c)"
  by (simp add: timer_cancel_state client_inv_set_state)

lemma client_inv_release: "client_inv c \<Longrightarrow> client_inv (release b c)"
  by (simp add: release_def client_inv_cancel split: option.splits)

text \<open>A call that is over: its entry goes, and its timer must not be waiting.\<close>

lemma client_inv_erase:
  assumes inv: "client_inv c"
    and w: "\<And>t. t < length (timers c) \<Longrightarrow> dt_method (timers c ! t) = i \<Longrightarrow> dt_state (timers c ! t) \<noteq> Waiting"
  shows "client_inv (c\<lparr>cbs := (cbs c)(i := None)\<rparr>)"
proof -
  have "calls_inv (c\<lparr>cbs := (cbs c)(i := None)\<rparr>)"
    using inv unfolding client_inv_def calls_inv_def by (simp split: if_splits)
  moreover have "timers_inv (c\<lparr>cbs := (cbs c)(i := None)\<rparr>)"
    using inv w unfolding client_inv_def timers_inv_def by simp
  moreover have "events_inv (c\<lparr>cbs := (cbs c)(i := None)\<rparr>)"
    using inv unfolding client_inv_def events_inv_def by simp
  ultimately show ?thesis by (simp add: client_inv_def)
qed

lemma calls_timers_events [simp]:
  "calls_inv (c\<lparr>events := es\<rparr>) = calls_inv c" "timers_inv (c\<lparr>events := es\<rparr>) = timers_inv c"
  by (simp_all add: calls_inv_def timers_inv_def)

lemma client_inv_response:
  assumes inv: "client_inv c" and i: "i \<le> methodId c" "cbs c i = None" "i \<notin> set (responses (events c))"
  shows "client_inv (c\<lparr>events := events c @ [Response i k bs]\<rparr>)"
  using assms unfolding client_inv_def calls_timers_events events_inv_def by simp

lemma client_inv_dead:
  assumes inv: "client_inv c" and i: "cbs c i = None" "i \<notin> set (deaths (events c))"
    and t: "t < length (timers c)" "dt_method (timers c ! t) = i" "dt_state (timers c ! t) = Finished"
  shows "client_inv (c\<lparr>events := events c @ [Dead i k]\<rparr>)"
proof -
  have "i \<le> methodId c" using inv t(1,2) unfolding client_inv_def timers_inv_def by auto
  moreover have "\<exists>t < length (timers c). dt_method (timers c ! t) = i \<and> dt_state (timers c ! t) = Finished"
    using t by blast
  ultimately show ?thesis
    using inv i unfolding client_inv_def calls_timers_events events_inv_def by simp
qed

text \<open>Timers are told apart by their calls.\<close>

lemma timer_of_call:
  assumes "client_inv c" "t < length (timers c)" "u < length (timers c)" "dt_method (timers c ! t) = dt_method (timers c ! u)"
  shows "t = u"
proof -
  have "distinct (map dt_method (timers c))" using assms(1) unfolding client_inv_def timers_inv_def by blast
  from nth_eq_iff_index_eq [OF this, of t u] show ?thesis using assms(2-4) by simp
qed

lemma release_sel [simp]:
  "cbs (release b c) = cbs c" "events (release b c) = events c" "methodId (release b c) = methodId c"
  "cl_session (release b c) = cl_session c" "length (timers (release b c)) = length (timers c)"
  by (simp_all add: release_def timer_cancel_state split: option.splits)

lemma release_dt_method [simp]:
  "t < length (timers c) \<Longrightarrow> dt_method (timers (release b c) ! t) = dt_method (timers c ! t)"
  by (simp add: release_def timer_cancel_state split: option.splits)

text \<open>Releasing the callback of a call leaves no timer of the call waiting.\<close>

lemma released_not_waiting:
  assumes inv: "client_inv c" and t: "t < length (timers c)" "dt_method (timers c ! t) = i"
  shows "dt_state (timers (release (cbs c i) c) ! t) \<noteq> Waiting"
proof (cases "dt_state (timers c ! t) = Waiting")
  case True
  then have "map_option cb_dt (cbs c i) = Some (Some t)" using inv t unfolding client_inv_def timers_inv_def by auto
  then obtain b where "cbs c i = Some b" "cb_dt b = Some t" by auto
  then show ?thesis using t(1) True by (simp add: release_def timer_cancel_state set_state_nth)
next
  case False
  then show ?thesis using t(1) by (simp add: release_def timer_cancel_state set_state_nth split: option.splits)
qed

section \<open>Every step keeps the invariant\<close>

lemma client_inv_removeDeadRPC:
  assumes "client_inv c"
  shows "client_inv (removeDeadRPC i c)"
proof -
  have "client_inv ((release (cbs c i) c)\<lparr>cbs := (cbs (release (cbs c i) c))(i := None)\<rparr>)"
    by (rule client_inv_erase [OF client_inv_release [OF assms]])
      (use released_not_waiting [OF assms] in simp)
  then show ?thesis by (simp add: removeDeadRPC_def)
qed

lemma removeDeadRPC_sel [simp]:
  "cbs (removeDeadRPC i c) i = None" "events (removeDeadRPC i c) = events c"
  "length (timers (removeDeadRPC i c)) = length (timers c)"
  "t < length (timers c) \<Longrightarrow> dt_method (timers (removeDeadRPC i c) ! t) = dt_method (timers c ! t)"
  by (simp_all add: removeDeadRPC_def)

lemma release_finished:
  "t < length (timers c) \<Longrightarrow> dt_state (timers c ! t) = Finished \<Longrightarrow> dt_state (timers (release b c) ! t) = Finished"
  by (auto simp: release_def timer_cancel_state set_state_nth split: option.splits)

lemma client_inv_runs:
  assumes inv: "client_inv c"
  shows "client_inv (timer_runs t c)"
proof (cases "t < length (timers c) \<and> dt_state (timers c ! t) \<in> {Expired, Aborted}")
  case False
  then show ?thesis using inv by (auto simp: timer_runs_def)
next
  case True
  let ?i = "dt_method (timers c ! t)" let ?c = "set_state t Finished c" let ?d = "removeDeadRPC ?i ?c"
  have c: "client_inv ?c" using inv True by (simp add: client_inv_set_state)
  show ?thesis
  proof (cases "dt_state (timers c ! t) = Aborted")
    case err: True
    then have "timer_runs t c = ?c" using True by (simp add: timer_runs_def RpcDeadCallback_def set_state_def)
    then show ?thesis using c by simp
  next
    case False
    then have run: "timer_runs t c = ?d\<lparr>events := events ?d @ [Dead ?i (dt_handler (timers c ! t))]\<rparr>"
      using True by (simp add: timer_runs_def RpcDeadCallback_def set_state_def Let_def)
    have "?i \<notin> set (deaths (events ?d))"
    proof
      assume "?i \<in> set (deaths (events ?d))"
      then have "?i \<in> set (deaths (events c))" by simp
      from client_inv_deaths [OF inv this] obtain u
        where u: "u < length (timers c)" "dt_method (timers c ! u) = ?i" "dt_state (timers c ! u) = Finished" by blast
      have "u = t" using timer_of_call [OF inv u(1) _ u(2)] True by blast
      then show False using u(3) True by simp
    qed
    moreover have "dt_state (timers ?d ! t) = Finished"
      using True release_finished [of t ?c] by (simp add: removeDeadRPC_def set_state_nth)
    ultimately show ?thesis
      unfolding run using True
      by (intro client_inv_dead [OF client_inv_removeDeadRPC [OF c], where t = t]) simp_all
  qed
qed

lemma receive_cases:
  assumes "sessionReceiveMessage msg c = Some c'"
  obtains "c' = c"
  | i b bs where "cbs c i = Some b"
      "c' = (if checkDead b then release (Some b) c else c)
         \<lparr>cbs := (cbs c)(i := None), events := events c @ [Response i (cb_fun b) bs]\<rparr>"
proof -
  obtain m ok rpc where m: "getMessageStr msg = Some m" "ParseFromString m jme_rpc_new = Some (ok, rpc)"
    using assms by (auto simp: sessionReceiveMessage_def bind_eq_Some_conv)
  show ?thesis
  proof (cases "cbs c (sint (rpc_id rpc))")
    case None
    then show ?thesis using m assms that(1) by (simp add: sessionReceiveMessage_def)
  next
    case (Some b)
    show ?thesis
      using m assms Some that(2) [OF Some, of "params_of rpc"]
      by (cases "checkDead b"; cases "cb_dt b")
        (auto simp: sessionReceiveMessage_def Let_def release_def timer_cancel_def)
  qed
qed

lemma client_inv_receive:
  assumes inv: "client_inv c" and r: "sessionReceiveMessage msg c = Some c'"
  shows "client_inv c'"
  using r
proof (cases rule: receive_cases)
  case 1
  then show ?thesis using inv by simp
next
  case (2 i b bs)
  let ?r = "release (cbs c i) c"
  have "(if checkDead b then release (Some b) c else c) = ?r"
    using client_inv_call(3) [OF inv 2(1)] 2(1) by (simp add: release_def split: option.splits)
  then have c': "c' = (?r\<lparr>cbs := (cbs ?r)(i := None)\<rparr>)\<lparr>events := events c @ [Response i (cb_fun b) bs]\<rparr>"
    using 2(2) by simp
  have resp: "i \<notin> set (responses (events c))" using inv 2(1) by (auto simp: client_inv_def events_inv_def)
  have "client_inv (?r\<lparr>cbs := (cbs ?r)(i := None)\<rparr>)"
    by (rule client_inv_erase [OF client_inv_release [OF inv]]) (use released_not_waiting [OF inv] in simp)
  from client_inv_response [OF this, of i "cb_fun b" bs] show ?thesis
    using client_inv_call(2) [OF inv 2(1)] resp by (simp add: c')
qed

text \<open>A new call: its id was never used, so nothing is outstanding under it.\<close>

lemma fresh_call: "client_inv c \<Longrightarrow> cbs c (methodId c + 1) = None"
  using client_inv_call(2) [of c "methodId c + 1"] by (cases "cbs c (methodId c + 1)") auto

lemma fresh_timer: "client_inv c \<Longrightarrow> t < length (timers c) \<Longrightarrow> dt_method (timers c ! t) < methodId c + 1"
  unfolding client_inv_def timers_inv_def by force

lemma client_inv_next:
  assumes "client_inv c"
  shows "client_inv (c\<lparr>methodId := methodId c + 1\<rparr>)"
proof -
  have "calls_inv (c\<lparr>methodId := methodId c + 1\<rparr>)"
  proof (rule calls_invI)
    fix i b t
    assume "cbs (c\<lparr>methodId := methodId c + 1\<rparr>) i = Some b"
    then have b: "cbs c i = Some b" by simp
    show "1 \<le> i \<and> i \<le> methodId (c\<lparr>methodId := methodId c + 1\<rparr>) \<and> (checkDead b \<longleftrightarrow> cb_dt b \<noteq> None)"
      using client_inv_call(1-3) [OF assms b] by simp
    show "t < length (timers (c\<lparr>methodId := methodId c + 1\<rparr>)) \<and> dt_method (timers (c\<lparr>methodId := methodId c + 1\<rparr>) ! t) = i"
      if "cb_dt b = Some t"
      using client_inv_call(4,5) [OF assms b that] by simp
  qed (use client_inv_nonneg [OF assms] in simp)
  moreover have "timers_inv (c\<lparr>methodId := methodId c + 1\<rparr>)" "events_inv (c\<lparr>methodId := methodId c + 1\<rparr>)"
    using assms unfolding client_inv_def timers_inv_def events_inv_def by force+
  ultimately show ?thesis by (simp add: client_inv_def)
qed

text \<open>Entering the callback of the newest call, with a timer that is the last one or with none.\<close>

lemma client_inv_register:
  assumes inv: "client_inv c" and new: "i = methodId c" "cbs c i = None" "1 \<le> i"
    "i \<notin> set (responses (events c))" "i \<notin> set (deaths (events c))"
    and b: "checkDead b \<longleftrightarrow> cb_dt b \<noteq> None" "cb_dt b = None"
  shows "client_inv (c\<lparr>cbs := (cbs c)(i \<mapsto> b)\<rparr>)"
proof -
  have "calls_inv (c\<lparr>cbs := (cbs c)(i \<mapsto> b)\<rparr>)"
    by (rule calls_invI) (use client_inv_nonneg [OF inv] client_inv_call [OF inv] new b in \<open>auto split: if_splits\<close>)
  moreover have "timers_inv (c\<lparr>cbs := (cbs c)(i \<mapsto> b)\<rparr>)"
    using inv new(2) unfolding client_inv_def timers_inv_def by force
  moreover have "events_inv (c\<lparr>cbs := (cbs c)(i \<mapsto> b)\<rparr>)"
    using inv new(4,5) unfolding client_inv_def events_inv_def by force
  ultimately show ?thesis by (simp add: client_inv_def)
qed

lemma client_inv_register_dead:
  assumes inv: "client_inv c" and new: "i = methodId c" "cbs c i = None" "1 \<le> i"
    "i \<notin> set (responses (events c))" "i \<notin> set (deaths (events c))"
    "\<And>t. t < length (timers c) \<Longrightarrow> dt_method (timers c ! t) < i"
    and d: "dt_method d = i" "dt_state d = Waiting"
    and b: "checkDead b" "cb_dt b = Some (length (timers c))"
  shows "client_inv (c\<lparr>timers := timers c @ [d], cbs := (cbs c)(i \<mapsto> b)\<rparr>)" (is "client_inv ?c")
proof -
  have "calls_inv ?c"
    by (rule calls_invI)
      (use client_inv_nonneg [OF inv] client_inv_call [OF inv] new b d in \<open>auto simp: nth_append split: if_splits\<close>)
  moreover have "i \<notin> dt_method ` set (timers c)"
    using new(6) by (metis imageE in_set_conv_nth less_irrefl)
  then have "timers_inv ?c"
    using inv new(1,2) d b unfolding client_inv_def timers_inv_def by (auto simp: nth_append less_Suc_eq)
  moreover have "events_inv ?c"
    using inv new(4,5) unfolding client_inv_def events_inv_def by (auto simp: nth_append)
  ultimately show ?thesis by (simp add: client_inv_def)
qed

lemma fresh_events:
  assumes "client_inv c" "methodId c < i"
  shows "i \<notin> set (responses (events c))" "i \<notin> set (deaths (events c))"
  using assms unfolding client_inv_def events_inv_def by force+

definition registered :: "nat \<Rightarrow> RpcClient \<Rightarrow> RpcClient" where
  "registered cb c = c\<lparr>methodId := methodId c + 1, cbs := (cbs c)(methodId c + 1 \<mapsto> RpcCallback_create cb)\<rparr>"

definition registered_dead :: "nat \<Rightarrow> nat \<Rightarrow> RpcClient \<Rightarrow> RpcClient" where
  "registered_dead cb dcb c = c\<lparr>methodId := methodId c + 1,
     timers := timers c @ [\<lparr>dt_method = methodId c + 1, dt_handler = dcb, dt_state = Waiting\<rparr>],
     cbs := (cbs c)(methodId c + 1 \<mapsto> \<lparr>cb_fun = cb, cb_dt = Some (length (timers c)), checkDead = True\<rparr>)\<rparr>"

lemma client_inv_registered:
  assumes inv: "client_inv c"
  shows "client_inv (registered cb c)" "client_inv (registered_dead cb dcb c)"
proof -
  let ?c = "c\<lparr>methodId := methodId c + 1\<rparr>" let ?i = "methodId c + 1"
  have c: "client_inv ?c" by (rule client_inv_next [OF inv])
  have i: "cbs ?c ?i = None" "1 \<le> ?i" "?i \<notin> set (responses (events ?c))" "?i \<notin> set (deaths (events ?c))"
    using fresh_call [OF inv] client_inv_nonneg [OF inv] fresh_events [OF inv, of ?i] by simp_all
  show "client_inv (registered cb c)"
    using client_inv_register [OF c _ i, of "RpcCallback_create cb"] by (simp add: registered_def RpcCallback_create_def)
  show "client_inv (registered_dead cb dcb c)"
    using client_inv_register_dead [OF c _ i, of "\<lparr>dt_method = ?i, dt_handler = dcb, dt_state = Waiting\<rparr>"
        "\<lparr>cb_fun = cb, cb_dt = Some (length (timers c)), checkDead = True\<rparr>"] fresh_timer [OF inv]
    by (simp add: registered_dead_def)
qed

lemma call_cb_eq:
  assumes "client_inv c" "cl_session c = Some s"
  shows "callRpcMethod_cb debug x p cb c =
    (if \<not> isOk s then Some (False, c) else if methodId c = INT_MAX then None else send_call debug x p (registered cb c))"
  using fresh_call [OF assms(1)] assms(2)
  by (simp add: callRpcMethod_cb_def Let_def release_def registered_def)

lemma call_dead_eq:
  assumes "client_inv c" "cl_session c = Some s"
  shows "callRpcMethod_dead debug x p cb dcb c =
    (if \<not> isOk s then Some (False, c) else if methodId c = INT_MAX then None else send_call debug x p (registered_dead cb dcb c))"
  using fresh_call [OF assms(1)] assms(2)
  by (simp add: callRpcMethod_dead_def RpcCallback_create_dead_def Let_def release_def registered_dead_def)

lemma send_call_session: "send_call debug x p c = Some (r, c') \<Longrightarrow> \<exists>s. c' = c\<lparr>cl_session := s\<rparr>"
  by (auto simp: send_call_def bind_eq_Some_conv)

lemma read_error_session:
  "sessionReadError rsv cn c = Some r \<Longrightarrow> \<exists>s. r = Inl (c\<lparr>cl_session := s\<rparr>) \<or> r = Inr (c\<lparr>cl_session := s\<rparr>)"
  by (cases "cl_session c"; cases "reconnect rsv cn (resetReadBuffer (the (cl_session c)))")
    (auto simp: sessionReadError_def)

lemma connect_succeed_session:
  "sessionConnectSucceed addr prt nb c = Some c' \<Longrightarrow> \<exists>s. c' = c\<lparr>cl_session := s\<rparr>"
  by (auto simp: sessionConnectSucceed_def bind_eq_Some_conv)

lemma client_step_inv: "client_step c c' \<Longrightarrow> client_inv c \<Longrightarrow> client_inv c'"
proof (induction rule: client_step.induct)
  case (step_call debug x p c r c')
  then show ?case
    using client_inv_next [OF step_call(2)]
    by (auto simp: callRpcMethod_def bind_eq_Some_conv split: if_splits dest!: send_call_session)
next
  case (step_call_cb debug x p cb c r c')
  then obtain s where s: "cl_session c = Some s" by (auto simp: callRpcMethod_cb_def bind_eq_Some_conv)
  show ?case
    using step_call_cb client_inv_registered(1) [OF step_call_cb(2), of cb] unfolding call_cb_eq [OF step_call_cb(2) s]
    by (auto split: if_splits dest!: send_call_session)
next
  case (step_call_dead debug x p cb dcb c r c')
  then obtain s where s: "cl_session c = Some s" by (auto simp: callRpcMethod_dead_def bind_eq_Some_conv)
  show ?case
    using step_call_dead client_inv_registered(2) [OF step_call_dead(2), of cb dcb] unfolding call_dead_eq [OF step_call_dead(2) s]
    by (auto split: if_splits dest!: send_call_session)
next
  case (step_expires c t)
  then show ?case by (simp add: timer_expires_state client_inv_set_state)
qed (auto simp: client_inv_receive client_inv_runs dest!: read_error_session connect_succeed_session)

lemma client_inv_new: "RpcClient_new nedmalloc nid rsv cn a p n r = Inr c \<Longrightarrow> client_inv c"
  by (auto simp: RpcClient_new_def client_inv_def calls_inv_def timers_inv_def events_inv_def split: sum.splits)

lemma client_run_inv: "client_step\<^sup>*\<^sup>* c c' \<Longrightarrow> client_inv c \<Longrightarrow> client_inv c'"
  by (induction rule: rtranclp_induct) (simp_all add: client_step_inv)

section \<open>Calls and replies\<close>

text \<open>What a call puts into the queue of a session that is connected.\<close>

lemma send_call_queues:
  assumes small: "small_call x p" and s: "cl_session c = Some s" "tcp_inv s" "isOk s"
  shows "\<exists>r s'. send_call debug x p c = Some (r, c\<lparr>cl_session := Some s'\<rparr>) \<and> tcp_inv s' \<and> isOk s'
    \<and> (r \<longleftrightarrow> length (outgoing s) + length (encode (rpc_wire (word_of_int (methodId c)) x p)) \<le> writeBufferSize s)
    \<and> outgoing s' = outgoing s @ (if r \<and> socket_open s then encode (rpc_wire (word_of_int (methodId c)) x p) else [])"
proof -
  let ?i = "word_of_int (methodId c)"
  obtain m1 where "SerializeAsString debug (rpc_message ?i x p) = Some (SerializeWithCachedSizesToArray (rpc_message ?i x p), m1)"
    using serialize_rpc_message(1) [OF small] by blast
  moreover obtain r s' where "writeMessage (rpc_wire ?i x p) s = Some (r, s')" "tcp_inv s'" "isOk s' = isOk s"
      "r \<longleftrightarrow> isOk s \<and> length (outgoing s) + length (encode (rpc_wire ?i x p)) \<le> writeBufferSize s"
      "outgoing s' = outgoing s @ (if r \<and> socket_open s then encode (rpc_wire ?i x p) else [])"
    using session.send_law [OF s(2) rpc_wire_ok(1) [OF small]] by blast
  ultimately show ?thesis
    using s by (auto simp: send_call_def Let_def rpc_message_def [symmetric] rpc_wire_def [symmetric])
qed

text \<open>What a reply does.\<close>

lemma receive_reply:
  assumes small: "small_call x p" and b: "cbs c (sint i) = Some b" "checkDead b \<longleftrightarrow> cb_dt b \<noteq> None"
  shows "sessionReceiveMessage (rpc_wire i x p) c
    = Some ((release (Some b) c)\<lparr>cbs := (cbs c)(sint i := None), events := events c @ [Response (sint i) (cb_fun b) p]\<rparr>)"
proof -
  obtain m2 where "ParseFromString (SerializeWithCachedSizesToArray (rpc_message i x p)) jme_rpc_new = Some (True, m2)"
      "rpc_id m2 = i" "params_of m2 = p"
    using rpc_message_roundtrip [OF small, of True i jme_rpc_new] by blast
  then show ?thesis
    using rpc_wire_ok(2) [OF small, of i] b
    by (cases "cb_dt b") (auto simp: sessionReceiveMessage_def Let_def release_def timer_cancel_def)
qed

text \<open>
  A call whose timer was cancelled in time: the timer never reports it dead.
\<close>

definition settled :: "nat \<Rightarrow> int \<Rightarrow> RpcClient \<Rightarrow> bool" where
  "settled t i c \<longleftrightarrow> t < length (timers c) \<and> dt_method (timers c ! t) = i
     \<and> dt_state (timers c ! t) \<in> {Aborted, Finished} \<and> i \<notin> set (deaths (events c))"

lemma settled_session [simp]: "settled t i (c\<lparr>cl_session := s\<rparr>) = settled t i c"
  by (simp add: settled_def)

lemma settled_release: "settled t i c \<Longrightarrow> settled t i (release b c)"
  by (auto simp: settled_def release_def timer_cancel_state set_state_nth split: option.splits)

lemma settled_runs:
  assumes inv: "client_inv c" and st: "settled t i c"
  shows "settled t i (timer_runs u c)"
proof (cases "u < length (timers c) \<and> dt_state (timers c ! u) \<in> {Expired, Aborted}")
  case False
  then show ?thesis using st by (auto simp: timer_runs_def)
next
  case True
  let ?c = "set_state u Finished c"
  have c: "settled t i ?c" using st by (auto simp: settled_def set_state_nth)
  have "timer_runs u c = RpcDeadCallback (dt_state (timers c ! u) = Aborted) (dt_method (timers c ! u)) (dt_handler (timers c ! u)) ?c"
    using True by (simp add: timer_runs_def set_state_def)
  moreover have "settled t i (RpcDeadCallback False (dt_method (timers c ! u)) k ?c)" if "dt_state (timers c ! u) = Expired" for k
  proof -
    have "dt_method (timers c ! u) \<noteq> i"
    proof
      assume "dt_method (timers c ! u) = i"
      with st True have "t = u" by (intro timer_of_call [OF inv]) (simp_all add: settled_def)
      then show False using st that by (simp add: settled_def)
    qed
    then show ?thesis
      using settled_release [OF c, of "cbs c (dt_method (timers c ! u))"]
      by (simp add: RpcDeadCallback_def removeDeadRPC_def Let_def settled_def)
  qed
  ultimately show ?thesis using True c by (cases "dt_state (timers c ! u) = Aborted") (auto simp: RpcDeadCallback_def)
qed

lemma settled_receive:
  assumes "sessionReceiveMessage msg c = Some c'" "settled t i c"
  shows "settled t i c'"
  using assms(1)
proof (cases rule: receive_cases)
  case (2 j b bs)
  have "settled t i (if checkDead b then release (Some b) c else c)" using settled_release [OF assms(2)] assms(2) by simp
  then show ?thesis using assms(2) by (simp add: 2(2) settled_def)
qed (simp add: assms(2))

lemma settled_registered:
  assumes "settled t i c"
  shows "settled t i (registered cb c)" "settled t i (registered_dead cb dcb c)"
  using assms by (auto simp: settled_def registered_def registered_dead_def nth_append)

lemma settled_step: "client_step c c' \<Longrightarrow> client_inv c \<Longrightarrow> settled t i c \<Longrightarrow> settled t i c'"
proof (induction rule: client_step.induct)
  case (step_call debug x p c r c')
  have "settled t i (c\<lparr>methodId := methodId c + 1\<rparr>) = settled t i c" by (simp add: settled_def)
  then show ?case
    using step_call by (auto simp: callRpcMethod_def bind_eq_Some_conv split: if_splits dest!: send_call_session)
next
  case (step_call_cb debug x p cb c r c')
  then obtain s where s: "cl_session c = Some s" by (auto simp: callRpcMethod_cb_def bind_eq_Some_conv)
  show ?case
    using step_call_cb settled_registered(1) [OF step_call_cb(3), of cb] unfolding call_cb_eq [OF step_call_cb(2) s]
    by (auto split: if_splits dest!: send_call_session)
next
  case (step_call_dead debug x p cb dcb c r c')
  then obtain s where s: "cl_session c = Some s" by (auto simp: callRpcMethod_dead_def bind_eq_Some_conv)
  show ?case
    using step_call_dead settled_registered(2) [OF step_call_dead(3), of cb dcb] unfolding call_dead_eq [OF step_call_dead(2) s]
    by (auto split: if_splits dest!: send_call_session)
next
  case (step_receive msg c c')
  then show ?case by (metis settled_receive)
next
  case (step_expires c u)
  then show ?case by (auto simp: timer_expires_state settled_def set_state_nth)
next
  case (step_runs c u)
  then show ?case by (rule settled_runs)
qed (auto dest!: read_error_session connect_succeed_session)

lemma settled_run: "client_step\<^sup>*\<^sup>* c c' \<Longrightarrow> client_inv c \<Longrightarrow> settled t i c \<Longrightarrow> settled t i c'"
  by (induction rule: rtranclp_induct) (auto intro: settled_step dest: client_run_inv)

lemma client_inv_events:
  "client_inv c \<Longrightarrow> cbs c i = Some b \<Longrightarrow> i \<notin> set (deaths (events c)) \<and> i \<notin> set (responses (events c))"
  by (auto simp: client_inv_def events_inv_def)

lemma reply_settles:
  assumes inv: "client_inv c" and b: "cbs c (sint i) = Some b" "cb_dt b = Some t" "dt_state (timers c ! t) = Waiting"
    and small: "small_call x p"
  shows "\<exists>c1. sessionReceiveMessage (rpc_wire i x p) c = Some c1 \<and> events c1 = events c @ [Response (sint i) (cb_fun b) p]
    \<and> settled t (sint i) c1"
proof -
  have t: "t < length (timers c)" "dt_method (timers c ! t) = sint i"
    using client_inv_call(4,5) [OF inv b(1)] b(2) by blast+
  then show ?thesis
    using receive_reply [OF small b(1) client_inv_call(3) [OF inv b(1)]] b client_inv_events [OF inv b(1)]
    by (simp add: release_def timer_cancel_state settled_def set_state_nth)
qed

text \<open>A reply behind an expired timer.\<close>

lemma late_reply_aux:
  assumes inv: "client_inv c" and b: "cbs c (sint i) = Some b" "cb_dt b = Some t" "dt_state (timers c ! t) = Expired"
    and small: "small_call x p"
  shows "\<exists>c1. sessionReceiveMessage (rpc_wire i x p) c = Some c1
    \<and> events (timer_runs t c1) = events c @ [Response (sint i) (cb_fun b) p, Dead (sint i) (dt_handler (timers c ! t))]"
proof -
  have t: "t < length (timers c)" "dt_method (timers c ! t) = sint i"
    using client_inv_call(4,5) [OF inv b(1)] b(2) by blast+
  then show ?thesis
    using receive_reply [OF small b(1) client_inv_call(3) [OF inv b(1)]] b
    by (simp add: release_def timer_cancel_state timer_runs_def RpcDeadCallback_def removeDeadRPC_def Let_def)
qed


lemma rpc_wire_length:
  assumes "small_call x p"
  shows "length x + length p + 17 \<le> length (encode (rpc_wire i x p))"
  using wf_msg_encode [OF rpc_wire_ok(1) [OF assms], of i] by (simp add: rpc_wire_def MessageHeaderLength_def rpc_message_bytes)

text \<open>A connected client with one call outstanding, as the examples below use it.\<close>

lemma one_call:
  "\<exists>c0 c. RpcClient_new (\<lambda>n. replicate n 0) 0 (\<lambda>_ _. True) (\<lambda>_ _. None) [] [] 100 5 = Inr c0 \<and> client_step\<^sup>*\<^sup>* c0 c
     \<and> cbs c = [1 \<mapsto> \<lparr>cb_fun = 3, cb_dt = Some 0, checkDead = True\<rparr>] \<and> events c = []
     \<and> timers c = [\<lparr>dt_method = 1, dt_handler = 4, dt_state = Waiting\<rparr>]"
proof -
  let ?s = "(TcpSession_new [] (replicate 100 0) 0 0)\<lparr>status := Connected, socket_open := True\<rparr>"
  obtain c where c: "RpcClient_new (\<lambda>n. replicate n 0) 0 (\<lambda>_ _. True) (\<lambda>_ _. None) [] [] 100 5 = Inr c"
      "methodId c = 0" "cbs c = Map.empty" "timers c = []" "events c = []"
    by (simp add: RpcClient_new_def connect_def onConnect_def TcpSession_new_def Let_def)
  let ?c = "registered_dead 3 4 (c\<lparr>cl_session := Some ?s\<rparr>)"
  have s: "tcp_inv ?s" "isOk ?s"
    using tcp_inv_new [of "[]" "replicate 100 0"] by (simp_all add: isOk_def)
  have inv: "client_inv (c\<lparr>cl_session := Some ?s\<rparr>)" using client_inv_new [OF c(1)] by simp
  obtain r s' where "send_call True [0x61] [1, 2] ?c = Some (r, ?c\<lparr>cl_session := Some s'\<rparr>)"
    using send_call_queues [of "[0x61]" "[1, 2]" ?c ?s True] s by (auto simp: registered_dead_def)
  then have "callRpcMethod_dead True [0x61] [1, 2] 3 4 (c\<lparr>cl_session := Some ?s\<rparr>) = Some (r, ?c\<lparr>cl_session := Some s'\<rparr>)"
    using call_dead_eq [OF inv, of ?s] s c(2) by (simp add: INT_MAX_def)
  from step_call_dead [OF this] have "client_step\<^sup>*\<^sup>* c (?c\<lparr>cl_session := Some s'\<rparr>)"
    using step_session [of c "Some ?s"] by (meson converse_rtranclp_into_rtranclp r_into_rtranclp)
  then show ?thesis using c by (intro exI [of _ c] exI [of _ "?c\<lparr>cl_session := Some s'\<rparr>"]) (simp add: registered_dead_def)
qed

section \<open>Properties\<close>

text \<open>
  C23 (invariant). Along every run of a new client, in every order of calls, replies, time-outs and
  changes of its session, each call is answered at most once and reported dead at most once; a call
  that is still outstanding has had neither, and a timer that is still waiting belongs to an outstanding
  call.
\<close>

theorem client_once:
  assumes "RpcClient_new nedmalloc nid rsv cn a p n r = Inr c" "client_step\<^sup>*\<^sup>* c c'"
  shows "distinct (responses (events c')) \<and> distinct (deaths (events c'))
    \<and> (\<forall>i. cbs c' i \<noteq> None \<longrightarrow> i \<notin> set (responses (events c')) \<union> set (deaths (events c')))
    \<and> (\<forall>t < length (timers c'). dt_state (timers c' ! t) = Waiting \<longrightarrow> cbs c' (dt_method (timers c' ! t)) \<noteq> None)"
proof -
  have inv: "client_inv c'" using client_run_inv [OF assms(2)] client_inv_new [OF assms(1)] by blast
  then have "cbs c' (dt_method (timers c' ! t)) \<noteq> None" if "t < length (timers c')" "dt_state (timers c' ! t) = Waiting" for t
    using that unfolding client_inv_def timers_inv_def by auto
  moreover have "i \<notin> set (responses (events c')) \<union> set (deaths (events c'))" if "cbs c' i \<noteq> None" for i
    using inv that unfolding client_inv_def events_inv_def by auto
  moreover have "distinct (responses (events c'))" "distinct (deaths (events c'))"
    using inv unfolding client_inv_def events_inv_def by blast+
  ultimately show ?thesis by blast
qed

theorem client_once_witness:
  "\<exists>c. RpcClient_new (\<lambda>n. replicate n 0) 0 (\<lambda>_ _. True) (\<lambda>_ _. None) [] [] 100 5 = Inr c
    \<and> distinct (responses (events (timer_runs 0 c)))"
proof -
  obtain c where c: "RpcClient_new (\<lambda>n. replicate n 0) 0 (\<lambda>_ _. True) (\<lambda>_ _. None) [] [] 100 5 = Inr c"
    by (simp add: RpcClient_new_def connect_def onConnect_def TcpSession_new_def Let_def)
  have "client_step\<^sup>*\<^sup>* c (timer_runs 0 c)" by (rule r_into_rtranclp) (rule step_runs)
  then show ?thesis using client_once [OF c] c by blast
qed

text \<open>
  C24 (safety). A reply that arrives while the timer of its call is still waiting runs the callback with
  the parameters the server sent, and from then on, whatever happens, the call is never reported dead.
\<close>

theorem answered_in_time:
  assumes "RpcClient_new nedmalloc nid rsv cn a prt n r = Inr c0" "client_step\<^sup>*\<^sup>* c0 c"
    and "cbs c (sint i) = Some b" "cb_dt b = Some t" "dt_state (timers c ! t) = Waiting" "small_call x p"
  shows "\<exists>c1. sessionReceiveMessage (rpc_wire i x p) c = Some c1 \<and> events c1 = events c @ [Response (sint i) (cb_fun b) p]
    \<and> (\<forall>c2. client_step\<^sup>*\<^sup>* c1 c2 \<longrightarrow> sint i \<notin> set (deaths (events c2)))"
proof -
  have inv: "client_inv c" using client_run_inv [OF assms(2)] client_inv_new [OF assms(1)] by blast
  obtain c1 where c1: "sessionReceiveMessage (rpc_wire i x p) c = Some c1" "settled t (sint i) c1"
      "events c1 = events c @ [Response (sint i) (cb_fun b) p]"
    using reply_settles [OF inv assms(3-6)] by blast
  have "client_inv c1" using client_step_inv [OF step_receive [OF c1(1)] inv] .
  then have "sint i \<notin> set (deaths (events c2))" if "client_step\<^sup>*\<^sup>* c1 c2" for c2
    using settled_run [OF that _ c1(2)] by (simp add: settled_def)
  with c1 show ?thesis by blast
qed

theorem answered_in_time_witness:
  "\<exists>c c1. sessionReceiveMessage (rpc_wire 1 [0x61] [2, 1]) c = Some c1 \<and> events c1 = [Response 1 3 [2, 1]]
    \<and> 1 \<notin> set (deaths (events (timer_runs 0 (timer_expires 0 c1))))"
proof -
  obtain c0 c where c: "RpcClient_new (\<lambda>n. replicate n 0) 0 (\<lambda>_ _. True) (\<lambda>_ _. None) [] [] 100 5 = Inr c0"
      "client_step\<^sup>*\<^sup>* c0 c" "cbs c = [1 \<mapsto> \<lparr>cb_fun = 3, cb_dt = Some 0, checkDead = True\<rparr>]" "events c = []"
      "timers c = [\<lparr>dt_method = 1, dt_handler = 4, dt_state = Waiting\<rparr>]"
    using one_call by blast
  obtain c1 where c1: "sessionReceiveMessage (rpc_wire 1 [0x61] [2, 1]) c = Some c1" "events c1 = [Response 1 3 [2, 1]]"
      "\<forall>c2. client_step\<^sup>*\<^sup>* c1 c2 \<longrightarrow> 1 \<notin> set (deaths (events c2))"
    using answered_in_time [OF c(1,2), of 1 "\<lparr>cb_fun = 3, cb_dt = Some 0, checkDead = True\<rparr>" 0 "[0x61]" "[2, 1]"]
      c(3-5) by auto
  have "client_step\<^sup>*\<^sup>* c1 (timer_runs 0 (timer_expires 0 c1))"
    by (meson step_expires step_runs converse_rtranclp_into_rtranclp r_into_rtranclp)
  with c1 show ?thesis by blast
qed

text \<open>
  C39 (error behaviour). Cancelling a timer does not take back a handler that is already queued: a reply
  that arrives between the expiry of a call's timer and the run of its handler runs the callback of the
  call, and then its dead handler as well.
\<close>

theorem late_reply_both:
  assumes "RpcClient_new nedmalloc nid rsv cn a prt n r = Inr c0" "client_step\<^sup>*\<^sup>* c0 c"
    and "cbs c (sint i) = Some b" "cb_dt b = Some t" "dt_state (timers c ! t) = Expired" "small_call x p"
  shows "\<exists>c1. sessionReceiveMessage (rpc_wire i x p) c = Some c1
    \<and> events (timer_runs t c1) = events c @ [Response (sint i) (cb_fun b) p, Dead (sint i) (dt_handler (timers c ! t))]"
  using late_reply_aux [OF client_run_inv [OF assms(2) client_inv_new [OF assms(1)]] assms(3-6)] .

theorem late_reply_both_witness:
  "\<exists>c c1. sessionReceiveMessage (rpc_wire 1 [0x61] [2, 1]) c = Some c1
    \<and> events (timer_runs 0 c1) = [Response 1 3 [2, 1], Dead 1 4]"
proof -
  obtain c0 c where c: "RpcClient_new (\<lambda>n. replicate n 0) 0 (\<lambda>_ _. True) (\<lambda>_ _. None) [] [] 100 5 = Inr c0"
      "client_step\<^sup>*\<^sup>* c0 c" "cbs c = [1 \<mapsto> \<lparr>cb_fun = 3, cb_dt = Some 0, checkDead = True\<rparr>]" "events c = []"
      "timers c = [\<lparr>dt_method = 1, dt_handler = 4, dt_state = Waiting\<rparr>]"
    using one_call by blast
  have run: "client_step\<^sup>*\<^sup>* c0 (timer_expires 0 c)" using c(2) step_expires by (rule rtranclp.rtrancl_into_rtrancl)
  show ?thesis
    using late_reply_both [OF c(1) run, of 1 "\<lparr>cb_fun = 3, cb_dt = Some 0, checkDead = True\<rparr>" 0 "[0x61]" "[2, 1]"] c(3-5)
    by (auto simp: timer_expires_def)
qed

text \<open>
  C40 (error behaviour). A call that does not fit into the write buffer returns false but stays
  registered, with its timer running: the dead handler of a call that was never sent runs when the timer
  does.
\<close>

theorem refused_call_stays:
  assumes "client_inv c" "cl_session c = Some s" "tcp_inv s" "isOk s" "methodId c < INT_MAX" "small_call x p"
    and "writeBufferSize s < length (outgoing s) + length (encode (rpc_wire (word_of_int (methodId c + 1)) x p))"
  shows "\<exists>c'. callRpcMethod_dead debug x p cb dcb c = Some (False, c')
    \<and> cbs c' (methodId c + 1) = Some \<lparr>cb_fun = cb, cb_dt = Some (length (timers c)), checkDead = True\<rparr>
    \<and> events (timer_runs (length (timers c)) (timer_expires (length (timers c)) c')) = events c @ [Dead (methodId c + 1) dcb]"
proof -
  obtain r s' where "send_call debug x p (registered_dead cb dcb c) = Some (r, (registered_dead cb dcb c)\<lparr>cl_session := Some s'\<rparr>)"
      "\<not> r"
    using send_call_queues [OF assms(6), of "registered_dead cb dcb c" s debug] assms(2-4,7) by (auto simp: registered_dead_def)
  then have "callRpcMethod_dead debug x p cb dcb c = Some (False, (registered_dead cb dcb c)\<lparr>cl_session := Some s'\<rparr>)"
    using call_dead_eq [OF assms(1,2)] assms(4,5) by simp
  then show ?thesis
    by (simp add: registered_dead_def timer_expires_def timer_runs_def RpcDeadCallback_def removeDeadRPC_def Let_def release_def timer_cancel_def)
qed

theorem refused_call_stays_witness:
  "let s = (TcpSession_new [] (replicate 18 0) 0 0)\<lparr>status := Connected, socket_open := True\<rparr>;
       c = \<lparr>cl_session = Some s, methodId = 0, cbs = Map.empty, timers = [], events = []\<rparr> in
   \<exists>c'. callRpcMethod_dead True [0x61] [1, 2] 3 4 c = Some (False, c')
     \<and> events (timer_runs 0 (timer_expires 0 c')) = [Dead 1 4]"
proof -
  let ?s = "(TcpSession_new [] (replicate 18 0) 0 0)\<lparr>status := Connected, socket_open := True\<rparr>"
  let ?c = "\<lparr>cl_session = Some ?s, methodId = 0, cbs = Map.empty, timers = [], events = []\<rparr>"
  have inv: "tcp_inv ?s" using tcp_inv_new [of "[]" "replicate 18 0"] by simp
  have s: "isOk ?s" "outgoing ?s = []" "writeBufferSize ?s = 18"
    by (simp_all add: isOk_def TcpSession_new_def outgoing_def)
  have c: "client_inv ?c" by (simp add: client_inv_def calls_inv_def timers_inv_def events_inv_def)
  have "18 < length (encode (rpc_wire (word_of_int 1) [0x61] [1, 2]))"
    using rpc_wire_length [of "[0x61]" "[1, 2]" 1] by simp
  then show ?thesis
    using refused_call_stays [OF c, of ?s "[0x61]" "[1, 2]" True 3 4] inv s by (auto simp: INT_MAX_def)
qed


text \<open>
  C38 (error behaviour). \<open>RpcClient::create\<close> passes the buffer size and the reconnect interval in the wrong
  order: its session has buffers of as many bytes as the interval has seconds, so that every call that is
  longer returns false, however the connection does.
\<close>

theorem created_client_cannot_call:
  assumes "\<And>n. length (nedmalloc n) = n" "RpcClient_create nedmalloc nid rsv cn a prt buffSize interval = Inr c"
    and "small_call x p" "interval < length x + length p + 17"
  shows "\<exists>s. cl_session c = Some s \<and> writeBufferSize s = interval \<and> reconnectInterval s = buffSize
    \<and> (\<forall>es s'. tcp_run s es s' \<longrightarrow> (\<exists>c'. callRpcMethod debug x p (c\<lparr>cl_session := Some s'\<rparr>) = Some (False, c')))"
proof -
  obtain s where s: "cl_session c = Some s" "methodId c = 0"
      "connect rsv cn a prt (TcpSession_new (nedmalloc interval) (nedmalloc interval) nid buffSize) = Inr s"
    using assms(2) by (auto simp: RpcClient_create_def RpcClient_new_def split: sum.splits)
  then have size: "writeBufferSize s = interval" "reconnectInterval s = buffSize"
    using assms(1) by (auto simp: connect_def onConnect_def TcpSession_new_def Let_def split: if_splits option.splits)
  have "\<exists>c'. callRpcMethod debug x p (c\<lparr>cl_session := Some s'\<rparr>) = Some (False, c')" if "tcp_run s es s'" for es s'
  proof -
    have "tcp_inv s"
      using data_eq_endpoint [OF data_eq_onConnect [OF disjI1 [OF s(3) [unfolded connect_def]]]] assms(1,3,4)
        tcp_inv_new [of "nedmalloc interval" "nedmalloc interval"] by (simp add: data_eq_def)
    then have inv: "tcp_inv s'" "writeBufferSize s' = interval"
      using tcp_run_data [OF that] capacity_run [OF that] size by auto
    show ?thesis
    proof (cases "isOk s'")
      case False
      then show ?thesis by (simp add: callRpcMethod_def)
    next
      case True
      then show ?thesis
        using send_call_queues [OF assms(3), of "c\<lparr>cl_session := Some s', methodId := 1\<rparr>" s' debug] inv s(2)
          rpc_wire_length [OF assms(3), of 1] assms(4) by (auto simp: callRpcMethod_def INT_MAX_def)
    qed
  qed
  with s(1) size show ?thesis by blast
qed

theorem created_client_cannot_call_witness:
  "\<exists>c s. RpcClient_create (\<lambda>n. replicate n 0) 0 (\<lambda>_ _. True) (\<lambda>_ _. None) [] [] 65536 5 = Inr c \<and> cl_session c = Some s
    \<and> writeBufferSize s = 5 \<and> (\<exists>c'. callRpcMethod True [0x61] [1, 2] c = Some (False, c'))"
proof -
  obtain c where c: "RpcClient_create (\<lambda>n. replicate n 0) 0 (\<lambda>_ _. True) (\<lambda>_ _. None) [] [] 65536 5 = Inr c"
    by (simp add: RpcClient_create_def RpcClient_new_def connect_def onConnect_def TcpSession_new_def Let_def)
  obtain s where s: "cl_session c = Some s" "writeBufferSize s = 5"
      "\<forall>es s'. tcp_run s es s' \<longrightarrow> (\<exists>c'. callRpcMethod True [0x61] [1, 2] (c\<lparr>cl_session := Some s'\<rparr>) = Some (False, c'))"
    using created_client_cannot_call [OF _ c, of "[0x61]" "[1, 2]" True] by auto
  have "c\<lparr>cl_session := Some s\<rparr> = c" using s(1) by simp
  with s c run_nil [of s] show ?thesis by metis
qed

end
