(* ===== verification/JME_Encrypt.thy ===== *)
theory JME_Encrypt
  imports JME_BlowfishTables "HOL-Library.Monad_Syntax"
begin

text \<open>
  The cipher (include/util/JME_Encrypt.h, source/util/JME_Encrypt.cpp): the block cipher with its key
  schedule, the three modes over buffers, in place and from one buffer to another, and the static
  functions on strings. Pointers into buffers are offsets; an access outside a buffer makes the result
  \<^term>\<open>None\<close>.
\<close>

section \<open>Blocks\<close>

record SBlock =
  m_uil :: "32 word"
  m_uir :: "32 word"

definition xor_SBlock :: "SBlock \<Rightarrow> SBlock \<Rightarrow> SBlock" where
  "xor_SBlock a b = \<lparr>m_uil = m_uil a XOR m_uil b, m_uir = m_uir a XOR m_uir b\<rparr>"

record CBlowFish =
  m_oChain0 :: SBlock
  m_oChain :: SBlock
  m_auiP :: "32 word list"
  m_auiS :: "32 word list list"

definition Byte :: "32 word \<Rightarrow> byte" where
  "Byte ui = ucast (ui AND 0xff)"

definition F :: "CBlowFish \<Rightarrow> 32 word \<Rightarrow> 32 word" where
  "F bf ui =
     ((m_auiS bf ! 0 ! unat (Byte (drop_bit 24 ui)) + m_auiS bf ! 1 ! unat (Byte (drop_bit 16 ui)))
        XOR m_auiS bf ! 2 ! unat (Byte (drop_bit 8 ui))) + m_auiS bf ! 3 ! unat (Byte ui)"

text \<open>One line of the sixteen rounds: \<open>uiRight ^= F(uiLeft)^m_auiP[i]; uiLeft ^= F(uiRight)^m_auiP[j]\<close>.\<close>

definition rounds2 :: "CBlowFish \<Rightarrow> nat \<times> nat \<Rightarrow> 32 word \<times> 32 word \<Rightarrow> 32 word \<times> 32 word" where
  "rounds2 bf ij lr =
     (let (i, j) = ij; (uiLeft, uiRight) = lr;
          uiRight = uiRight XOR (F bf uiLeft XOR m_auiP bf ! i);
          uiLeft = uiLeft XOR (F bf uiRight XOR m_auiP bf ! j)
      in (uiLeft, uiRight))"

definition Encrypt_4 :: "CBlowFish \<Rightarrow> SBlock \<Rightarrow> SBlock" where
  "Encrypt_4 bf block =
     (let uiLeft = m_uil block XOR m_auiP bf ! 0;
          (uiLeft, uiRight) =
            fold (rounds2 bf) [(1, 2), (3, 4), (5, 6), (7, 8), (9, 10), (11, 12), (13, 14), (15, 16)]
              (uiLeft, m_uir block);
          uiRight = uiRight XOR m_auiP bf ! 17
      in \<lparr>m_uil = uiRight, m_uir = uiLeft\<rparr>)"

definition Decrypt_4 :: "CBlowFish \<Rightarrow> SBlock \<Rightarrow> SBlock" where
  "Decrypt_4 bf block =
     (let uiLeft = m_uil block XOR m_auiP bf ! 17;
          (uiLeft, uiRight) =
            fold (rounds2 bf) [(16, 15), (14, 13), (12, 11), (10, 9), (8, 7), (6, 5), (4, 3), (2, 1)]
              (uiLeft, m_uir block);
          uiRight = uiRight XOR m_auiP bf ! 0
      in \<lparr>m_uil = uiRight, m_uir = uiLeft\<rparr>)"

section \<open>Key schedule\<close>

text \<open>
  The inner loop over the key, \<open>n\<close> bytes to go: \<open>p\<close> is the offset into \<open>aucLocalKey\<close>, \<open>iCount\<close> the
  number of key bytes used since the last wrap.
\<close>

fun key_bytes :: "block \<Rightarrow> nat \<Rightarrow> nat \<Rightarrow> nat \<times> nat \<times> 32 word \<Rightarrow> nat \<times> nat \<times> 32 word" where
  "key_bytes aucLocalKey keysize 0 st = st"
| "key_bytes aucLocalKey keysize (Suc n) (p, iCount, x) =
     (let x = push_bit 8 x OR ucast (aucLocalKey ! p);
          p = p + 1;
          iCount = iCount + 1;
          (p, iCount) = (if iCount = keysize then (0, 0) else (p, iCount))
      in key_bytes aucLocalKey keysize n (p, iCount, x))"

fun load_P :: "block \<Rightarrow> nat \<Rightarrow> nat list \<Rightarrow> nat \<times> nat \<Rightarrow> 32 word list \<Rightarrow> 32 word list" where
  "load_P aucLocalKey keysize [] pc P = P"
| "load_P aucLocalKey keysize (i # is) (p, iCount) P =
     (let (p, iCount, x) = key_bytes aucLocalKey keysize 4 (p, iCount, 0)
      in load_P aucLocalKey keysize is (p, iCount) (P[i := P ! i XOR x]))"

definition reflect_P :: "nat \<Rightarrow> CBlowFish \<times> SBlock \<Rightarrow> CBlowFish \<times> SBlock" where
  "reflect_P i st =
     (let (bf, block) = st; block = Encrypt_4 bf block
      in (bf\<lparr>m_auiP := (m_auiP bf)[i := m_uil block, i + 1 := m_uir block]\<rparr>, block))"

definition reflect_S :: "nat \<Rightarrow> nat \<Rightarrow> CBlowFish \<times> SBlock \<Rightarrow> CBlowFish \<times> SBlock" where
  "reflect_S j k st =
     (let (bf, block) = st; block = Encrypt_4 bf block
      in (bf\<lparr>m_auiS := (m_auiS bf)[j := (m_auiS bf ! j)[k := m_uil block, k + 1 := m_uir block]]\<rparr>, block))"

text \<open>The offsets of a loop that advances by two.\<close>

definition evens :: "nat \<Rightarrow> nat list" where
  "evens n = map ((*) 2) [0..<n div 2]"

text \<open>
  The constructor. \<open>P0\<close> and \<open>S0\<close> are what the memory of the new object holds: without a key it is left
  as it is. \<^term>\<open>None\<close>: the key is shorter than \<open>keysize\<close>.
\<close>

definition CBlowFish_new ::
    "32 word list \<Rightarrow> 32 word list list \<Rightarrow> block \<Rightarrow> nat \<Rightarrow> SBlock \<Rightarrow> CBlowFish option" where
  "CBlowFish_new P0 S0 ucKey keysize roChain =
     (let bf = \<lparr>m_oChain0 = roChain, m_oChain = roChain, m_auiP = P0, m_auiS = S0\<rparr> in
      if keysize < 1 then Some bf
      else do {
        let keysize = (if keysize > 56 then 56 else keysize);
        aucLocalKey \<leftarrow> mem_read ucKey 0 keysize;
        let bf = bf\<lparr>m_auiP := load_P aucLocalKey keysize [0..<18] (0, 0) scm_auiInitP, m_auiS := scm_auiInitS\<rparr>;
        let st = fold reflect_P (evens 18) (bf, \<lparr>m_uil = 0, m_uir = 0\<rparr>);
        Some (fst (fold (\<lambda>j. fold (reflect_S j) (evens 256)) [0..<4] st))
      })"

definition ResetChain :: "CBlowFish \<Rightarrow> CBlowFish" where
  "ResetChain bf = bf\<lparr>m_oChain := m_oChain0 bf\<rparr>"

section \<open>Bytes and blocks\<close>

definition BytesToBlock :: "block \<Rightarrow> SBlock" where
  "BytesToBlock p =
     \<lparr>m_uil = push_bit 24 (ucast (p ! 0)) OR push_bit 16 (ucast (p ! 1)) OR push_bit 8 (ucast (p ! 2)) OR ucast (p ! 3),
      m_uir = push_bit 24 (ucast (p ! 4)) OR push_bit 16 (ucast (p ! 5)) OR push_bit 8 (ucast (p ! 6)) OR ucast (p ! 7)\<rparr>"

text \<open>\<open>BlockToBytes\<close> stores downwards from its pointer: the eight bytes in front of it, in this order.\<close>

definition BlockToBytes :: "SBlock \<Rightarrow> block" where
  "BlockToBytes b = rev
     [Byte (m_uir b), Byte (drop_bit 8 (m_uir b)), Byte (drop_bit 16 (m_uir b)), Byte (drop_bit 24 (m_uir b)),
      Byte (m_uil b), Byte (drop_bit 8 (m_uil b)), Byte (drop_bit 16 (m_uil b)), Byte (drop_bit 24 (m_uil b))]"

section \<open>Modes\<close>

definition ECB :: int where "ECB = 0"
definition CBC :: int where "CBC = 1"
definition CFB :: int where "CFB = 2"

text \<open>The bodies of the loops: from \<open>chain\<close> and \<open>work\<close> to the new \<open>chain\<close> and the block written.\<close>

definition ecb_encrypt :: "CBlowFish \<Rightarrow> SBlock \<Rightarrow> SBlock \<Rightarrow> SBlock \<times> SBlock" where
  "ecb_encrypt bf chain work = (chain, Encrypt_4 bf work)"

definition ecb_decrypt :: "CBlowFish \<Rightarrow> SBlock \<Rightarrow> SBlock \<Rightarrow> SBlock \<times> SBlock" where
  "ecb_decrypt bf chain work = (chain, Decrypt_4 bf work)"

definition cbc_encrypt :: "CBlowFish \<Rightarrow> SBlock \<Rightarrow> SBlock \<Rightarrow> SBlock \<times> SBlock" where
  "cbc_encrypt bf chain work = (let work = Encrypt_4 bf (xor_SBlock work chain) in (work, work))"

definition cbc_decrypt :: "CBlowFish \<Rightarrow> SBlock \<Rightarrow> SBlock \<Rightarrow> SBlock \<times> SBlock" where
  "cbc_decrypt bf chain work = (let crypt = work; work = xor_SBlock (Decrypt_4 bf work) chain in (crypt, work))"

definition cfb_encrypt :: "CBlowFish \<Rightarrow> SBlock \<Rightarrow> SBlock \<Rightarrow> SBlock \<times> SBlock" where
  "cfb_encrypt bf chain work = (let chain = Encrypt_4 bf chain; work = xor_SBlock work chain in (work, work))"

definition cfb_decrypt :: "CBlowFish \<Rightarrow> SBlock \<Rightarrow> SBlock \<Rightarrow> SBlock \<times> SBlock" where
  "cfb_decrypt bf chain work =
     (let chain = Encrypt_4 bf chain; crypt = work; work = xor_SBlock work chain in (crypt, work))"

text \<open>The loop from \<open>in\<close> to \<open>out\<close>, with both offsets, and the loop in place.\<close>

function mode_loop ::
    "(SBlock \<Rightarrow> SBlock \<Rightarrow> SBlock \<times> SBlock) \<Rightarrow> SBlock \<Rightarrow> block \<Rightarrow> nat \<Rightarrow> block \<Rightarrow> nat \<Rightarrow> nat \<Rightarrow> block option" where
  "mode_loop body chain inp i out j n =
     (if n \<ge> 8 then do {
        bs \<leftarrow> mem_read inp i 8;
        let (chain, work) = body chain (BytesToBlock bs);
        out \<leftarrow> mem_write out j (BlockToBytes work);
        mode_loop body chain inp (i + 8) out (j + 8) (n - 8)
      } else Some out)"
  by pat_completeness auto
termination
  by (relation "measure (\<lambda>(body, chain, inp, i, out, j, n). n)") auto

function place_loop ::
    "(SBlock \<Rightarrow> SBlock \<Rightarrow> SBlock \<times> SBlock) \<Rightarrow> SBlock \<Rightarrow> block \<Rightarrow> nat \<Rightarrow> nat \<Rightarrow> block option" where
  "place_loop body chain buf i n =
     (if n \<ge> 8 then do {
        bs \<leftarrow> mem_read buf i 8;
        let (chain, work) = body chain (BytesToBlock bs);
        buf \<leftarrow> mem_write buf i (BlockToBytes work);
        place_loop body chain buf (i + 8) (n - 8)
      } else Some buf)"
  by pat_completeness auto
termination
  by (relation "measure (\<lambda>(body, chain, buf, i, n). n)") auto

text \<open>The CFB loop of \<open>Decrypt_2\<close>: it neither writes nor advances.\<close>

function cfb_place_decrypt :: "CBlowFish \<Rightarrow> SBlock \<Rightarrow> block \<Rightarrow> nat \<Rightarrow> nat \<Rightarrow> block option" where
  "cfb_place_decrypt bf chain buf i n =
     (if n \<ge> 8 then do {
        bs \<leftarrow> mem_read buf i 8;
        let (chain, work) = cfb_decrypt bf chain (BytesToBlock bs);
        cfb_place_decrypt bf chain buf i (n - 8)
      } else Some buf)"
  by pat_completeness auto
termination
  by (relation "measure (\<lambda>(bf, chain, buf, i, n). n)") auto

declare mode_loop.simps [simp del] place_loop.simps [simp del] cfb_place_decrypt.simps [simp del]

definition Encrypt_3 :: "CBlowFish \<Rightarrow> block \<Rightarrow> block \<Rightarrow> nat \<Rightarrow> int \<Rightarrow> block option" where
  "Encrypt_3 bf inp out n iMode =
     (if n = 0 \<or> n mod 8 \<noteq> 0 then Some out
      else if iMode = CBC then mode_loop (cbc_encrypt bf) (m_oChain bf) inp 0 out 0 n
      else if iMode = CFB then mode_loop (cfb_encrypt bf) (m_oChain bf) inp 0 out 0 n
      else mode_loop (ecb_encrypt bf) (m_oChain bf) inp 0 out 0 n)"

definition Decrypt_3 :: "CBlowFish \<Rightarrow> block \<Rightarrow> block \<Rightarrow> nat \<Rightarrow> int \<Rightarrow> block option" where
  "Decrypt_3 bf inp out n iMode =
     (if n = 0 \<or> n mod 8 \<noteq> 0 then Some out
      else if iMode = CBC then mode_loop (cbc_decrypt bf) (m_oChain bf) inp 0 out 0 n
      else if iMode = CFB then mode_loop (cfb_decrypt bf) (m_oChain bf) inp 0 out 0 n
      else mode_loop (ecb_decrypt bf) (m_oChain bf) inp 0 out 0 n)"

definition Encrypt_2 :: "CBlowFish \<Rightarrow> block \<Rightarrow> nat \<Rightarrow> int \<Rightarrow> block option" where
  "Encrypt_2 bf buf n iMode =
     (if n = 0 \<or> n mod 8 \<noteq> 0 then Some buf
      else if iMode = CBC then place_loop (cbc_encrypt bf) (m_oChain bf) buf 0 n
      else if iMode = CFB then place_loop (cfb_encrypt bf) (m_oChain bf) buf 0 n
      else place_loop (ecb_encrypt bf) (m_oChain bf) buf 0 n)"

definition Decrypt_2 :: "CBlowFish \<Rightarrow> block \<Rightarrow> nat \<Rightarrow> int \<Rightarrow> block option" where
  "Decrypt_2 bf buf n iMode =
     (if n = 0 \<or> n mod 8 \<noteq> 0 then Some buf
      else if iMode = CBC then place_loop (cbc_decrypt bf) (m_oChain bf) buf 0 n
      else if iMode = CFB then cfb_place_decrypt bf (m_oChain bf) buf 0 n
      else place_loop (ecb_decrypt bf) (m_oChain bf) buf 0 n)"

section \<open>Strings\<close>

text \<open>
  \<open>len\<close> rounded up to a multiple of eight. The remainder of C++ has the sign of \<open>len\<close>. \<^term>\<open>None\<close>: the
  sum leaves the range of \<open>int\<close>.
\<close>

definition rounded :: "int \<Rightarrow> int option" where
  "rounded nLength =
     (let nDifference = (if 0 \<le> nLength then nLength mod 8 else - ((- nLength) mod 8)) in
      if nDifference \<noteq> 0 then
        (let nNewLength = (nLength - nDifference) + 8 in
         if nNewLength < 2 ^ 31 then Some nNewLength else None)
      else Some nLength)"

text \<open>
  The static functions: \<open>strInput\<close> and \<open>strKey\<close> are the memory behind the pointers, \<open>P0\<close>, \<open>S0\<close> and \<open>fresh n\<close>
  what new memory holds. \<open>Some None\<close> is the exception of \<open>new char[n]\<close> for a negative size; otherwise the
  result is the new value of \<open>strOutput\<close>.
\<close>

definition with_cipher ::
    "(CBlowFish \<Rightarrow> block \<Rightarrow> block \<Rightarrow> nat \<Rightarrow> int \<Rightarrow> block option) \<Rightarrow> 32 word list \<Rightarrow> 32 word list list \<Rightarrow> (nat \<Rightarrow> block) \<Rightarrow>
     block \<Rightarrow> block \<Rightarrow> int \<Rightarrow> int \<Rightarrow> block option option" where
  "with_cipher coder P0 S0 fresh strInput strKey bitCount len = do {
     oBlowFish \<leftarrow> CBlowFish_new P0 S0 strKey (size_of_int bitCount) \<lparr>m_uil = 0, m_uir = 0\<rparr>;
     nNewLength \<leftarrow> rounded len;
     if nNewLength + 1 < 0 then Some None
     else do {
       pszDataOut \<leftarrow> coder oBlowFish strInput (fresh (nat (nNewLength + 1))) (size_of_int nNewLength) ECB;
       pszDataOut \<leftarrow> mem_write pszDataOut (nat nNewLength) [0];
       tempData \<leftarrow> mem_read pszDataOut 0 (nat nNewLength);
       Some (Some tempData)
     }
   }"

definition Encrypt ::
    "32 word list \<Rightarrow> 32 word list list \<Rightarrow> (nat \<Rightarrow> block) \<Rightarrow> block \<Rightarrow> block \<Rightarrow> int \<Rightarrow> int \<Rightarrow> block option option" where
  "Encrypt P0 S0 fresh strInput strKey bitCount len = with_cipher Encrypt_3 P0 S0 fresh strInput strKey bitCount len"

definition Decrypt ::
    "32 word list \<Rightarrow> 32 word list list \<Rightarrow> (nat \<Rightarrow> block) \<Rightarrow> block \<Rightarrow> block \<Rightarrow> int \<Rightarrow> int \<Rightarrow> block option option" where
  "Decrypt P0 S0 fresh strInput strKey bitCount len = with_cipher Decrypt_3 P0 S0 fresh strInput strKey bitCount len"

section \<open>The block cipher\<close>

lemma xor_cancel [simp]: "(a XOR b) XOR b = a" for a b :: "'a::len word"
  by (simp add: xor.assoc)

lemma xor_SBlock_cancel [simp]: "xor_SBlock (xor_SBlock a b) b = a"
  by (simp add: xor_SBlock_def)

text \<open>A line of rounds is undone by the line with the two keys exchanged, on the exchanged halves.\<close>

lemma rounds2_undo: "rounds2 bf (j, i) (prod.swap (rounds2 bf (i, j) lr)) = prod.swap lr"
  by (simp add: rounds2_def Let_def split: prod.splits)

lemma rounds_undo:
  "fold (rounds2 bf) (map prod.swap (rev ks)) (prod.swap (fold (rounds2 bf) ks lr)) = prod.swap lr"
  by (induction ks arbitrary: lr) (auto simp: rounds2_undo)

lemma feistel_undo:
  assumes "fold (rounds2 bf) ks (l XOR a, r) = (l', r')"
  shows "fold (rounds2 bf) (map prod.swap (rev ks)) (r', l') = (r, l XOR a)"
  using rounds_undo [of bf ks "(l XOR a, r)"] assms by simp

lemma Decrypt_Encrypt_4: "Decrypt_4 bf (Encrypt_4 bf b) = b"
proof -
  let ?ks = "[(1, 2), (3, 4), (5, 6), (7, 8), (9, 10), (11, 12), (13, 14), (15, 16)]"
  obtain l r where lr: "fold (rounds2 bf) ?ks (m_uil b XOR m_auiP bf ! 0, m_uir b) = (l, r)" by fastforce
  from feistel_undo [OF lr] lr show ?thesis
    unfolding Decrypt_4_def Encrypt_4_def Let_def by (simp del: fold_simps)
qed

lemma Encrypt_Decrypt_4: "Encrypt_4 bf (Decrypt_4 bf b) = b"
proof -
  let ?ks = "[(16, 15), (14, 13), (12, 11), (10, 9), (8, 7), (6, 5), (4, 3), (2, 1)]"
  obtain l r where lr: "fold (rounds2 bf) ?ks (m_uil b XOR m_auiP bf ! 17, m_uir b) = (l, r)" by fastforce
  from feistel_undo [OF lr] lr show ?thesis
    unfolding Decrypt_4_def Encrypt_4_def Let_def by (simp del: fold_simps)
qed

section \<open>Bytes and blocks\<close>

lemma length_BlockToBytes [simp]: "length (BlockToBytes b) = 8"
  by (simp add: BlockToBytes_def)

lemma Byte_ucast: "Byte w = ucast w"
proof -
  have mask: "(0xff :: 32 word) = mask 8" by (simp add: mask_eq_exp_minus_1)
  show ?thesis unfolding Byte_def mask by (rule bit_word_eqI) (simp add: bit_simps)
qed

lemma BlockToBytes_le: "BlockToBytes b = rev (le32 (m_uil b)) @ rev (le32 (m_uir b))"
  by (simp add: BlockToBytes_def Byte_ucast le32_def)

lemma BytesToBlock_le:
  "BytesToBlock p = \<lparr>m_uil = of_le32 [p ! 3, p ! 2, p ! 1, p ! 0], m_uir = of_le32 [p ! 7, p ! 6, p ! 5, p ! 4]\<rparr>"
  by (simp add: BytesToBlock_def or.commute or.left_commute)

lemma Bytes_Block [simp]: "BytesToBlock (BlockToBytes b) = b"
  using of_le32_le32 [of "m_uil b" "[]"] of_le32_le32 [of "m_uir b" "[]"]
  by (simp add: BytesToBlock_le BlockToBytes_le le32_def)

lemma Block_Bytes: "length p = 8 \<Longrightarrow> BlockToBytes (BytesToBlock p) = p"
  using le32_of_le32 [of "[p ! 3, p ! 2, p ! 1, p ! 0]"] le32_of_le32 [of "[p ! 7, p ! 6, p ! 5, p ! 4]"]
  by (simp add: BytesToBlock_le BlockToBytes_le del: of_le32.simps) (auto intro!: nth_equalityI simp: nth_Cons' less_Suc_eq numeral_eq_Suc)

section \<open>The interface of a mode\<close>

text \<open>
  What a loop does to a sequence of blocks, and the law a pair of loop bodies has to obey: decrypting what
  was written gives back the block and leaves the same chain.
\<close>

fun chained :: "('c \<Rightarrow> 'b \<Rightarrow> 'c \<times> 'b) \<Rightarrow> 'c \<Rightarrow> 'b list \<Rightarrow> 'b list" where
  "chained body c [] = []"
| "chained body c (w # ws) = (case body c w of (c', v) \<Rightarrow> v # chained body c' ws)"

lemma length_chained [simp]: "length (chained body c ws) = length ws"
  by (induction ws arbitrary: c) (auto split: prod.splits)

locale cipher_mode =
  fixes enc :: "'c \<Rightarrow> 'b \<Rightarrow> 'c \<times> 'b" and dec :: "'c \<Rightarrow> 'b \<Rightarrow> 'c \<times> 'b"
  assumes dec_enc: "enc c w = (c', v) \<Longrightarrow> dec c v = (c', w)"
begin

lemma chained_dec_enc: "chained dec c (chained enc c ws) = ws"
proof (induction ws arbitrary: c)
  case (Cons w ws)
  obtain c' v where "enc c w = (c', v)" by force
  with dec_enc [OF this] Cons.IH [of c'] show ?case by simp
qed simp

end

interpretation ecb: cipher_mode "ecb_encrypt bf" "ecb_decrypt bf" for bf
  by unfold_locales (auto simp: ecb_encrypt_def ecb_decrypt_def Decrypt_Encrypt_4)

interpretation cbc: cipher_mode "cbc_encrypt bf" "cbc_decrypt bf" for bf
  by unfold_locales (auto simp: cbc_encrypt_def cbc_decrypt_def Let_def Decrypt_Encrypt_4)

interpretation cfb: cipher_mode "cfb_encrypt bf" "cfb_decrypt bf" for bf
  by unfold_locales (auto simp: cfb_encrypt_def cfb_decrypt_def Let_def)

section \<open>Buffers\<close>

fun blocks_of :: "nat \<Rightarrow> block \<Rightarrow> SBlock list" where
  "blocks_of 0 bs = []"
| "blocks_of (Suc k) bs = BytesToBlock (take 8 bs) # blocks_of k (drop 8 bs)"

definition bytes_of :: "SBlock list \<Rightarrow> block" where
  "bytes_of ws = concat (map BlockToBytes ws)"

lemma bytes_of_simps [simp]: "bytes_of [] = []" "bytes_of (w # ws) = BlockToBytes w @ bytes_of ws"
  by (simp_all add: bytes_of_def)

lemma length_blocks_of [simp]: "length (blocks_of k bs) = k"
  by (induction k arbitrary: bs) auto

lemma length_bytes_of [simp]: "length (bytes_of ws) = 8 * length ws"
  by (induction ws) auto

lemma blocks_of_bytes [simp]: "blocks_of (length ws) (bytes_of ws @ r) = ws"
  by (induction ws) auto

lemma bytes_of_blocks: "8 * k \<le> length bs \<Longrightarrow> bytes_of (blocks_of k bs) = take (8 * k) bs"
proof (induction k arbitrary: bs)
  case (Suc k)
  then have "take (8 * Suc k) bs = take 8 bs @ take (8 * k) (drop 8 bs)"
    using take_add [of 8 "8 * k" bs] by simp
  with Suc show ?case by (simp add: Block_Bytes)
qed simp

text \<open>The two loops compute the same: the blocks at their offset, chained.\<close>

lemma mode_loop_spec:
  "i + 8 * k \<le> length inp \<Longrightarrow> j + 8 * k \<le> length out \<Longrightarrow>
   mode_loop body c inp i out j (8 * k)
     = Some (take j out @ bytes_of (chained body c (blocks_of k (drop i inp))) @ drop (j + 8 * k) out)"
proof (induction k arbitrary: c i out j)
  case 0
  then show ?case by (subst mode_loop.simps) simp
next
  case (Suc k)
  obtain c' v where b: "body c (BytesToBlock (take 8 (drop i inp))) = (c', v)" by force
  let ?out = "take j out @ BlockToBytes v @ drop (j + 8) out"
  have "mode_loop body c inp i out j (8 * Suc k) = mode_loop body c' inp (i + 8) ?out (j + 8) (8 * k)"
    using Suc.prems b by (subst mode_loop.simps) (simp add: mem_simps)
  also have "\<dots> = Some (take (j + 8) ?out @ bytes_of (chained body c' (blocks_of k (drop (i + 8) inp))) @ drop (j + 8 + 8 * k) ?out)"
    using Suc.prems by (intro Suc.IH) auto
  finally show ?case using Suc.prems b by (simp add: ac_simps)
qed

lemma place_loop_spec:
  "i + 8 * k \<le> length buf \<Longrightarrow>
   place_loop body c buf i (8 * k)
     = Some (take i buf @ bytes_of (chained body c (blocks_of k (drop i buf))) @ drop (i + 8 * k) buf)"
proof (induction k arbitrary: c i buf)
  case 0
  then show ?case by (subst place_loop.simps) simp
next
  case (Suc k)
  obtain c' v where b: "body c (BytesToBlock (take 8 (drop i buf))) = (c', v)" by force
  let ?buf = "take i buf @ BlockToBytes v @ drop (i + 8) buf"
  have "place_loop body c buf i (8 * Suc k) = place_loop body c' ?buf (i + 8) (8 * k)"
    using Suc.prems b by (subst place_loop.simps) (simp add: mem_simps)
  also have "\<dots> = Some (take (i + 8) ?buf @ bytes_of (chained body c' (blocks_of k (drop (i + 8) ?buf))) @ drop (i + 8 + 8 * k) ?buf)"
    using Suc.prems by (intro Suc.IH) auto
  finally show ?case using Suc.prems b by (simp add: ac_simps)
qed

lemma mode_loop_reads_past:
  "i \<le> length inp \<Longrightarrow> length inp < i + 8 * k \<Longrightarrow> mode_loop body c inp i out j (8 * k) = None"
proof (induction k arbitrary: c i out j)
  case (Suc k)
  show ?case
    by (subst mode_loop.simps) (use Suc in \<open>auto simp: mem_read_def mem_write_def split: prod.splits\<close>)
qed simp


lemma cfb_place_unchanged: "i + 8 \<le> length buf \<Longrightarrow> cfb_place_decrypt bf c buf i n = Some buf"
proof (induction n arbitrary: c rule: less_induct)
  case (less n)
  then show ?case by (subst cfb_place_decrypt.simps) (auto simp: mem_simps split: prod.splits)
qed

text \<open>The modes of a buffer.\<close>

definition mode_encrypt :: "int \<Rightarrow> CBlowFish \<Rightarrow> SBlock \<Rightarrow> SBlock \<Rightarrow> SBlock \<times> SBlock" where
  "mode_encrypt iMode = (if iMode = CBC then cbc_encrypt else if iMode = CFB then cfb_encrypt else ecb_encrypt)"

definition mode_decrypt :: "int \<Rightarrow> CBlowFish \<Rightarrow> SBlock \<Rightarrow> SBlock \<Rightarrow> SBlock \<times> SBlock" where
  "mode_decrypt iMode = (if iMode = CBC then cbc_decrypt else if iMode = CFB then cfb_decrypt else ecb_decrypt)"

lemma mode_dec_enc: "chained (mode_decrypt iMode bf) c (chained (mode_encrypt iMode bf) c ws) = ws"
  by (simp add: mode_decrypt_def mode_encrypt_def ecb.chained_dec_enc cbc.chained_dec_enc cfb.chained_dec_enc)

lemma coder_3_loop:
  "0 < k \<Longrightarrow> Encrypt_3 bf inp out (8 * k) iMode = mode_loop (mode_encrypt iMode bf) (m_oChain bf) inp 0 out 0 (8 * k)"
  "0 < k \<Longrightarrow> Decrypt_3 bf inp out (8 * k) iMode = mode_loop (mode_decrypt iMode bf) (m_oChain bf) inp 0 out 0 (8 * k)"
  by (simp_all add: Encrypt_3_def Decrypt_3_def mode_encrypt_def mode_decrypt_def)

lemma coder_3:
  assumes "8 * k \<le> length inp" "8 * k \<le> length out"
  shows "Encrypt_3 bf inp out (8 * k) iMode
      = Some (bytes_of (chained (mode_encrypt iMode bf) (m_oChain bf) (blocks_of k inp)) @ drop (8 * k) out)"
    and "Decrypt_3 bf inp out (8 * k) iMode
      = Some (bytes_of (chained (mode_decrypt iMode bf) (m_oChain bf) (blocks_of k inp)) @ drop (8 * k) out)"
  using assms by (auto simp: Encrypt_3_def Decrypt_3_def mode_encrypt_def mode_decrypt_def mode_loop_spec)

lemma coder_2:
  assumes "8 * k \<le> length buf"
  shows "Encrypt_2 bf buf (8 * k) iMode
      = Some (bytes_of (chained (mode_encrypt iMode bf) (m_oChain bf) (blocks_of k buf)) @ drop (8 * k) buf)"
    and "iMode \<noteq> CFB \<Longrightarrow> Decrypt_2 bf buf (8 * k) iMode
      = Some (bytes_of (chained (mode_decrypt iMode bf) (m_oChain bf) (blocks_of k buf)) @ drop (8 * k) buf)"
  using assms by (auto simp: Encrypt_2_def Decrypt_2_def mode_encrypt_def mode_decrypt_def place_loop_spec)

section \<open>The key schedule\<close>

text \<open>The reference: the \<open>i\<close>-th word of the key repeated for ever, most significant byte first.\<close>

definition key_word :: "block \<Rightarrow> nat \<Rightarrow> 32 word" where
  "key_word key i = foldl (\<lambda>x b. push_bit 8 x OR ucast b) 0 (map (\<lambda>j. key ! ((4 * i + j) mod length key)) [0..<4])"

lemma key_bytes_cycle:
  assumes "0 < keysize"
  shows "key_bytes key keysize n (q mod keysize, q mod keysize, x)
    = ((q + n) mod keysize, (q + n) mod keysize,
       foldl (\<lambda>x b. push_bit 8 x OR ucast b) x (map (\<lambda>j. key ! ((q + j) mod keysize)) [0..<n]))"
proof (induction n arbitrary: q x)
  case 0
  then show ?case by simp
next
  case (Suc n)
  have cons: "map (\<lambda>j. key ! ((q + j) mod keysize)) [0..<Suc n]
      = key ! (q mod keysize) # map (\<lambda>j. key ! ((Suc q + j) mod keysize)) [0..<n]"
    by (simp add: upt_conv_Cons map_Suc_upt [symmetric] del: upt_Suc)
  have "key_bytes key keysize (Suc n) (q mod keysize, q mod keysize, x)
      = key_bytes key keysize n (Suc q mod keysize, Suc q mod keysize, push_bit 8 x OR ucast (key ! (q mod keysize)))"
    by (simp add: Let_def mod_Suc)
  then show ?case unfolding cons Suc.IH by simp
qed

lemma load_P_cycle:
  assumes "0 < length key"
  shows "length P = m + n \<Longrightarrow> load_P key (length key) [m..<m + n] ((4 * m) mod length key, (4 * m) mod length key) P
    = take m P @ map (\<lambda>i. P ! i XOR key_word key i) [m..<m + n]"
proof (induction n arbitrary: m P)
  case 0
  then show ?case by simp
next
  case (Suc n)
  have step: "key_bytes key (length key) 4 ((4 * m) mod length key, (4 * m) mod length key, 0)
      = ((4 * Suc m) mod length key, (4 * Suc m) mod length key, key_word key m)"
    using key_bytes_cycle [OF assms, of key 4 "4 * m" 0] by (simp add: key_word_def add.commute)
  have "[m..<m + Suc n] = m # [Suc m..<Suc m + n]" by (simp add: upt_conv_Cons)
  then show ?case
    using Suc.IH [of "P[m := P ! m XOR key_word key m]" "Suc m"] Suc.prems step
    by (simp add: take_Suc_conv_app_nth del: upt_Suc key_bytes.simps)
qed

text \<open>Reflecting keeps the shape of the boxes.\<close>

definition boxes_ok :: "CBlowFish \<Rightarrow> bool" where
  "boxes_ok bf \<longleftrightarrow> length (m_auiP bf) = 18 \<and> map length (m_auiS bf) = replicate 4 256"

lemma map_length_update: "length ys = length (xs ! j) \<Longrightarrow> map length (xs[j := ys]) = map length xs"
  by (cases "j < length xs") (auto simp: map_update list_update_beyond intro!: nth_equalityI simp: nth_list_update)

lemma boxes_ok_reflect:
  "boxes_ok (fst st) \<Longrightarrow> boxes_ok (fst (reflect_P i st))"
  "boxes_ok (fst st) \<Longrightarrow> boxes_ok (fst (reflect_S j k st))"
  by (auto simp: boxes_ok_def reflect_P_def reflect_S_def Let_def map_length_update split: prod.splits)

lemma boxes_ok_fold:
  "(\<And>x st. boxes_ok (fst st) \<Longrightarrow> boxes_ok (fst (f x st))) \<Longrightarrow> boxes_ok (fst st) \<Longrightarrow> boxes_ok (fst (fold f xs st))"
  by (induction xs arbitrary: st) auto

text \<open>The boxes of a key: the initial ones xored with the key, then reflected.\<close>

definition keyed :: "block \<Rightarrow> SBlock \<Rightarrow> CBlowFish" where
  "keyed key chain =
     \<lparr>m_oChain0 = chain, m_oChain = chain, m_auiP = map (\<lambda>i. scm_auiInitP ! i XOR key_word key i) [0..<18],
      m_auiS = scm_auiInitS\<rparr>"

definition reflected :: "CBlowFish \<Rightarrow> CBlowFish" where
  "reflected bf =
     fst (fold (\<lambda>j. fold (reflect_S j) (evens 256)) [0..<4] (fold reflect_P (evens 18) (bf, \<lparr>m_uil = 0, m_uir = 0\<rparr>)))"

lemma boxes_ok_reflected: "boxes_ok bf \<Longrightarrow> boxes_ok (reflected bf)"
  unfolding reflected_def by (intro boxes_ok_fold boxes_ok_reflect) simp_all

lemma chain_fold:
  "(\<And>x st. m_oChain (fst (f x st)) = m_oChain (fst st)) \<Longrightarrow> m_oChain (fst (fold f xs st)) = m_oChain (fst st)"
  by (induction xs arbitrary: st) auto

lemma chain_reflected: "m_oChain (reflected bf) = m_oChain bf"
proof -
  have "m_oChain (fst (reflect_P i st)) = m_oChain (fst st)" "m_oChain (fst (reflect_S j k st)) = m_oChain (fst st)" for i j k st
    by (simp_all add: reflect_P_def reflect_S_def Let_def split: prod.splits)
  then show ?thesis unfolding reflected_def by (simp add: chain_fold)
qed

lemma new_keyed:
  assumes "1 \<le> keysize" "min keysize 56 \<le> length key"
  shows "CBlowFish_new P0 S0 key keysize chain = Some (reflected (keyed (take (min keysize 56) key) chain))"
proof -
  let ?key = "take (min keysize 56) key"
  have "0 < length ?key" "length ?key = min keysize 56" using assms by auto
  then have "load_P ?key (min keysize 56) [0..<18] (0, 0) scm_auiInitP = map (\<lambda>i. scm_auiInitP ! i XOR key_word ?key i) [0..<18]"
    using load_P_cycle [of ?key scm_auiInitP 0 18] by (simp del: length_take)
  moreover have "mem_read key 0 (min keysize 56) = Some ?key" using assms by (simp add: mem_simps)
  moreover have "(if keysize > 56 then 56 else keysize) = min keysize 56" by simp
  ultimately show ?thesis
    using assms(1) unfolding CBlowFish_new_def Let_def by (simp add: reflected_def keyed_def del: upt_Suc)
qed

lemma boxes_ok_keyed: "boxes_ok (keyed key chain)"
  by (simp add: boxes_ok_def keyed_def del: upt_Suc)

section \<open>Strings\<close>

lemma rounded_up:
  assumes "0 \<le> len" "len \<le> 2 ^ 31 - 8"
  shows "rounded len = Some (8 * ((len + 7) div 8))"
proof -
  define q r where "q = len div 8" and "r = len mod 8"
  then have len: "len = 8 * q + r" "0 \<le> r" "r < 8" "len mod 8 = r" by simp_all
  have "(len + 7) div 8 = (if r = 0 then q else q + 1)"
  proof (cases "r = 0")
    case True
    then show ?thesis using len(1) int_div_pos_eq [of "len + 7" 8 q 7] by simp
  next
    case False
    then show ?thesis using len(1-3) int_div_pos_eq [of "len + 7" 8 "q + 1" "r - 1"] by simp
  qed
  moreover have "8 * (q + 1) < 2 ^ 31" if "r \<noteq> 0" using assms(2) len(1,2) that by simp
  ultimately show ?thesis using assms(1) len(1,4) by (auto simp: rounded_def Let_def)
qed

lemma with_cipher_eq:
  assumes key: "1 \<le> size_of_int bits" "min (size_of_int bits) 56 \<le> length key"
    and len: "0 \<le> len" "len \<le> 2 ^ 31 - 8" "int k = (len + 7) div 8"
  shows "with_cipher coder P0 S0 fresh inp key bits len = do {
    out \<leftarrow> coder (reflected (keyed (take (min (size_of_int bits) 56) key) \<lparr>m_uil = 0, m_uir = 0\<rparr>)) inp (fresh (8 * k + 1)) (8 * k) ECB;
    out \<leftarrow> mem_write out (8 * k) [0];
    out \<leftarrow> mem_read out 0 (8 * k);
    Some (Some out) }"
proof -
  have "8 * k < 2 ^ 31" using len by simp
  then have sz: "size_of_int (8 * int k) = 8 * k" "nat (8 * int k) = 8 * k" "nat (8 * int k + 1) = 8 * k + 1"
    using size_of_int_nat [of "8 * k"] by simp_all
  have "rounded len = Some (8 * int k)" using rounded_up [OF len(1,2)] len(3) by simp
  then show ?thesis unfolding with_cipher_def using new_keyed [OF key] sz by simp
qed

lemma string_coder:
  assumes key: "1 \<le> size_of_int bits" "min (size_of_int bits) 56 \<le> length key" and fresh: "\<And>n. length (fresh n) = n"
    and len: "0 \<le> len" "len \<le> 2 ^ 31 - 8" "int k = (len + 7) div 8" and inp: "8 * k \<le> length inp"
  defines "bf \<equiv> reflected (keyed (take (min (size_of_int bits) 56) key) \<lparr>m_uil = 0, m_uir = 0\<rparr>)"
  shows "Encrypt P0 S0 fresh inp key bits len
      = Some (Some (bytes_of (chained (mode_encrypt ECB bf) (m_oChain bf) (blocks_of k inp))))"
    and "Decrypt P0 S0 fresh inp key bits len
      = Some (Some (bytes_of (chained (mode_decrypt ECB bf) (m_oChain bf) (blocks_of k inp))))"
  using coder_3 [OF inp, of "fresh (8 * k + 1)" bf ECB] fresh
  unfolding Encrypt_def Decrypt_def with_cipher_eq [OF key len] bf_def [symmetric]
  by (simp_all add: mem_simps)

section \<open>Properties\<close>

text \<open>
  C14 (round trip). For every key of at least one byte, what \<open>Encrypt\<close> makes of a text has the length of the
  text rounded up to whole blocks, and \<open>Decrypt\<close> with the same key gives back the text and the bytes behind it
  that fill the last block, whatever the memory of the two cipher objects and buffers held before.
\<close>

theorem blowfish_roundtrip:
  assumes key: "1 \<le> size_of_int bits" "min (size_of_int bits) 56 \<le> length key"
    and fresh: "\<And>n. length (fresh n) = n" "\<And>n. length (fresh' n) = n"
    and len: "0 \<le> len" "len \<le> 2 ^ 31 - 8" "n = 8 * ((len + 7) div 8)" "nat n \<le> length inp"
  shows "\<exists>crypt. Encrypt P0 S0 fresh inp key bits len = Some (Some crypt) \<and> length crypt = nat n
    \<and> Decrypt P0' S0' fresh' crypt key bits n = Some (Some (take (nat n) inp))"
proof -
  obtain k where k: "int k = (len + 7) div 8" "n = 8 * int k" "nat n = 8 * k"
    using len(1,3) that [of "nat ((len + 7) div 8)"] by simp
  let ?bf = "reflected (keyed (take (min (size_of_int bits) 56) key) \<lparr>m_uil = 0, m_uir = 0\<rparr>)"
  let ?c = "bytes_of (chained (mode_encrypt ECB ?bf) (m_oChain ?bf) (blocks_of k inp))"
  have "Encrypt P0 S0 fresh inp key bits len = Some (Some ?c)"
    using string_coder(1) [OF key fresh(1) len(1,2) k(1)] len(4) k(3) by simp
  moreover have "Decrypt P0' S0' fresh' ?c key bits n = Some (Some (bytes_of (blocks_of k inp)))"
    using string_coder(2) [OF key fresh(2), of n k ?c] k len(2) blocks_of_bytes [of "chained (mode_encrypt ECB ?bf) (m_oChain ?bf) (blocks_of k inp)" "[]"]
    by (simp add: mode_dec_enc)
  ultimately show ?thesis using bytes_of_blocks [of k inp] len(4) k(3) by simp
qed

theorem blowfish_roundtrip_witness:
  "\<exists>crypt. Encrypt [] [] (\<lambda>n. replicate n 0) [1, 2, 3, 4, 5, 0, 0, 0] [7, 8] 2 5 = Some (Some crypt)
    \<and> Decrypt [] [] (\<lambda>n. replicate n 1) crypt [7, 8] 2 8 = Some (Some [1, 2, 3, 4, 5, 0, 0, 0])"
proof -
  have "size_of_int 2 = 2" by (simp add: size_of_int_def)
  then show ?thesis
    using blowfish_roundtrip [of 2 "[7, 8]" "\<lambda>n. replicate n 0" "\<lambda>n. replicate n 1" 5 8 "[1, 2, 3, 4, 5, 0, 0, 0]" "[]" "[]" "[]" "[]"]
    by auto
qed

text \<open>
  C18 (equivalence). In each of the three modes, for whole blocks: decrypting from one buffer to another what
  was encrypted from one buffer to another restores the text and leaves the rest of the target alone;
  encrypting in place gives the same bytes; and decrypting in place restores the buffer, except in CFB mode,
  where \<open>Decrypt_2\<close> writes nothing at all.
\<close>

theorem buffer_modes:
  assumes "8 * k \<le> length inp" "8 * k \<le> length out" "8 * k \<le> length out'"
  shows "\<exists>crypt. Encrypt_3 bf inp out (8 * k) iMode = Some (crypt @ drop (8 * k) out) \<and> length crypt = 8 * k
    \<and> Decrypt_3 bf (crypt @ drop (8 * k) out) out' (8 * k) iMode = Some (take (8 * k) inp @ drop (8 * k) out')
    \<and> Encrypt_2 bf inp (8 * k) iMode = Some (crypt @ drop (8 * k) inp)
    \<and> Decrypt_2 bf (crypt @ drop (8 * k) inp) (8 * k) iMode
        = Some (if iMode = CFB then crypt @ drop (8 * k) inp else inp)"
proof -
  let ?ws = "chained (mode_encrypt iMode bf) (m_oChain bf) (blocks_of k inp)"
  have dec: "bytes_of (chained (mode_decrypt iMode bf) (m_oChain bf) (blocks_of k (bytes_of ?ws @ r))) = take (8 * k) inp" for r
    using blocks_of_bytes [of ?ws r] bytes_of_blocks [OF assms(1)] by (simp add: mode_dec_enc)
  have cfb: "Decrypt_2 bf (bytes_of ?ws @ r) (8 * k) CFB = Some (bytes_of ?ws @ r)" for r
    using cfb_place_unchanged [of 0 "bytes_of ?ws @ r"] by (auto simp: Decrypt_2_def CFB_def CBC_def)
  show ?thesis
    using coder_3(1) [OF assms(1,2)] coder_2(1) [OF assms(1)] coder_3(2) [of k "bytes_of ?ws @ drop (8 * k) out" out' bf iMode]
      coder_2(2) [of k "bytes_of ?ws @ drop (8 * k) inp" iMode bf] assms(3) dec cfb
    by (intro exI [of _ "bytes_of ?ws"]) auto
qed

theorem buffer_modes_witness:
  "\<exists>crypt. Encrypt_2 (keyed [1] \<lparr>m_uil = 5, m_uir = 6\<rparr>) [1, 2, 3, 4, 5, 6, 7, 8] 8 CBC = Some crypt
    \<and> Decrypt_2 (keyed [1] \<lparr>m_uil = 5, m_uir = 6\<rparr>) crypt 8 CBC = Some [1, 2, 3, 4, 5, 6, 7, 8]"
  using buffer_modes [of 1 "[1, 2, 3, 4, 5, 6, 7, 8]" "replicate 8 0" "replicate 8 0" "keyed [1] \<lparr>m_uil = 5, m_uir = 6\<rparr>" CBC]
  by (auto simp: CBC_def CFB_def)

text \<open>
  C26 (equivalence). The key schedule: the loop over the key with its two counters loads the words of the key
  repeated over and over, at most 56 bytes of it; the boxes then have 18 and four times 256 words, so that
  every index of the rounds is inside them; and they do not depend on what the memory held.
\<close>

theorem key_schedule:
  assumes "1 \<le> keysize" "min keysize 56 \<le> length key"
  shows "\<exists>bf. CBlowFish_new P0 S0 key keysize chain = Some bf \<and> bf = reflected (keyed (take (min keysize 56) key) chain)
    \<and> length (m_auiP bf) = 18 \<and> map length (m_auiS bf) = replicate 4 256 \<and> m_oChain bf = chain"
  using new_keyed [OF assms] boxes_ok_reflected [OF boxes_ok_keyed] chain_reflected
  by (auto simp: boxes_ok_def keyed_def)

theorem key_schedule_witness:
  "\<exists>bf. CBlowFish_new [] [] [7, 8] 2 \<lparr>m_uil = 0, m_uir = 0\<rparr> = Some bf \<and> length (m_auiP bf) = 18"
  using key_schedule [of 2 "[7, 8]"] by auto

text \<open>
  C33 (bounds). A text that does not fill its last block is read past its length: \<open>Encrypt\<close> reads whole blocks
  of the memory of its input, and when that ends before the last block does, it reads outside of it.
\<close>

theorem encrypt_reads_past:
  assumes "1 \<le> size_of_int bits" "min (size_of_int bits) 56 \<le> length key"
    and "0 < len" "len \<le> 2 ^ 31 - 8" "int (length inp) < 8 * ((len + 7) div 8)"
  shows "Encrypt P0 S0 fresh inp key bits len = None"
proof -
  obtain k where k: "int k = (len + 7) div 8" using assms(3) that [of "nat ((len + 7) div 8)"] by simp
  then have "0 < k" using assms(3) by simp
  then have "Encrypt_3 bf inp out (8 * k) ECB = None" for bf out
    using mode_loop_reads_past [of 0 inp k] assms(5) k by (simp add: coder_3_loop)
  then show ?thesis unfolding Encrypt_def using with_cipher_eq [OF assms(1,2) _ assms(4) k] assms(3) by simp
qed

theorem encrypt_reads_past_witness:
  "Encrypt [] [] (\<lambda>n. replicate n 0) [1, 2, 3, 4, 5, 0] [7, 8] 2 5 = None"
proof -
  have "size_of_int 2 = 2" by (simp add: size_of_int_def)
  then show ?thesis using encrypt_reads_past [of 2 "[7, 8]" 5 "[1, 2, 3, 4, 5, 0]"] by simp
qed

end
