(* ===== verification/Json_Value.thy ===== *)
theory Json_Value
  imports JME_Prelude "HOL-Library.Monad_Syntax" "HOL-Library.Char_ord" "HOL-Library.List_Lexorder"
begin

text \<open>
  JSON values (include/json/json/value.h, source/json/src/json_value.cpp, built with \<open>std::map\<close> as the
  container and exceptions for failed conversions). A value is its data and its comments; assignment
  exchanges the data and leaves the comments where they are.

  \<open>double\<close> is the type variable \<open>'r\<close>; what the code asks of it is the argument \<open>R\<close>. A character string is
  read up to its terminating zero, \<^term>\<open>None\<close> is a null pointer. A failed assertion is \<^term>\<open>None\<close>,
  a thrown exception \<open>Inl\<close> with its message. A reference into a value is the path of keys that leads to it.
\<close>

section \<open>Data\<close>

datatype ValueType =
  nullValue | intValue | uintValue | realValue | stringValue | booleanValue | arrayValue | objectValue

fun type_number :: "ValueType \<Rightarrow> int" where
  "type_number nullValue = 0"
| "type_number intValue = 1"
| "type_number uintValue = 2"
| "type_number realValue = 3"
| "type_number stringValue = 4"
| "type_number booleanValue = 5"
| "type_number arrayValue = 6"
| "type_number objectValue = 7"

datatype CommentPlacement = commentBefore | commentAfterOnSameLine | commentAfter

record Comments =
  comment_before :: "string option"
  comment_same_line :: "string option"
  comment_after :: "string option"

definition no_comments :: Comments where
  "no_comments = \<lparr>comment_before = None, comment_same_line = None, comment_after = None\<rparr>"

text \<open>An array is a map from indices, an object one from names, both ordered by their keys.\<close>

datatype 'r Value = Value (vdata: "'r ValueHolder") (vcomments: Comments)
and 'r ValueHolder =
    NullV
  | IntV "32 word"
  | UIntV "32 word"
  | RealV 'r
  | StringV "string option"
  | BoolV bool
  | ArrayV "(int \<times> 'r Value) list"
  | ObjectV "(string \<times> 'r Value) list"

record 'r real_ops =
  r_less :: "'r \<Rightarrow> 'r \<Rightarrow> bool"
  r_eq :: "'r \<Rightarrow> 'r \<Rightarrow> bool"
  r_of_int :: "int \<Rightarrow> 'r"
  r_trunc :: "'r \<Rightarrow> int"
  r_print :: "'r \<Rightarrow> string"
  r_scan :: "string \<Rightarrow> 'r option"

abbreviation fresh_value :: "'r ValueHolder \<Rightarrow> 'r Value" where
  "fresh_value d \<equiv> Value d no_comments"

definition null :: "'r Value" where
  "null = fresh_value NullV"

definition minInt :: int where "minInt = - (2 ^ 31)"
definition maxInt :: int where "maxInt = 2 ^ 31 - 1"
definition maxUInt :: int where "maxUInt = 2 ^ 32 - 1"

definition cstr :: "string \<Rightarrow> string" where
  "cstr s = takeWhile (\<lambda>c. c \<noteq> CHR 0x00) s"

section \<open>Ordered maps\<close>

fun map_put :: "'k::linorder \<Rightarrow> 'v \<Rightarrow> ('k \<times> 'v) list \<Rightarrow> ('k \<times> 'v) list" where
  "map_put k v [] = [(k, v)]"
| "map_put k v ((k', v') # m) =
     (if k = k' then (k, v) # m else if k < k' then (k, v) # (k', v') # m else (k', v') # map_put k v m)"

definition map_erase :: "'k \<Rightarrow> ('k \<times> 'v) list \<Rightarrow> ('k \<times> 'v) list" where
  "map_erase k m = filter (\<lambda>(k', _). k' \<noteq> k) m"

text \<open>\<open>lower_bound\<close> and \<open>insert\<close>: the entry of a key, made with a default where there is none.\<close>

definition map_touch :: "'k::linorder \<Rightarrow> 'v \<Rightarrow> ('k \<times> 'v) list \<Rightarrow> ('k \<times> 'v) list" where
  "map_touch k d m = (case map_of m k of None \<Rightarrow> map_put k d m | Some _ \<Rightarrow> m)"

definition map_ok :: "('k::linorder \<times> 'v) list \<Rightarrow> bool" where
  "map_ok m \<longleftrightarrow> sorted_wrt (<) (map fst m)"

section \<open>Construction and assignment\<close>

fun Value_of_type :: "'r real_ops \<Rightarrow> ValueType \<Rightarrow> 'r Value" where
  "Value_of_type R nullValue = fresh_value NullV"
| "Value_of_type R intValue = fresh_value (IntV 0)"
| "Value_of_type R uintValue = fresh_value (UIntV 0)"
| "Value_of_type R realValue = fresh_value (RealV (r_of_int R 0))"
| "Value_of_type R stringValue = fresh_value (StringV None)"
| "Value_of_type R booleanValue = fresh_value (BoolV False)"
| "Value_of_type R arrayValue = fresh_value (ArrayV [])"
| "Value_of_type R objectValue = fresh_value (ObjectV [])"

definition Value_Int :: "32 word \<Rightarrow> 'r Value" where "Value_Int v = fresh_value (IntV v)"
definition Value_UInt :: "32 word \<Rightarrow> 'r Value" where "Value_UInt v = fresh_value (UIntV v)"
definition Value_double :: "'r \<Rightarrow> 'r Value" where "Value_double v = fresh_value (RealV v)"
definition Value_bool :: "bool \<Rightarrow> 'r Value" where "Value_bool v = fresh_value (BoolV v)"
definition Value_string :: "string \<Rightarrow> 'r Value" where "Value_string s = fresh_value (StringV (Some (cstr s)))"

text \<open>The copy of a value; \<open>setComment\<close> is given texts that are comments already.\<close>

definition Value_copy :: "'r Value \<Rightarrow> 'r Value" where
  "Value_copy other = Value (vdata other) (vcomments other)"

definition swap_Value :: "'r Value \<Rightarrow> 'r Value \<Rightarrow> 'r Value \<times> 'r Value" where
  "swap_Value a b = (Value (vdata b) (vcomments a), Value (vdata a) (vcomments b))"

definition assign :: "'r Value \<Rightarrow> 'r Value \<Rightarrow> 'r Value" where
  "assign this other = (let temp = Value_copy other in fst (swap_Value this temp))"

section \<open>Types\<close>

fun holder_type :: "'r ValueHolder \<Rightarrow> ValueType" where
  "holder_type NullV = nullValue"
| "holder_type (IntV _) = intValue"
| "holder_type (UIntV _) = uintValue"
| "holder_type (RealV _) = realValue"
| "holder_type (StringV _) = stringValue"
| "holder_type (BoolV _) = booleanValue"
| "holder_type (ArrayV _) = arrayValue"
| "holder_type (ObjectV _) = objectValue"

definition vtype :: "'r Value \<Rightarrow> ValueType" where "vtype v = holder_type (vdata v)"

definition isNull :: "'r Value \<Rightarrow> bool" where "isNull v \<longleftrightarrow> vtype v = nullValue"
definition isBool :: "'r Value \<Rightarrow> bool" where "isBool v \<longleftrightarrow> vtype v = booleanValue"
definition isInt :: "'r Value \<Rightarrow> bool" where "isInt v \<longleftrightarrow> vtype v = intValue"
definition isUInt :: "'r Value \<Rightarrow> bool" where "isUInt v \<longleftrightarrow> vtype v = uintValue"
definition isIntegral :: "'r Value \<Rightarrow> bool" where
  "isIntegral v \<longleftrightarrow> vtype v = intValue \<or> vtype v = uintValue \<or> vtype v = booleanValue"
definition isDouble :: "'r Value \<Rightarrow> bool" where "isDouble v \<longleftrightarrow> vtype v = realValue"
definition isNumeric :: "'r Value \<Rightarrow> bool" where "isNumeric v \<longleftrightarrow> isIntegral v \<or> isDouble v"
definition isString :: "'r Value \<Rightarrow> bool" where "isString v \<longleftrightarrow> vtype v = stringValue"
definition isArray :: "'r Value \<Rightarrow> bool" where "isArray v \<longleftrightarrow> vtype v = nullValue \<or> vtype v = arrayValue"
definition isObject :: "'r Value \<Rightarrow> bool" where "isObject v \<longleftrightarrow> vtype v = nullValue \<or> vtype v = objectValue"

section \<open>Conversions\<close>

definition asCString :: "'r Value \<Rightarrow> string option option" where
  "asCString v = (case vdata v of StringV s \<Rightarrow> Some s | _ \<Rightarrow> None)"

definition asString :: "'r Value \<Rightarrow> string + string" where
  "asString v =
     (case vdata v of
        NullV \<Rightarrow> Inr ''''
      | StringV s \<Rightarrow> Inr (case s of None \<Rightarrow> '''' | Some t \<Rightarrow> t)
      | BoolV b \<Rightarrow> Inr (if b then ''true'' else ''false'')
      | _ \<Rightarrow> Inl ''Type is not convertible to string'')"

text \<open>The comparisons of a \<open>double\<close> with an integer convert the integer.\<close>

definition r_between :: "'r real_ops \<Rightarrow> int \<Rightarrow> 'r \<Rightarrow> int \<Rightarrow> bool" where
  "r_between R lo x hi \<longleftrightarrow>
     (r_less R (r_of_int R lo) x \<or> r_eq R (r_of_int R lo) x) \<and> (r_less R x (r_of_int R hi) \<or> r_eq R x (r_of_int R hi))"

definition asInt :: "'r real_ops \<Rightarrow> 'r Value \<Rightarrow> string + 32 word" where
  "asInt R v =
     (case vdata v of
        NullV \<Rightarrow> Inr 0
      | IntV i \<Rightarrow> Inr i
      | UIntV u \<Rightarrow> if u < word_of_int maxInt then Inr u else Inl ''integer out of signed integer range''
      | RealV x \<Rightarrow> if r_between R minInt x maxInt then Inr (word_of_int (r_trunc R x))
                  else Inl ''Real out of signed integer range''
      | BoolV b \<Rightarrow> Inr (if b then 1 else 0)
      | _ \<Rightarrow> Inl ''Type is not convertible to int'')"

definition asUInt :: "'r real_ops \<Rightarrow> 'r Value \<Rightarrow> string + 32 word" where
  "asUInt R v =
     (case vdata v of
        NullV \<Rightarrow> Inr 0
      | IntV i \<Rightarrow> if sint i \<ge> 0 then Inr i
                 else Inl ''Negative integer can not be converted to unsigned integer''
      | UIntV u \<Rightarrow> Inr u
      | RealV x \<Rightarrow> if r_between R 0 x maxUInt then Inr (word_of_int (r_trunc R x))
                  else Inl ''Real out of unsigned integer range''
      | BoolV b \<Rightarrow> Inr (if b then 1 else 0)
      | _ \<Rightarrow> Inl ''Type is not convertible to uint'')"

definition asDouble :: "'r real_ops \<Rightarrow> 'r Value \<Rightarrow> string + 'r" where
  "asDouble R v =
     (case vdata v of
        NullV \<Rightarrow> Inr (r_of_int R 0)
      | IntV i \<Rightarrow> Inr (r_of_int R (sint i))
      | UIntV u \<Rightarrow> Inr (r_of_int R (uint u))
      | RealV x \<Rightarrow> Inr x
      | BoolV b \<Rightarrow> Inr (r_of_int R (if b then 1 else 0))
      | _ \<Rightarrow> Inl ''Type is not convertible to double'')"

definition asBool :: "'r real_ops \<Rightarrow> 'r Value \<Rightarrow> bool" where
  "asBool R v =
     (case vdata v of
        NullV \<Rightarrow> False
      | IntV i \<Rightarrow> i \<noteq> 0
      | UIntV u \<Rightarrow> u \<noteq> 0
      | RealV x \<Rightarrow> \<not> r_eq R x (r_of_int R 0)
      | BoolV b \<Rightarrow> b
      | StringV s \<Rightarrow> (case s of None \<Rightarrow> False | Some t \<Rightarrow> t \<noteq> '''')
      | ArrayV m \<Rightarrow> m \<noteq> []
      | ObjectV m \<Rightarrow> m \<noteq> [])"

definition isConvertibleTo :: "'r real_ops \<Rightarrow> ValueType \<Rightarrow> 'r Value \<Rightarrow> bool" where
  "isConvertibleTo R other v =
     (case vdata v of
        NullV \<Rightarrow> True
      | IntV i \<Rightarrow> (other = nullValue \<and> i = 0) \<or> other = intValue \<or> (other = uintValue \<and> sint i \<ge> 0)
          \<or> other = realValue \<or> other = stringValue \<or> other = booleanValue
      | UIntV u \<Rightarrow> (other = nullValue \<and> u = 0) \<or> (other = intValue \<and> u \<le> word_of_int maxInt) \<or> other = uintValue
          \<or> other = realValue \<or> other = stringValue \<or> other = booleanValue
      | RealV x \<Rightarrow> (other = nullValue \<and> r_eq R x (r_of_int R 0)) \<or> (other = intValue \<and> r_between R minInt x maxInt)
          \<or> (other = uintValue \<and> r_between R 0 x maxUInt) \<or> other = realValue \<or> other = stringValue \<or> other = booleanValue
      | BoolV b \<Rightarrow> (other = nullValue \<and> b = False) \<or> other = intValue \<or> other = uintValue \<or> other = realValue
          \<or> other = stringValue \<or> other = booleanValue
      | StringV s \<Rightarrow> other = stringValue \<or> (other = nullValue \<and> (s = None \<or> s = Some ''''))
      | ArrayV m \<Rightarrow> other = arrayValue \<or> (other = nullValue \<and> m = [])
      | ObjectV m \<Rightarrow> other = objectValue \<or> (other = nullValue \<and> m = []))"

section \<open>Comparison\<close>

text \<open>
  \<open>operator<\<close> and \<open>operator==\<close>. Two maps of the same size are compared entry by entry, an entry by its key
  and then by its value.
\<close>

function (sequential) less_Value :: "'r real_ops \<Rightarrow> 'r Value \<Rightarrow> 'r Value \<Rightarrow> bool"
  and less_array :: "'r real_ops \<Rightarrow> (int \<times> 'r Value) list \<Rightarrow> (int \<times> 'r Value) list \<Rightarrow> bool"
  and less_object :: "'r real_ops \<Rightarrow> (string \<times> 'r Value) list \<Rightarrow> (string \<times> 'r Value) list \<Rightarrow> bool" where
  "less_Value R (Value a ca) (Value b cb) =
     (let typeDelta = type_number (holder_type a) - type_number (holder_type b) in
      if typeDelta \<noteq> 0 then typeDelta < 0
      else
        (case (a, b) of
           (IntV i, IntV j) \<Rightarrow> sint i < sint j
         | (UIntV i, UIntV j) \<Rightarrow> i < j
         | (RealV x, RealV y) \<Rightarrow> r_less R x y
         | (BoolV x, BoolV y) \<Rightarrow> x < y
         | (StringV s, StringV t) \<Rightarrow>
             (s = None \<and> t \<noteq> None) \<or> (t \<noteq> None \<and> s \<noteq> None \<and> the s < the t)
         | (ArrayV m, ArrayV n) \<Rightarrow>
             (let delta = int (length m) - int (length n) in if delta \<noteq> 0 then delta < 0 else less_array R m n)
         | (ObjectV m, ObjectV n) \<Rightarrow>
             (let delta = int (length m) - int (length n) in if delta \<noteq> 0 then delta < 0 else less_object R m n)
         | _ \<Rightarrow> False))"
| "less_array R [] [] = False"
| "less_array R [] (y # ys) = True"
| "less_array R (x # xs) [] = False"
| "less_array R ((i, v) # xs) ((j, w) # ys) =
     (if i < j \<or> (\<not> j < i \<and> less_Value R v w) then True
      else if j < i \<or> (\<not> i < j \<and> less_Value R w v) then False
      else less_array R xs ys)"
| "less_object R [] [] = False"
| "less_object R [] (y # ys) = True"
| "less_object R (x # xs) [] = False"
| "less_object R ((i, v) # xs) ((j, w) # ys) =
     (if i < j \<or> (\<not> j < i \<and> less_Value R v w) then True
      else if j < i \<or> (\<not> i < j \<and> less_Value R w v) then False
      else less_object R xs ys)"
  by pat_completeness auto
termination
  by (relation "measure (\<lambda>x. case x of Inl (R, v, w) \<Rightarrow> size v + size w
      | Inr (Inl (R, m, n)) \<Rightarrow> size_list (size_prod (\<lambda>_. 0) size) m + size_list (size_prod (\<lambda>_. 0) size) n
      | Inr (Inr (R, m, n)) \<Rightarrow> size_list (size_prod (\<lambda>_. 0) size) m + size_list (size_prod (\<lambda>_. 0) size) n)") auto

function (sequential) eq_Value :: "'r real_ops \<Rightarrow> 'r Value \<Rightarrow> 'r Value \<Rightarrow> bool"
  and eq_array :: "'r real_ops \<Rightarrow> (int \<times> 'r Value) list \<Rightarrow> (int \<times> 'r Value) list \<Rightarrow> bool"
  and eq_object :: "'r real_ops \<Rightarrow> (string \<times> 'r Value) list \<Rightarrow> (string \<times> 'r Value) list \<Rightarrow> bool" where
  "eq_Value R (Value a ca) (Value b cb) =
     (if holder_type a \<noteq> holder_type b then False
      else
        (case (a, b) of
           (NullV, NullV) \<Rightarrow> True
         | (IntV i, IntV j) \<Rightarrow> i = j
         | (UIntV i, UIntV j) \<Rightarrow> i = j
         | (RealV x, RealV y) \<Rightarrow> r_eq R x y
         | (BoolV x, BoolV y) \<Rightarrow> x = y
         | (StringV s, StringV t) \<Rightarrow> s = t
         | (ArrayV m, ArrayV n) \<Rightarrow> length m = length n \<and> eq_array R m n
         | (ObjectV m, ObjectV n) \<Rightarrow> length m = length n \<and> eq_object R m n
         | _ \<Rightarrow> False))"
| "eq_array R [] [] = True"
| "eq_array R ((i, v) # xs) ((j, w) # ys) = (i = j \<and> eq_Value R v w \<and> eq_array R xs ys)"
| "eq_array R _ _ = False"
| "eq_object R [] [] = True"
| "eq_object R ((i, v) # xs) ((j, w) # ys) = (i = j \<and> eq_Value R v w \<and> eq_object R xs ys)"
| "eq_object R _ _ = False"
  by pat_completeness auto
termination
  by (relation "measure (\<lambda>x. case x of Inl (R, v, w) \<Rightarrow> size v + size w
      | Inr (Inl (R, m, n)) \<Rightarrow> size_list (size_prod (\<lambda>_. 0) size) m + size_list (size_prod (\<lambda>_. 0) size) n
      | Inr (Inr (R, m, n)) \<Rightarrow> size_list (size_prod (\<lambda>_. 0) size) m + size_list (size_prod (\<lambda>_. 0) size) n)") auto

definition greater_Value :: "'r real_ops \<Rightarrow> 'r Value \<Rightarrow> 'r Value \<Rightarrow> bool" where
  "greater_Value R v w = less_Value R w v"

text \<open>\<open>operator<=\<close> is \<open>!(other > *this)\<close>.\<close>

definition less_eq_Value :: "'r real_ops \<Rightarrow> 'r Value \<Rightarrow> 'r Value \<Rightarrow> bool" where
  "less_eq_Value R v w \<longleftrightarrow> \<not> greater_Value R w v"

definition greater_eq_Value :: "'r real_ops \<Rightarrow> 'r Value \<Rightarrow> 'r Value \<Rightarrow> bool" where
  "greater_eq_Value R v w \<longleftrightarrow> \<not> less_Value R v w"

definition noteq_Value :: "'r real_ops \<Rightarrow> 'r Value \<Rightarrow> 'r Value \<Rightarrow> bool" where
  "noteq_Value R v w \<longleftrightarrow> \<not> eq_Value R v w"

section \<open>Access\<close>

definition vsize :: "'r Value \<Rightarrow> 32 word" where
  "vsize v =
     (case vdata v of
        ArrayV m \<Rightarrow> if m \<noteq> [] then word_of_int (fst (last m) + 1) else 0
      | ObjectV m \<Rightarrow> of_nat (length m)
      | _ \<Rightarrow> 0)"

definition vempty :: "'r Value \<Rightarrow> bool" where
  "vempty v = (if isNull v \<or> isArray v \<or> isObject v then vsize v = 0 else False)"

definition clear_Value :: "'r Value \<Rightarrow> 'r Value option" where
  "clear_Value v =
     (case vdata v of
        NullV \<Rightarrow> Some v
      | ArrayV _ \<Rightarrow> Some (Value (ArrayV []) (vcomments v))
      | ObjectV _ \<Rightarrow> Some (Value (ObjectV []) (vcomments v))
      | _ \<Rightarrow> None)"

text \<open>
  The non-constant \<open>operator[]\<close> makes the element it returns a reference to; \<open>touch_index\<close> and
  \<open>resolveReference\<close> give the value with the element in it. The constant one returns a reference to
  \<open>Value::null\<close> where there is no element: \<open>Some None\<close>.
\<close>

definition touch_index :: "32 word \<Rightarrow> 'r Value \<Rightarrow> 'r Value option" where
  "touch_index index v =
     (case vdata v of
        NullV \<Rightarrow> Some (Value (ArrayV (map_touch (sint index) null [])) (vcomments v))
      | ArrayV m \<Rightarrow> Some (Value (ArrayV (map_touch (sint index) null m)) (vcomments v))
      | _ \<Rightarrow> None)"

definition find_index :: "32 word \<Rightarrow> 'r Value \<Rightarrow> 'r Value option option" where
  "find_index index v =
     (case vdata v of
        NullV \<Rightarrow> Some None
      | ArrayV m \<Rightarrow> Some (map_of m (sint index))
      | _ \<Rightarrow> None)"

definition resolveReference :: "string \<Rightarrow> 'r Value \<Rightarrow> 'r Value option" where
  "resolveReference key v =
     (case vdata v of
        NullV \<Rightarrow> Some (Value (ObjectV (map_touch (cstr key) null [])) (vcomments v))
      | ObjectV m \<Rightarrow> Some (Value (ObjectV (map_touch (cstr key) null m)) (vcomments v))
      | _ \<Rightarrow> None)"

definition find_member :: "string \<Rightarrow> 'r Value \<Rightarrow> 'r Value option option" where
  "find_member key v =
     (case vdata v of
        NullV \<Rightarrow> Some None
      | ObjectV m \<Rightarrow> Some (map_of m (cstr key))
      | _ \<Rightarrow> None)"

text \<open>The value behind such a reference.\<close>

definition or_null :: "'r Value option \<Rightarrow> 'r Value" where
  "or_null r = (case r of None \<Rightarrow> null | Some v \<Rightarrow> v)"

definition get_index :: "32 word \<Rightarrow> 'r Value \<Rightarrow> 'r Value \<Rightarrow> 'r Value option" where
  "get_index index defaultValue v =
     map_option (\<lambda>r. case r of None \<Rightarrow> defaultValue | Some w \<Rightarrow> w) (find_index index v)"

definition get_member :: "string \<Rightarrow> 'r Value \<Rightarrow> 'r Value \<Rightarrow> 'r Value option" where
  "get_member key defaultValue v =
     map_option (\<lambda>r. case r of None \<Rightarrow> defaultValue | Some w \<Rightarrow> w) (find_member key v)"

definition isValidIndex :: "32 word \<Rightarrow> 'r Value \<Rightarrow> bool" where
  "isValidIndex index v \<longleftrightarrow> index < vsize v"

definition isMember :: "string \<Rightarrow> 'r Value \<Rightarrow> bool option" where
  "isMember key v = map_option (\<lambda>r. r \<noteq> None) (find_member key v)"

text \<open>Assigning to the element.\<close>

definition put_index :: "32 word \<Rightarrow> 'r Value \<Rightarrow> 'r Value \<Rightarrow> 'r Value option" where
  "put_index index w v =
     (case touch_index index v of
        Some (Value (ArrayV m) c) \<Rightarrow>
          Some (Value (ArrayV (map_put (sint index) (assign (or_null (map_of m (sint index))) w) m)) c)
      | _ \<Rightarrow> None)"

definition put_member :: "string \<Rightarrow> 'r Value \<Rightarrow> 'r Value \<Rightarrow> 'r Value option" where
  "put_member key w v =
     (case resolveReference key v of
        Some (Value (ObjectV m) c) \<Rightarrow>
          Some (Value (ObjectV (map_put (cstr key) (assign (or_null (map_of m (cstr key))) w) m)) c)
      | _ \<Rightarrow> None)"

definition append_Value :: "'r Value \<Rightarrow> 'r Value \<Rightarrow> 'r Value option" where
  "append_Value w v = put_index (vsize v) w v"

definition removeMember :: "string \<Rightarrow> 'r Value \<Rightarrow> ('r Value \<times> 'r Value) option" where
  "removeMember key v =
     (case vdata v of
        NullV \<Rightarrow> Some (null, v)
      | ObjectV m \<Rightarrow>
          (case map_of m (cstr key) of
             None \<Rightarrow> Some (null, v)
           | Some old \<Rightarrow> Some (Value_copy old, Value (ObjectV (map_erase (cstr key) m)) (vcomments v)))
      | _ \<Rightarrow> None)"

definition getMemberNames :: "'r Value \<Rightarrow> string list option" where
  "getMemberNames v =
     (case vdata v of NullV \<Rightarrow> Some [] | ObjectV m \<Rightarrow> Some (map fst m) | _ \<Rightarrow> None)"

text \<open>\<open>resize\<close>, with its closing assertion.\<close>

definition erase_indices :: "nat \<Rightarrow> nat \<Rightarrow> (int \<times> 'v) list \<Rightarrow> (int \<times> 'v) list" where
  "erase_indices newSize oldSize m = fold (\<lambda>index. map_erase (sint (of_nat index :: 32 word))) [newSize..<oldSize] m"

definition resize :: "32 word \<Rightarrow> 'r Value \<Rightarrow> 'r Value option" where
  "resize newSize v =
     (let this = (if vtype v = nullValue then Value (ArrayV []) (vcomments v) else v);
          oldSize = vsize this in
      case vdata this of
        ArrayV m \<Rightarrow>
          if newSize = 0 then clear_Value this
          else if newSize > oldSize then touch_index (newSize - 1) this
          else
            (let this = Value (ArrayV (erase_indices (unat newSize) (unat oldSize) m)) (vcomments v) in
             if vsize this = newSize then Some this else None)
      | _ \<Rightarrow> None)"

section \<open>Comments\<close>

fun comment_at :: "CommentPlacement \<Rightarrow> Comments \<Rightarrow> string option" where
  "comment_at commentBefore c = comment_before c"
| "comment_at commentAfterOnSameLine c = comment_same_line c"
| "comment_at commentAfter c = comment_after c"

fun put_comment :: "CommentPlacement \<Rightarrow> string \<Rightarrow> Comments \<Rightarrow> Comments" where
  "put_comment commentBefore t c = c\<lparr>comment_before := Some t\<rparr>"
| "put_comment commentAfterOnSameLine t c = c\<lparr>comment_same_line := Some t\<rparr>"
| "put_comment commentAfter t c = c\<lparr>comment_after := Some t\<rparr>"

definition setComment :: "string \<Rightarrow> CommentPlacement \<Rightarrow> 'r Value \<Rightarrow> string + 'r Value" where
  "setComment comment placement v =
     (let text = cstr comment in
      if text = '''' \<or> hd text = CHR ''/'' then Inr (Value (vdata v) (put_comment placement text (vcomments v)))
      else Inl ''Comments must start with /'')"

definition hasComment :: "CommentPlacement \<Rightarrow> 'r Value \<Rightarrow> bool" where
  "hasComment placement v \<longleftrightarrow> comment_at placement (vcomments v) \<noteq> None"

definition getComment :: "CommentPlacement \<Rightarrow> 'r Value \<Rightarrow> string" where
  "getComment placement v = (case comment_at placement (vcomments v) of None \<Rightarrow> '''' | Some t \<Rightarrow> t)"

section \<open>References into a value\<close>

text \<open>
  The elements of a \<open>std::map\<close> keep their addresses, so a pointer into a value is the list of the keys that
  lead to it: \<open>get_at\<close> is the value it points to, \<open>upd_at\<close> a write through it.
\<close>

datatype step = At int | Named string

type_synonym path = "step list"

definition map_entry :: "'k \<Rightarrow> ('v \<Rightarrow> 'v) \<Rightarrow> ('k \<times> 'v) list \<Rightarrow> ('k \<times> 'v) list" where
  "map_entry k f m = map (\<lambda>(k', x). if k' = k then (k', f x) else (k', x)) m"

fun get_step :: "step \<Rightarrow> 'r Value \<Rightarrow> 'r Value option" where
  "get_step (At i) (Value (ArrayV m) c) = map_of m i"
| "get_step (Named n) (Value (ObjectV m) c) = map_of m n"
| "get_step _ _ = None"

fun upd_step :: "step \<Rightarrow> ('r Value \<Rightarrow> 'r Value) \<Rightarrow> 'r Value \<Rightarrow> 'r Value" where
  "upd_step (At i) f (Value (ArrayV m) c) = Value (ArrayV (map_entry i f m)) c"
| "upd_step (Named n) f (Value (ObjectV m) c) = Value (ObjectV (map_entry n f m)) c"
| "upd_step _ f v = v"

fun get_at :: "path \<Rightarrow> 'r Value \<Rightarrow> 'r Value option" where
  "get_at [] v = Some v"
| "get_at (x # p) v = Option.bind (get_step x v) (get_at p)"

fun upd_at :: "path \<Rightarrow> ('r Value \<Rightarrow> 'r Value) \<Rightarrow> 'r Value \<Rightarrow> 'r Value" where
  "upd_at [] f v = f v"
| "upd_at (x # p) f v = upd_step x (upd_at p f) v"

section \<open>Path expressions\<close>

text \<open>
  \<open>Path\<close>: the arguments made of an expression such as \<open>.name[3]\<close>. \<open>addPathInArg\<close> looks at the first of the given
  arguments each time, since the iterator is not advanced. The loop of \<open>makePath\<close> does not end on a zero byte
  inside the expression, which \<open>strchr\<close> finds in its list of delimiters.
\<close>

datatype PathArgument = kindNone | kindIndex "32 word" | kindKey string

definition PathArgument_string :: "string \<Rightarrow> PathArgument" where
  "PathArgument_string key = kindKey (cstr key)"

definition addPathInArg :: "PathArgument \<Rightarrow> bool \<Rightarrow> PathArgument list \<Rightarrow> PathArgument list" where
  "addPathInArg a1 want_index args =
     (case a1 of
        kindNone \<Rightarrow> args
      | kindIndex _ \<Rightarrow> if want_index then args @ [a1] else args
      | kindKey _ \<Rightarrow> if want_index then args else args @ [a1])"

definition is_digit :: "char \<Rightarrow> bool" where
  "is_digit c \<longleftrightarrow> CHR ''0'' \<le> c \<and> c \<le> CHR ''9''"

definition digit_value :: "char \<Rightarrow> 32 word" where
  "digit_value c = of_nat (of_char c - of_char (CHR ''0''))"

definition path_delimiter :: "char \<Rightarrow> bool" where
  "path_delimiter c \<longleftrightarrow> c = CHR ''['' \<or> c = CHR ''.'' \<or> c = CHR 0x00"

partial_function (option) makePath :: "PathArgument \<Rightarrow> string \<Rightarrow> PathArgument list \<Rightarrow> PathArgument list option" where
  "makePath a1 current args =
     (case current of
        [] \<Rightarrow> Some args
      | c # rest \<Rightarrow>
          if c = CHR ''['' then
            (if rest \<noteq> [] \<and> hd rest = CHR ''%'' then makePath a1 (tl rest) (addPathInArg a1 True args)
             else
               makePath a1 (tl (dropWhile is_digit rest))
                 (args @ [kindIndex (fold (\<lambda>c index. index * 10 + digit_value c) (takeWhile is_digit rest) 0)]))
          else if c = CHR ''%'' then makePath a1 rest (addPathInArg a1 False args)
          else if c = CHR ''.'' then makePath a1 rest args
          else
            makePath a1 (dropWhile (\<lambda>c. \<not> path_delimiter c) current)
              (args @ [PathArgument_string (takeWhile (\<lambda>c. \<not> path_delimiter c) current)]))"

definition Path :: "string \<Rightarrow> PathArgument \<Rightarrow> PathArgument list option" where
  "Path path a1 = makePath a1 path []"

text \<open>\<open>resolve\<close>, which gives the value behind the reference it returns.\<close>

fun resolve :: "PathArgument list \<Rightarrow> 'r Value option \<Rightarrow> 'r Value option" where
  "resolve [] node = Some (or_null node)"
| "resolve (kindNone # args) node = resolve args node"
| "resolve (kindIndex index # args) node =
     (case find_index index (or_null node) of None \<Rightarrow> None | Some r \<Rightarrow> resolve args r)"
| "resolve (kindKey key # args) node =
     (case find_member key (or_null node) of None \<Rightarrow> None | Some r \<Rightarrow> resolve args r)"

fun resolve_default :: "PathArgument list \<Rightarrow> 'r Value \<Rightarrow> 'r Value option \<Rightarrow> 'r Value option" where
  "resolve_default [] defaultValue node = Some (or_null node)"
| "resolve_default (kindNone # args) defaultValue node = resolve_default args defaultValue node"
| "resolve_default (kindIndex index # args) defaultValue node =
     (if \<not> isArray (or_null node) \<or> isValidIndex index (or_null node) then Some defaultValue
      else case find_index index (or_null node) of None \<Rightarrow> None | Some r \<Rightarrow> resolve_default args defaultValue r)"
| "resolve_default (kindKey key # args) defaultValue node =
     (if \<not> isObject (or_null node) then Some defaultValue
      else
        case find_member key (or_null node) of
          None \<Rightarrow> None
        | Some None \<Rightarrow> Some defaultValue
        | Some (Some w) \<Rightarrow> resolve_default args defaultValue (Some w))"

text \<open>\<open>make\<close> gives the value with the nodes of the path in it.\<close>

fun make :: "PathArgument list \<Rightarrow> 'r Value \<Rightarrow> 'r Value option" where
  "make [] v = Some v"
| "make (kindNone # args) v = make args v"
| "make (kindIndex index # args) v =
     do {
       v' \<leftarrow> touch_index index v;
       w \<leftarrow> get_step (At (sint index)) v';
       w' \<leftarrow> make args w;
       Some (upd_step (At (sint index)) (\<lambda>_. w') v')
     }"
| "make (kindKey key # args) v =
     do {
       v' \<leftarrow> resolveReference key v;
       w \<leftarrow> get_step (Named (cstr key)) v';
       w' \<leftarrow> make args w;
       Some (upd_step (Named (cstr key)) (\<lambda>_. w') v')
     }"

section \<open>Laws of the maps and of the references\<close>

lemma map_of_map_entry [simp]:
  "map_of (map_entry k f m) k' = (if k = k' then map_option f (map_of m k) else map_of m k')"
  by (induction m) (auto simp: map_entry_def)

lemma map_entry_map_entry [simp]: "map_entry k g (map_entry k f m) = map_entry k (\<lambda>x. g (f x)) m"
  by (induction m) (auto simp: map_entry_def)

lemma get_upd_step [simp]: "get_step x (upd_step x f v) = map_option f (get_step x v)"
  by (cases "(x, f, v)" rule: upd_step.cases) auto

lemma upd_upd_step [simp]: "upd_step x g (upd_step x f v) = upd_step x (\<lambda>w. g (f w)) v"
  by (cases "(x, f, v)" rule: upd_step.cases) auto

lemma upd_at_here [simp]: "upd_at [] f = f"
  by (intro ext) simp

lemma upd_at_append: "upd_at (p @ q) f v = upd_at p (upd_at q f) v"
proof (induction p arbitrary: v)
  case (Cons x p)
  have "upd_at (p @ q) f = upd_at p (upd_at q f)" using Cons by (intro ext)
  then show ?case by simp
qed simp

lemma get_at_append: "get_at (p @ q) v = Option.bind (get_at p v) (get_at q)"
  by (induction p arbitrary: v) (auto split: bind_splits)

lemma upd_upd_at [simp]: "upd_at p g (upd_at p f v) = upd_at p (\<lambda>w. g (f w)) v"
proof (induction p arbitrary: v)
  case (Cons x p)
  have "(\<lambda>w. upd_at p g (upd_at p f w)) = upd_at p (\<lambda>w. g (f w))" using Cons by (intro ext)
  then show ?case by simp
qed simp

lemma get_upd_at [simp]: "get_at p (upd_at p f v) = map_option f (get_at p v)"
  by (induction p arbitrary: v) (auto simp: option.map_comp comp_def split: bind_splits option.splits)

lemma map_put_end: "(\<And>e. e \<in> set m \<Longrightarrow> fst e < k) \<Longrightarrow> map_put k v m = m @ [(k, v)]"
proof (induction m)
  case (Cons e m)
  have "fst e < k" using Cons.prems by simp
  then show ?case using Cons by (cases e) auto
qed simp

lemma map_of_put [simp]: "map_ok m \<Longrightarrow> map_of (map_put k v m) k' = (if k' = k then Some v else map_of m k')"
proof (induction k v m rule: map_put.induct)
  case (2 k v k2 v2 m)
  have "k < k2 \<Longrightarrow> map_of m k = None"
    using 2(2) by (force simp: map_ok_def map_of_eq_None_iff)
  then show ?case using 2 by (auto simp: map_ok_def)
qed simp

lemma set_map_put: "fst ` set (map_put k v m) = insert k (fst ` set m)"
  by (induction k v m rule: map_put.induct) auto

lemma map_ok_put [simp]: "map_ok m \<Longrightarrow> map_ok (map_put k v m)"
proof (induction k v m rule: map_put.induct)
  case (2 k v k2 v2 m)
  have "k2 < x" if "x \<in> fst ` set (map_put k v m)" "k2 < k" for x
    using that 2(2) by (auto simp: set_map_put map_ok_def)
  then show ?case using 2 by (auto simp: map_ok_def)
qed (simp add: map_ok_def)

lemma map_entry_notin: "k \<notin> fst ` set m \<Longrightarrow> map_entry k f m = m"
  by (induction m) (auto simp: map_entry_def)

lemma map_put_existing: "map_ok m \<Longrightarrow> map_of m k = Some x \<Longrightarrow> map_put k v m = map_entry k (\<lambda>_. v) m"
proof (induction k v m rule: map_put.induct)
  case (2 k v k2 v2 m)
  show ?case
  proof (cases "k = k2")
    case True
    then have "k \<notin> fst ` set m" using 2(2) by (auto simp: map_ok_def)
    then show ?thesis using True map_entry_notin [of k m "\<lambda>_. v"] by (simp add: map_entry_def)
  next
    case False
    then have "map_of m k = Some x" using 2(3) by simp
    then have "\<not> k < k2" using 2(2) by (force simp: map_ok_def dest: map_of_SomeD)
    then show ?thesis using 2 False by (simp add: map_ok_def map_entry_def)
  qed
qed simp

lemma map_entry_put: "map_ok m \<Longrightarrow> map_of m k = None \<Longrightarrow> map_entry k f (map_put k v m) = map_put k (f v) m"
proof (induction k v m rule: map_put.induct)
  case (2 k v k2 v2 m)
  have no: "k \<notin> fst ` set m" "k \<noteq> k2" using 2(3) by (auto simp: map_of_eq_None_iff split: if_splits)
  then show ?case using 2 map_entry_notin [OF no(1)] by (auto simp: map_ok_def map_entry_def)
qed (simp add: map_entry_def)

text \<open>Touching an entry and writing to it is storing it.\<close>

lemma touch_write:
  assumes "map_ok m"
  shows "map_entry k (\<lambda>_. w) (map_touch k d m) = map_put k w m"
  using assms by (cases "map_of m k") (simp_all add: map_touch_def map_entry_put map_put_existing)

lemma map_of_touch [simp]:
  "map_ok m \<Longrightarrow> map_of (map_touch k d m) k = Some (case map_of m k of None \<Rightarrow> d | Some x \<Rightarrow> x)"
  by (simp add: map_touch_def split: option.splits)

end
