(* ===== verification/Json_Writer.thy ===== *)
theory Json_Writer
  imports Json_Value
begin

text \<open>
  Writing JSON values (source/json/src/json_writer.cpp): the conversions to text, \<open>FastWriter\<close>, and the two styled
  writers. \<open>StyledWriter\<close> (with its variant \<open>writeSimple\<close>) and \<open>StyledStreamWriter\<close> have the same functions up to the
  texts they emit; \<open>writer\<close> says which one runs.

  A null string pointer, a failed assertion, an access outside a vector and an overflow of a signed integer
  are \<^term>\<open>None\<close>.
\<close>

section \<open>Scalars\<close>

definition isControlCharacter :: "char \<Rightarrow> bool" where
  "isControlCharacter ch \<longleftrightarrow> 0 < (of_char ch :: nat) \<and> (of_char ch :: nat) \<le> 0x1F"

definition containsControlCharacter :: "string \<Rightarrow> bool" where
  "containsControlCharacter str \<longleftrightarrow> list_ex isControlCharacter (cstr str)"

definition digit_char :: "nat \<Rightarrow> char" where
  "digit_char n = char_of (48 + n)"

function uintToString :: "32 word \<Rightarrow> string \<Rightarrow> string" where
  "uintToString v current =
     (let current = digit_char (unat (v mod 10)) # current; v = v div 10 in
      if v \<noteq> 0 then uintToString v current else current)"
  by pat_completeness auto
termination
proof (relation "measure (\<lambda>(v, _). unat v)", goal_cases)
  case (2 v current x y)
  have "unat (v div 10) \<noteq> 0"
    using 2 by (metis unat_eq_zero)
  then have "unat v div 10 < unat v"
    by (simp add: unat_div)
  then show ?case
    using 2 by (simp add: unat_div)
qed simp

declare uintToString.simps [simp del]

definition valueToString_Int :: "32 word \<Rightarrow> string option" where
  "valueToString_Int v =
     (if sint v < 0 then
        (if sint v = minInt then None else Some (CHR ''-'' # uintToString (- v) ''''))
      else Some (uintToString v ''''))"

definition valueToString_UInt :: "32 word \<Rightarrow> string" where
  "valueToString_UInt v = uintToString v ''''"

text \<open>The text \<open>sprintf\<close> gives for a \<open>double\<close>, with the zeros at its end cut off but one.\<close>

definition valueToString_double :: "'r real_ops \<Rightarrow> 'r \<Rightarrow> string" where
  "valueToString_double R x =
     (let buffer = r_print R x in
      if buffer = [] \<or> last buffer \<noteq> CHR ''0'' then buffer
      else
        (let last_nonzero = length buffer - 1 - length (takeWhile (\<lambda>c. c = CHR ''0'') (rev (tl buffer))) in
         case dropWhile is_digit (rev (take (last_nonzero + 1) buffer)) of
           [] \<Rightarrow> buffer
         | c # _ \<Rightarrow> if c = CHR ''.'' then take (last_nonzero + 2) buffer else buffer))"

definition valueToString_bool :: "bool \<Rightarrow> string" where
  "valueToString_bool v = (if v then ''true'' else ''false'')"

definition hex_char :: "nat \<Rightarrow> char" where
  "hex_char n = (if n < 10 then char_of (48 + n) else char_of (55 + n))"

definition hex4 :: "nat \<Rightarrow> string" where
  "hex4 n = [hex_char (n div 4096 mod 16), hex_char (n div 256 mod 16), hex_char (n div 16 mod 16), hex_char (n mod 16)]"

definition quote_char :: "char \<Rightarrow> string" where
  "quote_char c =
     (if c = CHR 0x22 then [CHR 0x5C, CHR 0x22]
      else if c = CHR 0x5C then [CHR 0x5C, CHR 0x5C]
      else if c = CHR 0x08 then [CHR 0x5C, CHR ''b'']
      else if c = CHR 0x0C then [CHR 0x5C, CHR ''f'']
      else if c = CHR 0x0A then [CHR 0x5C, CHR ''n'']
      else if c = CHR 0x0D then [CHR 0x5C, CHR ''r'']
      else if c = CHR 0x09 then [CHR 0x5C, CHR ''t'']
      else if isControlCharacter c then [CHR 0x5C, CHR ''u''] @ hex4 (of_char c)
      else [c])"

definition needs_quoting :: "char \<Rightarrow> bool" where
  "needs_quoting c \<longleftrightarrow> c \<in> {CHR 0x22, CHR 0x5C, CHR 0x08, CHR 0x0C, CHR 0x0A, CHR 0x0D, CHR 0x09}"

definition valueToQuotedString :: "string \<Rightarrow> string" where
  "valueToQuotedString v =
     (let text = cstr v in
      if \<not> list_ex needs_quoting text \<and> \<not> containsControlCharacter text then CHR 0x22 # text @ [CHR 0x22]
      else CHR 0x22 # concat (map quote_char text) @ [CHR 0x22])"

definition valueToQuotedStringSimple :: "string \<Rightarrow> string" where
  "valueToQuotedStringSimple v =
     (let text = cstr v in
      if \<not> list_ex needs_quoting text \<and> \<not> containsControlCharacter text then CHR 0x22 # text @ [CHR 0x22]
      else CHR 0x22 # concat (map quote_char text) @ [CHR 0x22])"

text \<open>The text of a value that is neither an array nor an object.\<close>

definition scalar_text :: "'r real_ops \<Rightarrow> (string \<Rightarrow> string) \<Rightarrow> 'r Value \<Rightarrow> string option" where
  "scalar_text R quoted v =
     (case vdata v of
        NullV \<Rightarrow> Some ''null''
      | IntV i \<Rightarrow> valueToString_Int i
      | UIntV u \<Rightarrow> Some (valueToString_UInt u)
      | RealV x \<Rightarrow> Some (valueToString_double R x)
      | StringV s \<Rightarrow> map_option quoted s
      | BoolV b \<Rightarrow> Some (valueToString_bool b)
      | _ \<Rightarrow> None)"

section \<open>The fast writer\<close>

text \<open>A bound on the calls: the size of a container, zero for any other value.\<close>

definition container_rank :: "'r Value \<Rightarrow> nat" where
  "container_rank v = (case vdata v of ArrayV _ \<Rightarrow> size v | ObjectV _ \<Rightarrow> size v | _ \<Rightarrow> 0)"

lemma Value_size_pos: "0 < size (v :: 'r Value)"
  by (cases v) simp

lemma map_of_size:
  assumes "map_of m k = Some v"
  shows "size v \<le> size_list (size_prod (\<lambda>_. 0) size) m"
  using assms
proof (induction m)
  case (Cons e m)
  show ?case
  proof (cases "fst e = k")
    case True
    then show ?thesis using Cons.prems by (cases e) simp
  next
    case False
    then have "map_of m k = Some v" using Cons.prems by (cases e) simp
    then show ?thesis using Cons.IH by (cases e) simp
  qed
qed simp

lemma rank_null [simp]: "container_rank (or_null None) = 0"
  by (simp add: container_rank_def or_null_def null_def)

lemma rank_le: "container_rank v \<le> size v"
  by (cases v) (simp add: container_rank_def split: ValueHolder.splits)

lemma find_index_rank:
  assumes "find_index i v = Some r"
  shows "container_rank (or_null r) < size v"
proof (cases r)
  case None
  then show ?thesis using Value_size_pos by simp
next
  case (Some w)
  then obtain m c where v: "v = Value (ArrayV m) c" and w: "map_of m (sint i) = Some w"
    using assms by (cases v) (auto simp: find_index_def split: ValueHolder.splits)
  show ?thesis
    using map_of_size [OF w] rank_le [of w] by (simp add: v Some or_null_def)
qed

lemma find_member_rank:
  assumes "find_member n v = Some r"
  shows "container_rank (or_null r) < size v"
proof (cases r)
  case None
  then show ?thesis using Value_size_pos by simp
next
  case (Some w)
  then obtain m c where v: "v = Value (ObjectV m) c" and w: "map_of m (cstr n) = Some w"
    using assms by (cases v) (auto simp: find_member_def split: ValueHolder.splits)
  show ?thesis
    using map_of_size [OF w] rank_le [of w] by (simp add: v Some or_null_def)
qed

function fast_value :: "(string \<Rightarrow> string) \<Rightarrow> bool \<Rightarrow> 'r real_ops \<Rightarrow> 'r Value \<Rightarrow> string \<Rightarrow> string option"
  and fast_elements :: "(string \<Rightarrow> string) \<Rightarrow> bool \<Rightarrow> 'r real_ops \<Rightarrow> 'r Value \<Rightarrow> int \<Rightarrow> int \<Rightarrow> string \<Rightarrow> string option"
  and fast_members :: "(string \<Rightarrow> string) \<Rightarrow> bool \<Rightarrow> 'r real_ops \<Rightarrow> 'r Value \<Rightarrow> string list \<Rightarrow> bool \<Rightarrow> string \<Rightarrow> string option" where
  "fast_value quoted yaml R v document =
     (case vdata v of
        ArrayV m \<Rightarrow>
          do {
            document \<leftarrow> fast_elements quoted yaml R v 0 (sint (vsize v)) (document @ ''['');
            Some (document @ '']'')
          }
      | ObjectV m \<Rightarrow>
          do {
            document \<leftarrow> fast_members quoted yaml R v (map fst m) True (document @ ''{'');
            Some (document @ ''}'')
          }
      | _ \<Rightarrow> map_option (\<lambda>text. document @ text) (scalar_text R quoted v))"
| "fast_elements quoted yaml R v index size' document =
     (if index < size' then
        do {
          r \<leftarrow> find_index (word_of_int index) v;
          document \<leftarrow> fast_value quoted yaml R (or_null r) (if index > 0 then document @ '','' else document);
          fast_elements quoted yaml R v (index + 1) size' document
        }
      else Some document)"
| "fast_members quoted yaml R v names first document =
     (case names of
        [] \<Rightarrow> Some document
      | name # names \<Rightarrow>
          do {
            r \<leftarrow> find_member name v;
            document \<leftarrow> fast_value quoted yaml R (or_null r)
              ((if first then document else document @ '','') @ quoted name @ (if yaml then '': '' else '':''));
            fast_members quoted yaml R v names False document
          })"
  by pat_completeness auto
termination
proof (relation "measures
    [\<lambda>x. case x of Inl (_, _, _, v, _) \<Rightarrow> container_rank v | Inr (Inl (_, _, _, v, _)) \<Rightarrow> size v
       | Inr (Inr (_, _, _, v, _)) \<Rightarrow> size v,
     \<lambda>x. case x of Inl _ \<Rightarrow> 1 | Inr (Inl (_, _, _, _, i, n, _)) \<Rightarrow> 0 | Inr (Inr (_, _, _, _, names, _)) \<Rightarrow> 0,
     \<lambda>x. case x of Inl _ \<Rightarrow> 0 | Inr (Inl (_, _, _, _, i, n, _)) \<Rightarrow> nat (n - i)
       | Inr (Inr (_, _, _, _, names, _)) \<Rightarrow> length names]", goal_cases)
  case (2 quoted yaml R v document m)
  then show ?case by (simp add: container_rank_def)
next
  case (3 quoted yaml R v document m)
  then show ?case by (simp add: container_rank_def)
next
  case (4 quoted yaml R v index size' document r)
  then show ?case by (simp add: find_index_rank)
next
  case (6 quoted yaml R v names first document name names' r)
  then show ?case by (simp add: find_member_rank)
qed auto

declare fast_value.simps [simp del] fast_elements.simps [simp del] fast_members.simps [simp del]

definition FastWriter_writeValue :: "bool \<Rightarrow> 'r real_ops \<Rightarrow> 'r Value \<Rightarrow> string \<Rightarrow> string option" where
  "FastWriter_writeValue = fast_value valueToQuotedString"

definition FastWriter_writeValueSimple :: "bool \<Rightarrow> 'r real_ops \<Rightarrow> 'r Value \<Rightarrow> string \<Rightarrow> string option" where
  "FastWriter_writeValueSimple = fast_value valueToQuotedStringSimple"

definition FastWriter_write :: "bool \<Rightarrow> 'r real_ops \<Rightarrow> 'r Value \<Rightarrow> string option" where
  "FastWriter_write yaml R root = map_option (\<lambda>document. document @ [CHR 0x0A]) (FastWriter_writeValue yaml R root '''')"

section \<open>The styled writers\<close>

datatype writer = StyledWriter | SimpleWriter | StyledStreamWriter string

record wstate =
  document :: string
  indentString :: string
  childValues :: "string list"
  addChildValues :: bool

definition rightMargin :: int where "rightMargin = 74"
definition indentSize :: nat where "indentSize = 3"

definition emit :: "string \<Rightarrow> wstate \<Rightarrow> wstate" where
  "emit text st = st\<lparr>document := document st @ text\<rparr>"

definition pushValue :: "string \<Rightarrow> wstate \<Rightarrow> wstate" where
  "pushValue text st =
     (if addChildValues st then st\<lparr>childValues := childValues st @ [text]\<rparr> else emit text st)"

text \<open>\<open>writeIndent\<close> of the two classes; \<open>writeSimple\<close> does not indent.\<close>

definition Styled_writeIndent :: "wstate \<Rightarrow> wstate" where
  "Styled_writeIndent st =
     (if document st \<noteq> [] \<and> last (document st) = CHR '' '' then st
      else
        emit (indentString st)
          (if document st \<noteq> [] \<and> last (document st) \<noteq> CHR 0x0A then emit [CHR 0x0A] st else st))"

definition Stream_writeIndent :: "wstate \<Rightarrow> wstate" where
  "Stream_writeIndent st = emit (CHR 0x0A # indentString st) st"

fun writeIndent :: "writer \<Rightarrow> wstate \<Rightarrow> wstate" where
  "writeIndent StyledWriter st = Styled_writeIndent st"
| "writeIndent SimpleWriter st = st"
| "writeIndent (StyledStreamWriter _) st = Stream_writeIndent st"

definition writeWithIndent :: "writer \<Rightarrow> string \<Rightarrow> wstate \<Rightarrow> wstate" where
  "writeWithIndent k text st = emit text (writeIndent k st)"

fun indentation :: "writer \<Rightarrow> string" where
  "indentation StyledWriter = replicate indentSize (CHR '' '')"
| "indentation SimpleWriter = ''''"
| "indentation (StyledStreamWriter text) = text"

definition indent :: "writer \<Rightarrow> wstate \<Rightarrow> wstate" where
  "indent k st = st\<lparr>indentString := indentString st @ indentation k\<rparr>"

definition unindent :: "writer \<Rightarrow> wstate \<Rightarrow> wstate option" where
  "unindent k st =
     (if length (indentation k) \<le> length (indentString st)
      then Some (st\<lparr>indentString := take (length (indentString st) - length (indentation k)) (indentString st)\<rparr>)
      else None)"

fun normalizeEOL :: "string \<Rightarrow> string" where
  "normalizeEOL [] = []"
| "normalizeEOL (c # text) =
     (if c = CHR 0x0D then
        CHR 0x0A # (case text of [] \<Rightarrow> [] | d # text' \<Rightarrow> if d = CHR 0x0A then normalizeEOL text' else normalizeEOL text)
      else c # normalizeEOL text)"

fun normalizeEOLSimple :: "string \<Rightarrow> string" where
  "normalizeEOLSimple [] = []"
| "normalizeEOLSimple (c # text) =
     (if c = CHR 0x0D then
        (case text of [] \<Rightarrow> [] | d # text' \<Rightarrow> if d = CHR 0x0A then normalizeEOLSimple text' else normalizeEOLSimple text)
      else c # normalizeEOLSimple text)"

definition writeCommentBeforeValue :: "writer \<Rightarrow> 'r Value \<Rightarrow> wstate \<Rightarrow> wstate" where
  "writeCommentBeforeValue k v st =
     (if \<not> hasComment commentBefore v then st
      else emit (normalizeEOL (getComment commentBefore v) @ (if k = SimpleWriter then [] else [CHR 0x0A])) st)"

definition writeCommentAfterValueOnSameLine :: "writer \<Rightarrow> 'r Value \<Rightarrow> wstate \<Rightarrow> wstate" where
  "writeCommentAfterValueOnSameLine k v st =
     (let st = (if hasComment commentAfterOnSameLine v
                then emit (CHR '' '' # normalizeEOL (getComment commentAfterOnSameLine v)) st else st) in
      if hasComment commentAfter v then
        (if k = SimpleWriter then emit (normalizeEOL (getComment commentAfter v)) st
         else emit (CHR 0x0A # normalizeEOL (getComment commentAfter v) @ [CHR 0x0A]) st)
      else st)"

definition hasCommentForValue :: "'r Value \<Rightarrow> bool" where
  "hasCommentForValue v \<longleftrightarrow>
     hasComment commentBefore v \<or> hasComment commentAfterOnSameLine v \<or> hasComment commentAfter v"

text \<open>The texts in which \<open>writeSimple\<close> differs.\<close>

definition colon :: "writer \<Rightarrow> string" where "colon k = (if k = SimpleWriter then '':'' else '' : '')"
definition open_array :: "writer \<Rightarrow> string" where "open_array k = (if k = SimpleWriter then ''['' else ''[ '')"
definition close_array :: "writer \<Rightarrow> string" where "close_array k = (if k = SimpleWriter then '']'' else '' ]'')"
definition comma :: "writer \<Rightarrow> string" where "comma k = (if k = SimpleWriter then '','' else '', '')"

definition quoted_by :: "writer \<Rightarrow> string \<Rightarrow> string" where
  "quoted_by k = (if k = SimpleWriter then valueToQuotedStringSimple else valueToQuotedString)"

text \<open>\<open>isMultineArray\<close> is shared by \<open>write\<close> and \<open>writeSimple\<close> and calls the \<open>writeValue\<close> of its class.\<close>

fun own_writer :: "writer \<Rightarrow> writer" where
  "own_writer SimpleWriter = StyledWriter"
| "own_writer k = k"

text \<open>The first loop of \<open>isMultineArray\<close>: an element that is a container with elements.\<close>

function large_child :: "'r Value \<Rightarrow> int \<Rightarrow> int \<Rightarrow> bool \<Rightarrow> bool option" where
  "large_child v index size' isMultiLine =
     (if index < size' \<and> \<not> isMultiLine then
        do {
          r \<leftarrow> find_index (word_of_int index) v;
          large_child v (index + 1) size'
            (isMultiLine \<or> ((isArray (or_null r) \<or> isObject (or_null r)) \<and> vsize (or_null r) > 0))
        }
      else Some isMultiLine)"
  by pat_completeness auto
termination
  by (relation "measure (\<lambda>(_, index, size', _). nat (size' - index))") auto

declare large_child.simps [simp del]

definition single_line :: "writer \<Rightarrow> string list \<Rightarrow> string" where
  "single_line k texts =
     open_array k
     @ (case texts of [] \<Rightarrow> [] | text # texts \<Rightarrow> text @ concat (map (\<lambda>text. comma k @ text) texts))
     @ close_array k"

function writeValue :: "writer \<Rightarrow> 'r real_ops \<Rightarrow> 'r Value \<Rightarrow> wstate \<Rightarrow> wstate option"
  and write_members :: "writer \<Rightarrow> 'r real_ops \<Rightarrow> 'r Value \<Rightarrow> string list \<Rightarrow> wstate \<Rightarrow> wstate option"
  and writeArrayValue :: "writer \<Rightarrow> 'r real_ops \<Rightarrow> 'r Value \<Rightarrow> wstate \<Rightarrow> wstate option"
  and write_elements :: "writer \<Rightarrow> 'r real_ops \<Rightarrow> 'r Value \<Rightarrow> bool \<Rightarrow> nat \<Rightarrow> nat \<Rightarrow> wstate \<Rightarrow> wstate option"
  and isMultineArray :: "writer \<Rightarrow> 'r real_ops \<Rightarrow> 'r Value \<Rightarrow> wstate \<Rightarrow> (bool \<times> wstate) option"
  and child_lines ::
    "writer \<Rightarrow> 'r real_ops \<Rightarrow> 'r Value \<Rightarrow> int \<Rightarrow> int \<Rightarrow> int \<Rightarrow> bool \<Rightarrow> wstate \<Rightarrow> (int \<times> bool \<times> wstate) option" where
  "writeValue k R v st =
     (case vdata v of
        ArrayV m \<Rightarrow> writeArrayValue k R v st
      | ObjectV m \<Rightarrow>
          if m = [] then Some (pushValue ''{}'' st)
          else
            do {
              st \<leftarrow> write_members k R v (map fst m) (indent k (writeWithIndent k ''{'' st));
              st \<leftarrow> unindent k st;
              Some (writeWithIndent k ''}'' st)
            }
      | _ \<Rightarrow> map_option (\<lambda>text. pushValue text st) (scalar_text R (quoted_by k) v))"
| "write_members k R v names st =
     (case names of
        [] \<Rightarrow> Some st
      | name # names \<Rightarrow>
          do {
            r \<leftarrow> find_member name v;
            st \<leftarrow> writeValue k R (or_null r)
              (emit (colon k) (writeWithIndent k (quoted_by k name) (writeCommentBeforeValue k (or_null r) st)));
            (if names = [] then Some (writeCommentAfterValueOnSameLine k (or_null r) st)
             else write_members k R v names (writeCommentAfterValueOnSameLine k (or_null r) (emit '','' st)))
          })"
| "writeArrayValue k R v st =
     (if vsize v = 0 then Some (pushValue ''[]'' st)
      else
        do {
          (isArrayMultiLine, st) \<leftarrow> isMultineArray k R v st;
          (if isArrayMultiLine then
             do {
               st \<leftarrow> write_elements k R v (childValues st \<noteq> []) 0 (unat (vsize v)) (indent k (writeWithIndent k ''['' st));
               st \<leftarrow> unindent k st;
               Some (writeWithIndent k '']'' st)
             }
           else if length (childValues st) \<noteq> unat (vsize v) then None
           else Some (emit (single_line k (childValues st)) st))
        })"
| "write_elements k R v hasChildValue index size' st =
     (if index < size' then
        do {
          r \<leftarrow> find_index (of_nat index) v;
          st \<leftarrow> Some (writeCommentBeforeValue k (or_null r) st);
          st \<leftarrow> (if hasChildValue then
                    (if index < length (childValues st) then Some (writeWithIndent k (childValues st ! index) st) else None)
                  else writeValue k R (or_null r) (writeIndent k st));
          (if index + 1 = size' then Some (writeCommentAfterValueOnSameLine k (or_null r) st)
           else
             write_elements k R v hasChildValue (index + 1) size'
               (writeCommentAfterValueOnSameLine k (or_null r) (emit '','' st)))
        }
      else Some st)"
| "isMultineArray k R v st =
     (let size' = sint (vsize v) in
      if \<not> (minInt \<le> size' * 3 \<and> size' * 3 \<le> maxInt) then None
      else
        do {
          isMultiLine \<leftarrow> large_child v 0 size' (size' * 3 \<ge> rightMargin);
          (if \<not> isMultiLine then
             do {
               (lineLength, isMultiLine, st) \<leftarrow>
                 child_lines k R v 0 size' (4 + (size' - 1) * 2) isMultiLine (st\<lparr>childValues := [], addChildValues := True\<rparr>);
               Some (isMultiLine \<or> lineLength \<ge> rightMargin, st\<lparr>addChildValues := False\<rparr>)
             }
           else Some (isMultiLine, st\<lparr>childValues := []\<rparr>))
        })"
| "child_lines k R v index size' lineLength isMultiLine st =
     (if index < size' \<and> \<not> isMultiLine then
        do {
          r \<leftarrow> find_index (word_of_int index) v;
          st \<leftarrow> writeValue (own_writer k) R (or_null r) st;
          (if nat index < length (childValues st) then
             child_lines k R v (index + 1) size' (lineLength + int (length (childValues st ! nat index)))
               (isMultiLine \<and> hasCommentForValue (or_null r)) st
           else None)
        }
      else Some (lineLength, isMultiLine, st))"
  by pat_completeness auto

termination
proof (relation "measures
    [\<lambda>x. case x of
        Inl (Inl (_, _, v, _)) \<Rightarrow> container_rank v
      | Inl (Inr (Inl (_, _, v, _))) \<Rightarrow> size v
      | Inl (Inr (Inr (_, _, v, _))) \<Rightarrow> size v
      | Inr (Inl (_, _, v, _)) \<Rightarrow> size v
      | Inr (Inr (Inl (_, _, v, _))) \<Rightarrow> size v
      | Inr (Inr (Inr (_, _, v, _))) \<Rightarrow> size v,
     \<lambda>x. case x of
        Inl (Inl _) \<Rightarrow> 3
      | Inl (Inr (Inl _)) \<Rightarrow> 0
      | Inl (Inr (Inr _)) \<Rightarrow> 2
      | Inr (Inl _) \<Rightarrow> 0
      | Inr (Inr (Inl _)) \<Rightarrow> 1
      | Inr (Inr (Inr _)) \<Rightarrow> 0,
     \<lambda>x. case x of
        Inl (Inl _) \<Rightarrow> 0
      | Inl (Inr (Inl (_, _, _, names, _))) \<Rightarrow> length names
      | Inl (Inr (Inr _)) \<Rightarrow> 0
      | Inr (Inl (_, _, _, _, i, n, _)) \<Rightarrow> n - i
      | Inr (Inr (Inl _)) \<Rightarrow> 0
      | Inr (Inr (Inr (_, _, _, i, n, _))) \<Rightarrow> nat (n - i)]", goal_cases)
  case 2
  then show ?case by (simp add: container_rank_def)
next
  case 3
  then show ?case by (simp add: container_rank_def)
next
  case 4
  then show ?case by (simp add: find_member_rank)
next
  case 8
  then show ?case by (simp add: find_index_rank)
next
  case 11
  then show ?case by (simp add: find_index_rank)
qed auto

declare writeValue.simps [simp del] write_members.simps [simp del] writeArrayValue.simps [simp del]
  write_elements.simps [simp del] isMultineArray.simps [simp del] child_lines.simps [simp del]

text \<open>The functions of the three writers by their names.\<close>

definition StyledWriter_writeValue :: "'r real_ops \<Rightarrow> 'r Value \<Rightarrow> wstate \<Rightarrow> wstate option" where
  "StyledWriter_writeValue = writeValue StyledWriter"

definition StyledWriter_writeValueSimple :: "'r real_ops \<Rightarrow> 'r Value \<Rightarrow> wstate \<Rightarrow> wstate option" where
  "StyledWriter_writeValueSimple = writeValue SimpleWriter"

definition StyledWriter_writeArrayValueSimple :: "'r real_ops \<Rightarrow> 'r Value \<Rightarrow> wstate \<Rightarrow> wstate option" where
  "StyledWriter_writeArrayValueSimple = writeArrayValue SimpleWriter"

definition Stream_writeValue :: "string \<Rightarrow> 'r real_ops \<Rightarrow> 'r Value \<Rightarrow> wstate \<Rightarrow> wstate option" where
  "Stream_writeValue text = writeValue (StyledStreamWriter text)"

definition Stream_writeArrayValue :: "string \<Rightarrow> 'r real_ops \<Rightarrow> 'r Value \<Rightarrow> wstate \<Rightarrow> wstate option" where
  "Stream_writeArrayValue text = writeArrayValue (StyledStreamWriter text)"

definition Stream_isMultineArray :: "string \<Rightarrow> 'r real_ops \<Rightarrow> 'r Value \<Rightarrow> wstate \<Rightarrow> (bool \<times> wstate) option" where
  "Stream_isMultineArray text = isMultineArray (StyledStreamWriter text)"

definition Stream_writeWithIndent :: "string \<Rightarrow> string \<Rightarrow> wstate \<Rightarrow> wstate" where
  "Stream_writeWithIndent text = writeWithIndent (StyledStreamWriter text)"

definition Stream_indent :: "string \<Rightarrow> wstate \<Rightarrow> wstate" where
  "Stream_indent text = indent (StyledStreamWriter text)"

definition Stream_unindent :: "string \<Rightarrow> wstate \<Rightarrow> wstate option" where
  "Stream_unindent text = unindent (StyledStreamWriter text)"

definition Stream_writeCommentBeforeValue :: "string \<Rightarrow> 'r Value \<Rightarrow> wstate \<Rightarrow> wstate" where
  "Stream_writeCommentBeforeValue text = writeCommentBeforeValue (StyledStreamWriter text)"

definition Stream_writeCommentAfterValueOnSameLine :: "string \<Rightarrow> 'r Value \<Rightarrow> wstate \<Rightarrow> wstate" where
  "Stream_writeCommentAfterValueOnSameLine text = writeCommentAfterValueOnSameLine (StyledStreamWriter text)"

lemmas writer_names = StyledWriter_writeValue_def StyledWriter_writeValueSimple_def
  StyledWriter_writeArrayValueSimple_def Stream_writeValue_def Stream_writeArrayValue_def Stream_isMultineArray_def
  Stream_writeWithIndent_def Stream_indent_def Stream_unindent_def Stream_writeCommentBeforeValue_def
  Stream_writeCommentAfterValueOnSameLine_def

definition start_writing :: "string list \<Rightarrow> wstate" where
  "start_writing values = \<lparr>document = '''', indentString = '''', childValues = values, addChildValues = False\<rparr>"

text \<open>\<open>write\<close>; the texts of an earlier array that the object still holds are \<open>values\<close>.\<close>

definition StyledWriter_write :: "'r real_ops \<Rightarrow> string list \<Rightarrow> 'r Value \<Rightarrow> string option" where
  "StyledWriter_write R values root =
     do {
       st \<leftarrow> StyledWriter_writeValue R root (writeCommentBeforeValue StyledWriter root (start_writing values));
       Some (document (writeCommentAfterValueOnSameLine StyledWriter root st) @ [CHR 0x0A])
     }"

definition StyledWriter_writeSimple :: "'r real_ops \<Rightarrow> string list \<Rightarrow> 'r Value \<Rightarrow> string option" where
  "StyledWriter_writeSimple R values root =
     do {
       st \<leftarrow> StyledWriter_writeValueSimple R root (writeCommentBeforeValue SimpleWriter root (start_writing values));
       Some (document (writeCommentAfterValueOnSameLine SimpleWriter root st))
     }"

definition StyledStreamWriter_write :: "'r real_ops \<Rightarrow> string \<Rightarrow> string list \<Rightarrow> 'r Value \<Rightarrow> string option" where
  "StyledStreamWriter_write R text values root =
     do {
       st \<leftarrow> Stream_writeValue text R root
         (Stream_writeCommentBeforeValue text root (start_writing values));
       Some (document (Stream_writeCommentAfterValueOnSameLine text root st) @ [CHR 0x0A])
     }"

definition toStyledString :: "'r real_ops \<Rightarrow> 'r Value \<Rightarrow> string option" where
  "toStyledString R v = StyledWriter_write R [] v"

definition toSimpleString :: "'r real_ops \<Rightarrow> 'r Value \<Rightarrow> string option" where
  "toSimpleString R v = StyledWriter_writeSimple R [] v"

text \<open>\<open>operator<<\<close>, whose writer indents by a tabulator.\<close>

definition stream_out :: "'r real_ops \<Rightarrow> 'r Value \<Rightarrow> string option" where
  "stream_out R root = StyledStreamWriter_write R [CHR 0x09] [] root"

end
