(* ===== verification/Json_Reader.thy ===== *)
theory Json_Reader
  imports Json_Writer
begin

unbundle bit_operations_syntax

text \<open>
  Reading JSON text (include/json/json/reader.h, source/json/src/json_reader.cpp), for a document that is a
  \<open>std::string\<close>. A location in the document is the text from there to its end; the character read at the end
  is the terminating zero. The nodes under construction are one stack of pointers, each to an element of
  the one below it: the path of the top one.

  A dereferenced pointer to no value, a write outside a buffer, a failed assertion and the exception of
  \<open>setComment\<close> are \<^term>\<open>None\<close>, and so is a count of nested calls that is used up.
\<close>

section \<open>State\<close>

record Features =
  allowComments :: bool
  strictRoot :: bool

definition Features_all :: Features where
  "Features_all = \<lparr>allowComments = True, strictRoot = False\<rparr>"

definition Features_strictMode :: Features where
  "Features_strictMode = Features_all\<lparr>allowComments := False, strictRoot := True\<rparr>"

datatype TokenType =
    tokenEndOfStream | tokenObjectBegin | tokenObjectEnd | tokenArrayBegin | tokenArrayEnd | tokenString
  | tokenNumber | tokenTrue | tokenFalse | tokenNull | tokenArraySeparator | tokenMemberSeparator
  | tokenComment | tokenError

type_synonym location = string

record Token =
  token_type :: TokenType
  token_start :: location
  token_end :: location

record ErrorInfo =
  error_token :: Token
  error_message :: string
  error_extra :: "location option"

record 'r reader =
  nodes :: path
  root_value :: "'r Value"
  errors :: "ErrorInfo list"
  begin_doc :: location
  cur :: location
  lastValueEnd :: "location option"
  lastValue :: "path option"
  commentsBefore :: string
  features :: Features
  collectComments :: bool

text \<open>The text between two locations.\<close>

definition between :: "location \<Rightarrow> location \<Rightarrow> string" where
  "between start stop = take (length start - length stop) start"

definition token_text :: "Token \<Rightarrow> string" where
  "token_text token = between (token_start token) (token_end token)"

definition peek :: "location \<Rightarrow> char" where
  "peek l = (case l of [] \<Rightarrow> CHR 0x00 | c # _ \<Rightarrow> c)"

definition getNextChar :: "'r reader \<Rightarrow> char \<times> 'r reader" where
  "getNextChar s = (case cur s of [] \<Rightarrow> (CHR 0x00, s) | c # l \<Rightarrow> (c, s\<lparr>cur := l\<rparr>))"

definition addError :: "string \<Rightarrow> Token \<Rightarrow> location option \<Rightarrow> 'r reader \<Rightarrow> bool \<times> 'r reader" where
  "addError message token extra s =
     (False, s\<lparr>errors := errors s @ [\<lparr>error_token = token, error_message = message, error_extra = extra\<rparr>]\<rparr>)"

text \<open>An operation on \<open>currentValue()\<close>.\<close>

definition at_current :: "('r Value \<Rightarrow> 'r Value option) \<Rightarrow> 'r reader \<Rightarrow> 'r reader option" where
  "at_current f s =
     do {
       v \<leftarrow> get_at (nodes s) (root_value s);
       v' \<leftarrow> f v;
       Some (s\<lparr>root_value := upd_at (nodes s) (\<lambda>_. v') (root_value s)\<rparr>)
     }"

definition set_current :: "'r Value \<Rightarrow> 'r reader \<Rightarrow> 'r reader option" where
  "set_current w = at_current (\<lambda>v. Some (assign v w))"

definition commented :: "string \<Rightarrow> CommentPlacement \<Rightarrow> 'r Value \<Rightarrow> 'r Value option" where
  "commented comment placement v = (case setComment comment placement v of Inl _ \<Rightarrow> None | Inr v' \<Rightarrow> Some v')"

section \<open>Tokens\<close>

definition containsNewLine :: "location \<Rightarrow> location \<Rightarrow> bool" where
  "containsNewLine begin stop \<longleftrightarrow> list_ex (\<lambda>c. c = CHR 0x0A \<or> c = CHR 0x0D) (between begin stop)"

definition is_space :: "char \<Rightarrow> bool" where
  "is_space c \<longleftrightarrow> c = CHR '' '' \<or> c = CHR 0x09 \<or> c = CHR 0x0D \<or> c = CHR 0x0A"

definition skipSpaces :: "'r reader \<Rightarrow> 'r reader" where
  "skipSpaces s = s\<lparr>cur := dropWhile is_space (cur s)\<rparr>"

definition match :: "string \<Rightarrow> 'r reader \<Rightarrow> bool \<times> 'r reader" where
  "match pattern s =
     (if take (length pattern) (cur s) = pattern then (True, s\<lparr>cur := drop (length pattern) (cur s)\<rparr>) else (False, s))"

fun c_style_end :: "location \<Rightarrow> location" where
  "c_style_end [] = []"
| "c_style_end (c # l) = (if c = CHR ''*'' \<and> peek l = CHR ''/'' then l else c_style_end l)"

definition readCStyleComment :: "'r reader \<Rightarrow> bool \<times> 'r reader" where
  "readCStyleComment s = (let (c, s) = getNextChar (s\<lparr>cur := c_style_end (cur s)\<rparr>) in (c = CHR ''/'', s))"

fun cpp_style_end :: "location \<Rightarrow> location" where
  "cpp_style_end [] = []"
| "cpp_style_end (c # l) = (if c = CHR 0x0D \<or> c = CHR 0x0A then l else cpp_style_end l)"

definition readCppStyleComment :: "'r reader \<Rightarrow> bool \<times> 'r reader" where
  "readCppStyleComment s = (True, s\<lparr>cur := cpp_style_end (cur s)\<rparr>)"

definition addComment :: "location \<Rightarrow> location \<Rightarrow> CommentPlacement \<Rightarrow> 'r reader \<Rightarrow> 'r reader option" where
  "addComment begin stop placement s =
     (if \<not> collectComments s then None
      else if placement = commentAfterOnSameLine then
        do {
          p \<leftarrow> lastValue s;
          v \<leftarrow> get_at p (root_value s);
          v' \<leftarrow> commented (between begin stop) placement v;
          Some (s\<lparr>root_value := upd_at p (\<lambda>_. v') (root_value s)\<rparr>)
        }
      else
        Some (s\<lparr>commentsBefore :=
          (if commentsBefore s \<noteq> [] then commentsBefore s @ [CHR 0x0A] else commentsBefore s) @ between begin stop\<rparr>))"

definition readComment :: "'r reader \<Rightarrow> (bool \<times> 'r reader) option" where
  "readComment s =
     (let commentBegin = CHR ''/'' # cur s;
          (c, s) = getNextChar s;
          (successful, s) =
            (if c = CHR ''*'' then readCStyleComment s else if c = CHR ''/'' then readCppStyleComment s else (False, s)) in
      if \<not> successful then Some (False, s)
      else if collectComments s then
        (let placement =
               (case lastValueEnd s of
                  None \<Rightarrow> commentBefore
                | Some l \<Rightarrow>
                    if \<not> containsNewLine l commentBegin \<and> (c \<noteq> CHR ''*'' \<or> \<not> containsNewLine commentBegin (cur s))
                    then commentAfterOnSameLine else commentBefore) in
         map_option (\<lambda>s. (True, s)) (addComment commentBegin (cur s) placement s))
      else Some (True, s))"

definition number_char :: "char \<Rightarrow> bool" where
  "number_char c \<longleftrightarrow> is_digit c \<or> c \<in> {CHR ''.'', CHR ''e'', CHR ''E'', CHR ''+'', CHR ''-''}"

definition readNumber :: "'r reader \<Rightarrow> 'r reader" where
  "readNumber s = s\<lparr>cur := dropWhile number_char (cur s)\<rparr>"

text \<open>\<open>readString\<close> returns whether the last character read was a quote.\<close>

fun string_end :: "char \<Rightarrow> location \<Rightarrow> bool \<times> location" where
  "string_end c [] = (c = CHR 0x22, [])"
| "string_end c (d # l) =
     (if d = CHR 0x5C then (case l of [] \<Rightarrow> (False, []) | _ # l' \<Rightarrow> string_end d l')
      else if d = CHR 0x22 then (True, l)
      else string_end d l)"

definition readString :: "'r reader \<Rightarrow> bool \<times> 'r reader" where
  "readString s = (let (ok, l) = string_end (CHR 0x00) (cur s) in (ok, s\<lparr>cur := l\<rparr>))"

text \<open>The switch of \<open>readToken\<close> on the first character.\<close>

definition scan_token :: "char \<Rightarrow> 'r reader \<Rightarrow> (TokenType \<times> bool \<times> 'r reader) option" where
  "scan_token c s =
     (if c = CHR ''{'' then Some (tokenObjectBegin, True, s)
      else if c = CHR ''}'' then Some (tokenObjectEnd, True, s)
      else if c = CHR ''['' then Some (tokenArrayBegin, True, s)
      else if c = CHR '']'' then Some (tokenArrayEnd, True, s)
      else if c = CHR 0x22 then Some (tokenString, readString s)
      else if c = CHR ''/'' then map_option (\<lambda>r. (tokenComment, r)) (readComment s)
      else if is_digit c \<or> c = CHR ''-'' then Some (tokenNumber, True, readNumber s)
      else if c = CHR ''t'' then Some (tokenTrue, match ''rue'' s)
      else if c = CHR ''f'' then Some (tokenFalse, match ''alse'' s)
      else if c = CHR ''n'' then Some (tokenNull, match ''ull'' s)
      else if c = CHR '','' then Some (tokenArraySeparator, True, s)
      else if c = CHR '':'' then Some (tokenMemberSeparator, True, s)
      else if c = CHR 0x00 then Some (tokenEndOfStream, True, s)
      else Some (tokenError, False, s))"

definition readToken :: "'r reader \<Rightarrow> (Token \<times> 'r reader) option" where
  "readToken s =
     (let s = skipSpaces s; start = cur s; (c, s) = getNextChar s in
      do {
        (type, ok, s) \<leftarrow> scan_token c s;
        Some (\<lparr>token_type = (if ok then type else tokenError), token_start = start, token_end = cur s\<rparr>, s)
      })"

text \<open>A token takes at least one character, except at the end of the document.\<close>

lemma c_style_end_length: "length (c_style_end l) \<le> length l"
  by (induction l) auto

lemma cpp_style_end_length: "length (cpp_style_end l) \<le> length l"
  by (induction l) auto

lemma string_end_length: "length (snd (string_end c l)) \<le> length l"
proof (induction c l rule: string_end.induct)
  case (2 c d l)
  show ?case
  proof (cases l)
    case (Cons e l')
    show ?thesis
      using 2(1) [OF _ Cons] 2(2) Cons by (cases "d = CHR 0x5C"; cases "d = CHR 0x22") (auto simp: le_Suc_eq)
  qed (use 2 in \<open>auto\<close>)
qed simp

lemma getNextChar_length: "length (cur (snd (getNextChar s))) \<le> length (cur s)"
  by (simp add: getNextChar_def split: list.splits)

lemma addComment_cur: "addComment b e pl s = Some s' \<Longrightarrow> cur s' = cur s"
  by (auto simp: addComment_def split: if_splits bind_splits)

lemma readComment_length:
  assumes "readComment s = Some (ok, s')"
  shows "length (cur s') \<le> length (cur s)"
proof -
  have c: "length (cur (snd (readCStyleComment s))) \<le> length (cur s)" for s :: "'a reader"
    using getNextChar_length [of "s\<lparr>cur := c_style_end (cur s)\<rparr>"] c_style_end_length [of "cur s"]
    by (auto simp: readCStyleComment_def split: prod.splits)
  have cpp: "length (cur (snd (readCppStyleComment s))) \<le> length (cur s)" for s :: "'a reader"
    using cpp_style_end_length [of "cur s"] by (simp add: readCppStyleComment_def)
  obtain ch s1 where g: "getNextChar s = (ch, s1)" by fastforce
  obtain ok2 s2 where r: "(if ch = CHR ''*'' then readCStyleComment s1
      else if ch = CHR ''/'' then readCppStyleComment s1 else (False, s1)) = (ok2, s2)" by fastforce
  have "length (cur s2) \<le> length (cur s1)"
    using r c [of s1] cpp [of s1] by (auto split: if_splits)
  moreover have "length (cur s1) \<le> length (cur s)" using getNextChar_length [of s] g by simp
  moreover have "cur s' = cur s2"
    using assms g r by (auto simp: readComment_def Let_def addComment_cur split: if_splits)
  ultimately show ?thesis by simp
qed

lemma scan_token_length:
  assumes "scan_token c s = Some (type, ok, s')"
  shows "length (cur s') \<le> length (cur s)"
proof -
  have 1: "length (cur (snd (readString s))) \<le> length (cur s)"
    using string_end_length [of "CHR 0x00" "cur s"] by (auto simp: readString_def split: prod.splits)
  have 2: "length (cur (readNumber s)) \<le> length (cur s)"
    by (simp add: readNumber_def length_dropWhile_le)
  have 3: "length (cur (snd (match p s))) \<le> length (cur s)" for p
    by (simp add: match_def)
  show ?thesis
    using assms 1 2 3 [of "''rue''"] 3 [of "''alse''"] 3 [of "''ull''"] readComment_length [of s]
    by (auto simp: scan_token_def split: if_splits)
qed

lemma readToken_length:
  assumes "readToken s = Some (token, s')"
  shows "length (cur s') \<le> length (cur s)"
    and "token_type token \<noteq> tokenEndOfStream \<Longrightarrow> length (cur s') < length (cur s)"
proof -
  define l where "l = dropWhile is_space (cur s)"
  have l: "length l \<le> length (cur s)" by (simp add: l_def length_dropWhile_le)
  have *: "length (cur s') \<le> length (cur s) \<and> (token_type token \<noteq> tokenEndOfStream \<longrightarrow> length (cur s') < length (cur s))"
  proof (cases l)
    case Nil
    then have "token_type token = tokenEndOfStream" "cur s' = []"
      using assms by (auto simp: readToken_def skipSpaces_def getNextChar_def Let_def scan_token_def is_digit_def l_def [symmetric])
    then show ?thesis by simp
  next
    case (Cons c t)
    have eq: "getNextChar (skipSpaces s) = (c, s\<lparr>cur := t\<rparr>)"
      using Cons by (simp add: getNextChar_def skipSpaces_def l_def)
    obtain type ok where sc: "scan_token c (s\<lparr>cur := t\<rparr>) = Some (type, ok, s')"
      using assms by (auto simp: readToken_def eq Let_def split: bind_splits)
    show ?thesis using scan_token_length [OF sc] Cons l by simp
  qed
  show "length (cur s') \<le> length (cur s)" using * by simp
  show "token_type token \<noteq> tokenEndOfStream \<Longrightarrow> length (cur s') < length (cur s)" using * by simp
qed

section \<open>Skipping\<close>

text \<open>\<open>readToken\<close> until it gives something else than a comment.\<close>

function next_token :: "'r reader \<Rightarrow> (Token \<times> 'r reader) option" where
  "next_token s =
     do {
       (token, s) \<leftarrow> readToken s;
       (if token_type token = tokenComment then next_token s else Some (token, s))
     }"
  by pat_completeness auto
termination
  by (relation "measure (\<lambda>s. length (cur s))") (auto intro: readToken_length(2))

declare next_token.simps [simp del]

definition skipCommentTokens :: "'r reader \<Rightarrow> (Token \<times> 'r reader) option" where
  "skipCommentTokens s = (if allowComments (features s) then next_token s else readToken s)"

text \<open>\<open>readToken\<close> until it gives the token that is waited for or the end of the document.\<close>

function skip_until :: "TokenType \<Rightarrow> 'r reader \<Rightarrow> 'r reader option" where
  "skip_until type s =
     do {
       (skip, s) \<leftarrow> readToken s;
       (if token_type skip = type \<or> token_type skip = tokenEndOfStream then Some s else skip_until type s)
     }"
  by pat_completeness auto
termination
  by (relation "measure (\<lambda>(_, s). length (cur s))") (auto intro: readToken_length(2))

declare skip_until.simps [simp del]

definition recoverFromError :: "TokenType \<Rightarrow> 'r reader \<Rightarrow> (bool \<times> 'r reader) option" where
  "recoverFromError type s =
     do {
       s' \<leftarrow> skip_until type s;
       Some (False, s'\<lparr>errors := take (length (errors s)) (errors s')\<rparr>)
     }"

definition addErrorAndRecover :: "string \<Rightarrow> Token \<Rightarrow> TokenType \<Rightarrow> 'r reader \<Rightarrow> (bool \<times> 'r reader) option" where
  "addErrorAndRecover message token type s = recoverFromError type (snd (addError message token None s))"

section \<open>Numbers and strings\<close>

definition apostrophe :: "string \<Rightarrow> string" where
  "apostrophe text = CHR 0x27 # text @ [CHR 0x27]"

definition decodeDouble :: "'r real_ops \<Rightarrow> Token \<Rightarrow> 'r reader \<Rightarrow> (bool \<times> 'r reader) option" where
  "decodeDouble R token s =
     (if length (token_text token) = 32 then None
      else
        case r_scan R (token_text token) of
          None \<Rightarrow> Some (addError (apostrophe (token_text token) @ '' is not a number.'') token None s)
        | Some x \<Rightarrow> map_option (\<lambda>s. (True, s)) (set_current (Value_double x) s))"

datatype number_result = NotANumber | TooLarge | Number "32 word"

fun number_loop :: "32 word \<Rightarrow> string \<Rightarrow> 32 word \<Rightarrow> number_result" where
  "number_loop threshold [] v = Number v"
| "number_loop threshold (c # text) v =
     (if \<not> is_digit c then NotANumber
      else if v \<ge> threshold then TooLarge
      else number_loop threshold text (v * 10 + digit_value c))"

definition double_text :: "string \<Rightarrow> bool" where
  "double_text text \<longleftrightarrow>
     list_ex (\<lambda>c. c \<in> {CHR ''.'', CHR ''e'', CHR ''E'', CHR ''+''}) text \<or> list_ex (\<lambda>c. c = CHR ''-'') (tl text)"

definition decodeNumber :: "'r real_ops \<Rightarrow> Token \<Rightarrow> 'r reader \<Rightarrow> (bool \<times> 'r reader) option" where
  "decodeNumber R token s =
     (let text = token_text token in
      if double_text text then decodeDouble R token s
      else
        (let isNegative = (peek text = CHR ''-'');
             threshold = (if isNegative then word_of_int (- minInt) else word_of_int maxUInt) div 10 in
         case number_loop threshold (if isNegative then tl text else text) 0 of
           NotANumber \<Rightarrow> Some (addError (apostrophe text @ '' is not a number.'') token None s)
         | TooLarge \<Rightarrow> decodeDouble R token s
         | Number v \<Rightarrow>
             map_option (\<lambda>s. (True, s))
               (set_current
                 (if isNegative then Value_Int (- v) else if v \<le> word_of_int maxInt then Value_Int v else Value_UInt v) s)))"

definition utf8_char :: "32 word \<Rightarrow> char" where
  "utf8_char w = char_of (unat w)"

definition codePointToUTF8 :: "32 word \<Rightarrow> string" where
  "codePointToUTF8 cp =
     (if cp \<le> 0x7F then [utf8_char cp]
      else if cp \<le> 0x7FF then
        [utf8_char (0xC0 OR (0x1F AND drop_bit 6 cp)), utf8_char (0x80 OR (0x3F AND cp))]
      else if cp \<le> 0xFFFF then
        [utf8_char (0xE0 OR (0xF AND drop_bit 12 cp)), utf8_char (0x80 OR (0x3F AND drop_bit 6 cp)),
         utf8_char (0x80 OR (0x3F AND cp))]
      else if cp \<le> 0x10FFFF then
        [utf8_char (0xF0 OR (0x7 AND drop_bit 18 cp)), utf8_char (0x80 OR (0x3F AND drop_bit 12 cp)),
         utf8_char (0x80 OR (0x3F AND drop_bit 6 cp)), utf8_char (0x80 OR (0x3F AND cp))]
      else [])"

definition hex_value :: "char \<Rightarrow> 32 word option" where
  "hex_value c =
     (if is_digit c then Some (digit_value c)
      else if CHR ''a'' \<le> c \<and> c \<le> CHR ''f'' then Some (of_nat (of_char c - of_char (CHR ''a'')) + 10)
      else if CHR ''A'' \<le> c \<and> c \<le> CHR ''F'' then Some (of_nat (of_char c - of_char (CHR ''A'')) + 10)
      else None)"

text \<open>The digits of an escape sequence: the code they give, or none, and the location after the last one read.\<close>

fun hex_loop :: "nat \<Rightarrow> location \<Rightarrow> 32 word \<Rightarrow> (32 word option \<times> location) option" where
  "hex_loop 0 l unicode = Some (Some unicode, l)"
| "hex_loop (Suc n) [] unicode = None"
| "hex_loop (Suc n) (c # l) unicode =
     (case hex_value c of None \<Rightarrow> Some (None, l) | Some d \<Rightarrow> hex_loop n l (unicode * 16 + d))"

text \<open>A code, or the error found and where.\<close>

type_synonym escape_result = "((string \<times> location) + (32 word \<times> location)) option"

definition decodeUnicodeEscapeSequence :: "location \<Rightarrow> location \<Rightarrow> escape_result" where
  "decodeUnicodeEscapeSequence l stop =
     (if int (length l) - int (length stop) < 4
      then Some (Inl (''Bad unicode escape sequence in string: four digits expected.'', l))
      else
        map_option
          (\<lambda>r. case r of
             (None, l') \<Rightarrow> Inl (''Bad unicode escape sequence in string: hexadecimal digit expected.'', l')
           | (Some unicode, l') \<Rightarrow> Inr (unicode, l'))
          (hex_loop 4 l 0))"

definition decodeUnicodeCodePoint :: "location \<Rightarrow> location \<Rightarrow> escape_result" where
  "decodeUnicodeCodePoint l stop =
     (case decodeUnicodeEscapeSequence l stop of
        None \<Rightarrow> None
      | Some (Inl e) \<Rightarrow> Some (Inl e)
      | Some (Inr (unicode, l)) \<Rightarrow>
          if 0xD800 \<le> unicode \<and> unicode \<le> 0xDBFF then
            (if int (length l) - int (length stop) < 6
             then Some (Inl (''additional six characters expected to parse unicode surrogate pair.'', l))
             else
               (let expecting = ''expecting another '' @ [CHR 0x5C]
                      @ ''u token to begin the second half of a unicode surrogate pair'' in
                if hd l \<noteq> CHR 0x5C then Some (Inl (expecting, tl l))
                else if hd (tl l) \<noteq> CHR ''u'' then Some (Inl (expecting, tl (tl l)))
                else
                  case decodeUnicodeEscapeSequence (tl (tl l)) stop of
                    None \<Rightarrow> None
                  | Some (Inl e) \<Rightarrow> Some (Inl e)
                  | Some (Inr (surrogatePair, l)) \<Rightarrow>
                      Some (Inr (0x10000 + push_bit 10 (unicode AND 0x3FF) + (surrogatePair AND 0x3FF), l))))
          else Some (Inr (unicode, l)))"

definition simple_escape :: "char \<Rightarrow> char option" where
  "simple_escape c =
     (if c = CHR 0x22 then Some (CHR 0x22)
      else if c = CHR ''/'' then Some (CHR ''/'')
      else if c = CHR 0x5C then Some (CHR 0x5C)
      else if c = CHR ''b'' then Some (CHR 0x08)
      else if c = CHR ''f'' then Some (CHR 0x0C)
      else if c = CHR ''n'' then Some (CHR 0x0A)
      else if c = CHR ''r'' then Some (CHR 0x0D)
      else if c = CHR ''t'' then Some (CHR 0x09)
      else None)"

lemma hex_loop_length: "hex_loop n l u = Some (r, l') \<Longrightarrow> length l' \<le> length l"
  by (induction n l u rule: hex_loop.induct) (auto split: option.splits)

lemma decodeUnicodeEscapeSequence_length:
  "decodeUnicodeEscapeSequence l stop = Some (Inr (u, l')) \<Longrightarrow> length l' \<le> length l"
  by (auto simp: decodeUnicodeEscapeSequence_def hex_loop_length split: if_splits option.splits)

lemma decodeUnicodeCodePoint_length:
  assumes "decodeUnicodeCodePoint l stop = Some (Inr (u, l'))"
  shows "length l' \<le> length l"
proof -
  obtain u1 l1 where 1: "decodeUnicodeEscapeSequence l stop = Some (Inr (u1, l1))"
    using assms by (auto simp: decodeUnicodeCodePoint_def split: option.splits sum.splits)
  have "length l' \<le> length l1"
    using assms
    by (fastforce simp: decodeUnicodeCodePoint_def 1 Let_def split: if_splits option.splits sum.splits
        dest: decodeUnicodeEscapeSequence_length)
  then show ?thesis using decodeUnicodeEscapeSequence_length [OF 1] by simp
qed

text \<open>
  The loop of \<open>decodeString\<close>, from the location after the opening quote to \<open>stop\<close>, the one of the closing quote:
  the decoded text, or the error found and where. Running past the end of the document is \<^term>\<open>None\<close>.
\<close>

function decode_loop :: "location \<Rightarrow> location \<Rightarrow> string \<Rightarrow> ((string \<times> location) + string) option" where
  "decode_loop l stop decoded =
     (if length l = length stop then Some (Inr decoded)
      else
        case l of
          [] \<Rightarrow> None
        | c # l \<Rightarrow>
            if c = CHR 0x22 then Some (Inr decoded)
            else if c = CHR 0x5C then
              (if length l = length stop then Some (Inl (''Empty escape sequence in string'', l))
               else
                 case l of
                   [] \<Rightarrow> None
                 | escape # l \<Rightarrow>
                     if escape = CHR ''u'' then
                       (case decodeUnicodeCodePoint l stop of
                          None \<Rightarrow> None
                        | Some (Inl e) \<Rightarrow> Some (Inl e)
                        | Some (Inr (unicode, l)) \<Rightarrow> decode_loop l stop (decoded @ codePointToUTF8 unicode))
                     else
                       (case simple_escape escape of
                          None \<Rightarrow> Some (Inl (''Bad escape sequence in string'', l))
                        | Some d \<Rightarrow> decode_loop l stop (decoded @ [d])))
            else decode_loop l stop (decoded @ [c]))"
  by pat_completeness auto
termination
proof (relation "measure (\<lambda>(l, _). length l)", goal_cases)
  case 2
  then show ?case by (auto dest: decodeUnicodeCodePoint_length)
qed auto

declare decode_loop.simps [simp del]

text \<open>\<open>decodeString\<close> into a text: whether it succeeded, the text and the state.\<close>

definition decodeString :: "Token \<Rightarrow> 'r reader \<Rightarrow> (bool \<times> string \<times> 'r reader) option" where
  "decodeString token s =
     (case decode_loop (tl (token_start token)) (CHR 0x22 # token_end token) [] of
        None \<Rightarrow> None
      | Some (Inl (message, l)) \<Rightarrow> (let (ok, s) = addError message token (Some l) s in Some (ok, [], s))
      | Some (Inr decoded) \<Rightarrow> Some (True, decoded, s))"

definition decodeString_value :: "Token \<Rightarrow> 'r reader \<Rightarrow> (bool \<times> 'r reader) option" where
  "decodeString_value token s =
     do {
       (ok, decoded, s) \<leftarrow> decodeString token s;
       (if ok then map_option (\<lambda>s. (True, s)) (set_current (Value_string decoded) s) else Some (False, s))
     }"

section \<open>Values\<close>

definition push_node :: "step \<Rightarrow> 'r reader \<Rightarrow> 'r reader" where
  "push_node x s = s\<lparr>nodes := nodes s @ [x]\<rparr>"

definition pop_node :: "'r reader \<Rightarrow> 'r reader" where
  "pop_node s = s\<lparr>nodes := butlast (nodes s)\<rparr>"

definition take_comments_before :: "'r reader \<Rightarrow> 'r reader option" where
  "take_comments_before s =
     (if collectComments s \<and> commentsBefore s \<noteq> [] then
        map_option (\<lambda>s. s\<lparr>commentsBefore := []\<rparr>) (at_current (commented (commentsBefore s) commentBefore) s)
      else Some s)"

definition remember_value :: "'r reader \<Rightarrow> 'r reader" where
  "remember_value s =
     (if collectComments s then s\<lparr>lastValueEnd := Some (cur s), lastValue := Some (nodes s)\<rparr> else s)"

text \<open>The token after a member; \<open>None\<close> inside says that it is neither a separator, nor the end, nor a comment.\<close>

definition member_separator :: "'r reader \<Rightarrow> (Token \<times> bool \<times> 'r reader) option" where
  "member_separator s =
     do {
       (comma, s) \<leftarrow> readToken s;
       (if token_type comma \<noteq> tokenObjectEnd \<and> token_type comma \<noteq> tokenArraySeparator \<and> token_type comma \<noteq> tokenComment
        then Some (comma, False, s)
        else if token_type comma = tokenComment then map_option (\<lambda>(comma, s). (comma, True, s)) (next_token s)
        else Some (comma, True, s))
     }"

text \<open>\<open>readValue\<close>, and the loops of \<open>readObject\<close> and \<open>readArray\<close>; the first argument bounds the nested calls.\<close>

fun readValue :: "nat \<Rightarrow> 'r real_ops \<Rightarrow> 'r reader \<Rightarrow> (bool \<times> 'r reader) option"
  and readObject_loop :: "nat \<Rightarrow> 'r real_ops \<Rightarrow> string \<Rightarrow> 'r reader \<Rightarrow> (bool \<times> 'r reader) option"
  and readArray_loop :: "nat \<Rightarrow> 'r real_ops \<Rightarrow> 32 word \<Rightarrow> 'r reader \<Rightarrow> (bool \<times> 'r reader) option" where
  "readValue 0 R s = None"
| "readValue (Suc n) R s =
     do {
       (token, s) \<leftarrow> skipCommentTokens s;
       s \<leftarrow> take_comments_before s;
       (expected, successful, s) \<leftarrow>
         (case token_type token of
            tokenObjectBegin \<Rightarrow>
              do {
                s \<leftarrow> set_current (Value_of_type R objectValue) s;
                r \<leftarrow> readObject_loop n R [] s;
                Some (True, r)
              }
          | tokenArrayBegin \<Rightarrow>
              do {
                s \<leftarrow> set_current (Value_of_type R arrayValue) s;
                s \<leftarrow> Some (skipSpaces s);
                (if peek (cur s) = CHR '']'' then map_option (\<lambda>(_, s). (True, True, s)) (readToken s)
                 else map_option (\<lambda>r. (True, r)) (readArray_loop n R 0 s))
              }
          | tokenNumber \<Rightarrow> map_option (\<lambda>r. (True, r)) (decodeNumber R token s)
          | tokenString \<Rightarrow> map_option (\<lambda>r. (True, r)) (decodeString_value token s)
          | tokenTrue \<Rightarrow> map_option (\<lambda>s. (True, True, s)) (set_current (Value_bool True) s)
          | tokenFalse \<Rightarrow> map_option (\<lambda>s. (True, True, s)) (set_current (Value_bool False) s)
          | tokenNull \<Rightarrow> map_option (\<lambda>s. (True, True, s)) (set_current (Value_of_type R nullValue) s)
          | _ \<Rightarrow> Some (False, addError ''Syntax error: value, object or array expected.'' token None s));
       Some (successful, if expected then remember_value s else s)
     }"
| "readObject_loop 0 R name s = None"
| "readObject_loop (Suc n) R name s =
     do {
       (tokenName, s) \<leftarrow> next_token s;
       (if token_type tokenName = tokenObjectEnd \<and> name = [] then Some (True, s)
        else if token_type tokenName \<noteq> tokenString then
          addErrorAndRecover (''Missing '' @ apostrophe ''}'' @ '' or object member name'') tokenName tokenObjectEnd s
        else
          do {
            (ok, name, s) \<leftarrow> decodeString tokenName s;
            (if \<not> ok then recoverFromError tokenObjectEnd s
             else
               do {
                 (colon', s) \<leftarrow> readToken s;
                 (if token_type colon' \<noteq> tokenMemberSeparator then
                    addErrorAndRecover (''Missing '' @ apostrophe '':'' @ '' after object member name'') colon' tokenObjectEnd s
                  else
                    do {
                      s \<leftarrow> at_current (resolveReference name) s;
                      (ok, s) \<leftarrow> readValue n R (push_node (Named (cstr name)) s);
                      s \<leftarrow> Some (pop_node s);
                      (if \<not> ok then recoverFromError tokenObjectEnd s
                       else
                         do {
                           (comma', ok, s) \<leftarrow> member_separator s;
                           (if \<not> ok then
                              addErrorAndRecover
                                (''Missing '' @ apostrophe '','' @ '' or '' @ apostrophe ''}'' @ '' in object declaration'')
                                comma' tokenObjectEnd s
                            else if token_type comma' = tokenObjectEnd then Some (True, s)
                            else readObject_loop n R name s)
                         })
                    })
               })
          })
     }"
| "readArray_loop 0 R index s = None"
| "readArray_loop (Suc n) R index s =
     do {
       s \<leftarrow> at_current (touch_index index) s;
       (ok, s) \<leftarrow> readValue n R (push_node (At (sint index)) s);
       s \<leftarrow> Some (pop_node s);
       (if \<not> ok then recoverFromError tokenArrayEnd s
        else
          do {
            (token, s) \<leftarrow> next_token s;
            (if token_type token = tokenArraySeparator \<and> token_type token = tokenArrayEnd then
               addErrorAndRecover
                 (''Missing '' @ apostrophe '','' @ '' or '' @ apostrophe '']'' @ '' in array declaration'')
                 token tokenArrayEnd s
             else if token_type token = tokenArrayEnd then Some (True, s)
             else readArray_loop n R (index + 1) s)
          })
     }"

declare readValue.simps(2) [simp del] readObject_loop.simps(2) [simp del] readArray_loop.simps(2) [simp del]

section \<open>Documents\<close>

definition BOM :: string where
  "BOM = [CHR 0xEF, CHR 0xBB, CHR 0xBF]"

definition skip_bom :: "location \<Rightarrow> location" where
  "skip_bom l = (if length l \<ge> 3 \<and> take 3 l = BOM then drop 3 l else l)"

definition start_reading :: "Features \<Rightarrow> bool \<Rightarrow> location \<Rightarrow> 'r Value \<Rightarrow> 'r reader" where
  "start_reading f collect l v =
     \<lparr>nodes = [], root_value = v, errors = [], begin_doc = l, cur = l, lastValueEnd = None, lastValue = None,
      commentsBefore = [], features = f, collectComments = collect \<and> allowComments f\<rparr>"

text \<open>
  \<open>parse\<close>: whether it succeeded, and the final state with the root value. The bound on nested calls is
  enough for any document.
\<close>

definition parse_from :: "'r real_ops \<Rightarrow> 'r reader \<Rightarrow> (bool \<times> 'r reader) option" where
  "parse_from R s =
     do {
       (successful, s) \<leftarrow> readValue (2 * length (cur s) + 1) R s;
       (token, s) \<leftarrow> skipCommentTokens s;
       s \<leftarrow> (if collectComments s \<and> commentsBefore s \<noteq> [] then
                do {
                  v \<leftarrow> commented (commentsBefore s) commentAfter (root_value s);
                  Some (s\<lparr>root_value := v\<rparr>)
                }
              else Some s);
       (if strictRoot (features s) \<and> \<not> isArray (root_value s) \<and> \<not> isObject (root_value s) then
          Some (addError ''A valid JSON document must be either an array or an object value.''
                  \<lparr>token_type = tokenError, token_start = begin_doc s, token_end = []\<rparr> None s)
        else Some (successful, s))
     }"

definition parse :: "'r real_ops \<Rightarrow> Features \<Rightarrow> string \<Rightarrow> 'r Value \<Rightarrow> bool \<Rightarrow> (bool \<times> 'r reader) option" where
  "parse R f doc v collect = parse_from R (start_reading f collect (skip_bom doc) v)"

text \<open>\<open>parse\<close> of a stream takes its text up to a byte 255.\<close>

definition parse_stream :: "'r real_ops \<Rightarrow> Features \<Rightarrow> string \<Rightarrow> 'r Value \<Rightarrow> bool \<Rightarrow> (bool \<times> 'r reader) option" where
  "parse_stream R f text v collect = parse R f (takeWhile (\<lambda>c. c \<noteq> CHR 0xFF) text) v collect"

text \<open>\<open>getLocationLineAndColumn\<close>: the loop from \<open>l\<close> on, with the start of the last line.\<close>

fun line_loop :: "location \<Rightarrow> location \<Rightarrow> location \<Rightarrow> nat \<Rightarrow> location \<times> nat" where
  "line_loop location [] lastLineStart line = (lastLineStart, line)"
| "line_loop location (c # l) lastLineStart line =
     (if length (c # l) > length location then
        (if c = CHR 0x0D then
           (case l of
              [] \<Rightarrow> (l, line + 1)
            | d # l' \<Rightarrow> if d = CHR 0x0A then line_loop location l' l' (line + 1) else line_loop location l l (line + 1))
         else if c = CHR 0x0A then line_loop location l l (line + 1)
         else line_loop location l lastLineStart line)
      else (lastLineStart, line))"

definition getLocationLineAndColumn :: "location \<Rightarrow> location \<Rightarrow> int \<times> int" where
  "getLocationLineAndColumn begin location =
     (let (lastLineStart, line) = line_loop location begin begin 0 in
      (int line + 1, int (length lastLineStart) - int (length location) + 1))"

definition decimal :: "int \<Rightarrow> string" where
  "decimal i = (if i < 0 then CHR ''-'' # uintToString (word_of_int (- i)) '''' else uintToString (word_of_int i) '''')"

definition location_text :: "location \<Rightarrow> location \<Rightarrow> string" where
  "location_text begin location =
     (let (line, column) = getLocationLineAndColumn begin location in
      ''Line '' @ decimal line @ '', Column '' @ decimal column)"

definition error_text :: "location \<Rightarrow> ErrorInfo \<Rightarrow> string" where
  "error_text begin error =
     ''* '' @ location_text begin (token_start (error_token error)) @ [CHR 0x0A]
     @ ''  '' @ error_message error @ [CHR 0x0A]
     @ (case error_extra error of
          None \<Rightarrow> []
        | Some extra \<Rightarrow> ''See '' @ location_text begin extra @ '' for detail.'' @ [CHR 0x0A])"

definition getFormatedErrorMessages :: "'r reader \<Rightarrow> string" where
  "getFormatedErrorMessages s = concat (map (error_text (begin_doc s)) (errors s))"

text \<open>\<open>operator>>\<close> reads the text of the stream, and throws the messages where it does not parse.\<close>

definition stream_in :: "'r real_ops \<Rightarrow> string \<Rightarrow> 'r Value \<Rightarrow> (string + 'r Value) option" where
  "stream_in R text v =
     map_option (\<lambda>(ok, s). if ok then Inr (root_value s) else Inl (getFormatedErrorMessages s))
       (parse_stream R Features_all text v True)"

end
