(* ===== verification/Json_Grammar.thy ===== *)
theory Json_Grammar
  imports Json_Reader
begin

text \<open>
  The language of the reader as a grammar: RFC 8259 with the number ranges of the implementation and without
  comments, each text with the value it stands for. The lemmas show that the scanner and the decoders of
  numbers and strings read its tokens.
\<close>

section \<open>Encoding of characters\<close>

text \<open>UTF-8 by its arithmetic definition, and its decoder.\<close>

definition utf8_encode :: "nat \<Rightarrow> string" where
  "utf8_encode n =
     (if n < 0x80 then [char_of n]
      else if n < 0x800 then [char_of (0xC0 + n div 64), char_of (0x80 + n mod 64)]
      else if n < 0x10000 then
        [char_of (0xE0 + n div 4096), char_of (0x80 + n div 64 mod 64), char_of (0x80 + n mod 64)]
      else
        [char_of (0xF0 + n div 262144), char_of (0x80 + n div 4096 mod 64), char_of (0x80 + n div 64 mod 64),
         char_of (0x80 + n mod 64)])"

definition tail_bits :: "char \<Rightarrow> nat option" where
  "tail_bits c = (let b = of_char c :: nat in if 0x80 \<le> b \<and> b < 0xC0 then Some (b - 0x80) else None)"

definition utf8_decode :: "string \<Rightarrow> (nat \<times> string) option" where
  "utf8_decode text =
     (case text of
        [] \<Rightarrow> None
      | c # t \<Rightarrow>
          (let b = of_char c :: nat in
           if b < 0x80 then Some (b, t)
           else if b < 0xC0 then None
           else if b < 0xE0 then
             (case t of
                d # t \<Rightarrow> do { x \<leftarrow> tail_bits d; Some ((b - 0xC0) * 64 + x, t) }
              | _ \<Rightarrow> None)
           else if b < 0xF0 then
             (case t of
                d # e # t \<Rightarrow> do { x \<leftarrow> tail_bits d; y \<leftarrow> tail_bits e; Some ((b - 0xE0) * 4096 + x * 64 + y, t) }
              | _ \<Rightarrow> None)
           else
             (case t of
                d # e # f # t \<Rightarrow>
                  do {
                    x \<leftarrow> tail_bits d;
                    y \<leftarrow> tail_bits e;
                    z \<leftarrow> tail_bits f;
                    Some ((b - 0xF0) * 262144 + x * 4096 + y * 64 + z, t)
                  }
              | _ \<Rightarrow> None)))"

lemma of_char_of_small: "n < 256 \<Longrightarrow> (of_char (char_of n :: char) :: nat) = n"
  by simp

lemma tail_bits_char: "x < 64 \<Longrightarrow> tail_bits (char_of (0x80 + x)) = Some x"
  by (simp add: tail_bits_def of_char_of_small)

lemma base64_digits3: "n div 4096 * 4096 + n div 64 mod 64 * 64 + n mod 64 = (n :: nat)"
proof -
  have "n div 4096 = n div 64 div 64" by (simp add: div_mult2_eq [symmetric])
  moreover have "n div 64 div 64 * 64 + n div 64 mod 64 = n div 64" "n div 64 * 64 + n mod 64 = n"
    by (rule div_mult_mod_eq)+
  ultimately show ?thesis by linarith
qed

lemma base64_digits4:
  "n div 262144 * 262144 + n div 4096 mod 64 * 4096 + n div 64 mod 64 * 64 + n mod 64 = (n :: nat)"
proof -
  have "n div 262144 = n div 4096 div 64" by (simp add: div_mult2_eq [symmetric])
  moreover have "n div 4096 div 64 * 64 + n div 4096 mod 64 = n div 4096" by (rule div_mult_mod_eq)
  ultimately show ?thesis using base64_digits3 [of n] by linarith
qed

lemma utf8_decode_encode:
  assumes "n < 0x110000"
  shows "utf8_decode (utf8_encode n @ t) = Some (n, t)"
proof -
  consider "n < 0x80" | "0x80 \<le> n" "n < 0x800" | "0x800 \<le> n" "n < 0x10000" | "0x10000 \<le> n" by linarith
  then show ?thesis
  proof cases
    case 1
    then show ?thesis by (simp add: utf8_encode_def utf8_decode_def)
  next
    case 2
    then have "2 \<le> n div 64" "n div 64 < 32" by linarith+
    then show ?thesis
      using 2 by (simp add: utf8_encode_def utf8_decode_def of_char_of_small tail_bits_char)
  next
    case 3
    then have *: "n div 4096 < 16" by linarith
    have "n div 4096 * 4096 + n div 64 mod 64 * 64 + n mod 64 = n" by (rule base64_digits3)
    then show ?thesis
      using 3 * by (simp add: utf8_encode_def utf8_decode_def of_char_of_small tail_bits_char)
  next
    case 4
    then have *: "n div 262144 < 5" using assms by linarith
    have "n div 262144 * 262144 + n div 4096 mod 64 * 4096 + n div 64 mod 64 * 64 + n mod 64 = n"
      by (rule base64_digits4)
    then show ?thesis
      using 4 * by (simp add: utf8_encode_def utf8_decode_def of_char_of_small tail_bits_char)
  qed
qed

lemma and_mask_unat:
  "unat (0x3F AND (w :: 32 word)) = unat w mod 64" "unat (0x1F AND (w :: 32 word)) = unat w mod 32"
  "unat (0xF AND (w :: 32 word)) = unat w mod 16" "unat (0x7 AND (w :: 32 word)) = unat w mod 8"
proof -
  have m: "unat (w AND mask k) = unat w mod 2 ^ k" if "k < 32" for k
    using that by (simp add: take_bit_eq_mask [symmetric] unsigned_take_bit_eq take_bit_nat_def)
  show "unat (0x3F AND w) = unat w mod 64" using m [of 6] by (simp add: mask_eq_exp_minus_1 and.commute)
  show "unat (0x1F AND w) = unat w mod 32" using m [of 5] by (simp add: mask_eq_exp_minus_1 and.commute)
  show "unat (0xF AND w) = unat w mod 16" using m [of 4] by (simp add: mask_eq_exp_minus_1 and.commute)
  show "unat (0x7 AND w) = unat w mod 8" using m [of 3] by (simp add: mask_eq_exp_minus_1 and.commute)
qed

lemma or_disjoint_unat:
  assumes "h AND mask k = 0" and "unat w < 2 ^ k" and "k < 32" and "unat h + 2 ^ k \<le> 2 ^ 32"
  shows "unat (h OR (w :: 32 word)) = unat h + unat w"
proof -
  have "unat (take_bit k w) = unat w"
    using assms(2) by (simp add: unsigned_take_bit_eq take_bit_nat_eq_self)
  then have "w AND mask k = w"
    by (metis take_bit_eq_mask word_unat_eq_iff)
  then have "h AND w = (h AND mask k) AND w"
    by (metis and.assoc and.commute)
  then have "h AND w = 0"
    using assms(1) by simp
  then have "h OR w = h + w"
    using word_plus_and_or [of h w] by simp
  moreover have "unat (h + w) = unat h + unat w"
    using assms by (intro unat_add_lem [THEN iffD1]) simp
  ultimately show ?thesis by simp
qed

lemma or_head_unat:
  "unat w < 64 \<Longrightarrow> unat (0x80 OR (w :: 32 word)) = 0x80 + unat w"
  "unat w < 32 \<Longrightarrow> unat (0xC0 OR (w :: 32 word)) = 0xC0 + unat w"
  "unat w < 16 \<Longrightarrow> unat (0xE0 OR (w :: 32 word)) = 0xE0 + unat w"
  "unat w < 8 \<Longrightarrow> unat (0xF0 OR (w :: 32 word)) = 0xF0 + unat w"
  using or_disjoint_unat [of "0x80" 6 w] or_disjoint_unat [of "0xC0" 5 w] or_disjoint_unat [of "0xE0" 4 w]
    or_disjoint_unat [of "0xF0" 3 w]
  by (simp_all add: mask_eq_exp_minus_1)

lemma utf8_char_tail: "utf8_char (0x80 OR (0x3F AND w)) = char_of (0x80 + unat w mod 64)"
  by (simp add: utf8_char_def or_head_unat and_mask_unat)

lemma drop_bit_unat: "unat (drop_bit k (w :: 32 word)) = unat w div 2 ^ k"
proof -
  have "take_bit 32 (unat w) = unat w"
    using unsigned_less [of w] by (intro take_bit_nat_eq_self) simp
  then show ?thesis by (simp add: unsigned_drop_bit_eq drop_bit_nat_def)
qed

lemma codePointToUTF8_encode:
  assumes "unat cp < 0x110000"
  shows "codePointToUTF8 cp = utf8_encode (unat cp)"
proof -
  have le: "cp \<le> 0x7F \<longleftrightarrow> unat cp < 0x80" "cp \<le> 0x7FF \<longleftrightarrow> unat cp < 0x800" "cp \<le> 0xFFFF \<longleftrightarrow> unat cp < 0x10000"
    "cp \<le> 0x10FFFF \<longleftrightarrow> unat cp < 0x110000"
    by (simp_all add: word_le_nat_alt) linarith+
  have b2: "unat cp div 64 mod 32 = unat cp div 64" if "unat cp < 0x800" using that by (simp add: less_mult_imp_div_less)
  have b3: "unat cp div 4096 mod 16 = unat cp div 4096" if "unat cp < 0x10000" using that by (simp add: less_mult_imp_div_less)
  have b4: "unat cp div 262144 mod 8 = unat cp div 262144" using assms by (simp add: less_mult_imp_div_less)
  show ?thesis
    using assms b2 b3 b4
    by (simp add: codePointToUTF8_def utf8_encode_def le utf8_char_tail utf8_char_def [of "_ OR (0x1F AND _)"]
        utf8_char_def [of "_ OR (0xF AND _)"] utf8_char_def [of "_ OR (0x7 AND _)"] utf8_char_def [of cp]
        or_head_unat and_mask_unat drop_bit_unat)
qed

section \<open>Strings\<close>

definition is_hex :: "char \<Rightarrow> bool" where
  "is_hex c \<longleftrightarrow> is_digit c \<or> (CHR ''a'' \<le> c \<and> c \<le> CHR ''f'') \<or> (CHR ''A'' \<le> c \<and> c \<le> CHR ''F'')"

definition hex_nat :: "char \<Rightarrow> nat" where
  "hex_nat c = (if is_digit c then of_char c - 48 else if CHR ''a'' \<le> c then of_char c - 87 else of_char c - 55)"

definition hex_number :: "string \<Rightarrow> nat" where
  "hex_number ds = foldl (\<lambda>n c. n * 16 + hex_nat c) 0 ds"

definition four_hex :: "string \<Rightarrow> bool" where
  "four_hex ds \<longleftrightarrow> length ds = 4 \<and> list_all is_hex ds"

inductive string_body :: "string \<Rightarrow> string \<Rightarrow> bool" where
  nothing: "string_body [] []"
| plain: "c \<noteq> CHR 0x22 \<Longrightarrow> c \<noteq> CHR 0x5C \<Longrightarrow> string_body t s \<Longrightarrow> string_body (c # t) (c # s)"
| escape: "simple_escape c = Some d \<Longrightarrow> string_body t s \<Longrightarrow> string_body (CHR 0x5C # c # t) (d # s)"
| unicode: "four_hex ds \<Longrightarrow> \<not> (0xD800 \<le> hex_number ds \<and> hex_number ds \<le> 0xDBFF) \<Longrightarrow> string_body t s
    \<Longrightarrow> string_body (CHR 0x5C # CHR ''u'' # ds @ t) (utf8_encode (hex_number ds) @ s)"
| pair: "four_hex ds \<Longrightarrow> 0xD800 \<le> hex_number ds \<Longrightarrow> hex_number ds \<le> 0xDBFF
    \<Longrightarrow> four_hex es \<Longrightarrow> 0xDC00 \<le> hex_number es \<Longrightarrow> hex_number es \<le> 0xDFFF \<Longrightarrow> string_body t s
    \<Longrightarrow> string_body (CHR 0x5C # CHR ''u'' # ds @ CHR 0x5C # CHR ''u'' # es @ t)
          (utf8_encode (0x10000 + (hex_number ds - 0xD800) * 0x400 + (hex_number es - 0xDC00)) @ s)"

lemma less_eq_char_nat: "c \<le> d \<longleftrightarrow> (of_char c :: nat) \<le> of_char d"
  by (simp add: less_eq_char_def)

lemma of_nat_offset: "k \<le> n \<Longrightarrow> of_nat (n - k) + 10 = (of_nat (n - (k - 10)) :: 32 word)" if "10 \<le> k" for k n :: nat
proof -
  assume "k \<le> n"
  then have "n - (k - 10) = (n - k) + 10" using that by simp
  then show ?thesis by simp
qed

lemma hex_value_nat:
  assumes "is_hex c"
  shows "hex_value c = Some (of_nat (hex_nat c))"
proof (cases "is_digit c")
  case True
  then show ?thesis by (simp add: hex_value_def hex_nat_def digit_value_def)
next
  case False
  show ?thesis
  proof (cases "CHR ''a'' \<le> c")
    case True
    then have "c \<le> CHR ''f''" "97 \<le> (of_char c :: nat)"
      using assms False by (auto simp: is_hex_def less_eq_char_nat)
    then show ?thesis
      using False True of_nat_offset [of 97 "of_char c"] by (simp add: hex_value_def hex_nat_def)
  next
    case noa: False
    then have "CHR ''A'' \<le> c" "c \<le> CHR ''F''" "65 \<le> (of_char c :: nat)"
      using assms False by (auto simp: is_hex_def less_eq_char_nat)
    then show ?thesis
      using False noa of_nat_offset [of 65 "of_char c"] by (simp add: hex_value_def hex_nat_def)
  qed
qed

lemma hex_nat_less: "is_hex c \<Longrightarrow> hex_nat c < 16"
  by (auto simp: is_hex_def hex_nat_def less_eq_char_nat is_digit_def)

lemma hex_loop_digits:
  "list_all is_hex ds \<Longrightarrow>
   hex_loop (length ds) (ds @ l) (of_nat n) = Some (Some (of_nat (foldl (\<lambda>n c. n * 16 + hex_nat c) n ds)), l)"
proof (induction ds arbitrary: n)
  case (Cons c ds)
  have "of_nat n * 16 + of_nat (hex_nat c) = (of_nat (n * 16 + hex_nat c) :: 32 word)" by simp
  then show ?case using Cons.IH [of "n * 16 + hex_nat c"] Cons.prems by (simp add: hex_value_nat del: of_nat_add of_nat_mult)
qed simp

lemma hex_loop_four: "four_hex ds \<Longrightarrow> hex_loop 4 (ds @ l) 0 = Some (Some (of_nat (hex_number ds)), l)"
  using hex_loop_digits [of ds l 0] by (simp add: four_hex_def hex_number_def)

lemma hex_number_less:
  assumes "four_hex ds"
  shows "hex_number ds < 0x10000"
proof -
  obtain a b c d where ds: "ds = [a, b, c, d]"
    using assms by (auto simp: four_hex_def numeral_eq_Suc length_Suc_conv)
  then have "hex_nat a < 16" "hex_nat b < 16" "hex_nat c < 16" "hex_nat d < 16"
    using assms by (simp_all add: four_hex_def hex_nat_less)
  then show ?thesis by (simp add: ds hex_number_def)
qed

lemma escape_sequence_four:
  "four_hex ds \<Longrightarrow> decodeUnicodeEscapeSequence (ds @ t @ stop) stop = Some (Inr (of_nat (hex_number ds), t @ stop))"
  by (simp add: decodeUnicodeEscapeSequence_def hex_loop_four) (simp add: four_hex_def)

lemma surrogate_bounds: "n < 0x10000 \<Longrightarrow> (0xD800 \<le> (of_nat n :: 32 word)) = (0xD800 \<le> n)"
  "n < 0x10000 \<Longrightarrow> ((of_nat n :: 32 word) \<le> 0xDBFF) = (n \<le> 0xDBFF)"
  by (simp_all add: word_le_nat_alt unat_of_nat)

lemma code_point_unicode:
  assumes "four_hex ds" and "\<not> (0xD800 \<le> hex_number ds \<and> hex_number ds \<le> 0xDBFF)"
  shows "decodeUnicodeCodePoint (ds @ t @ stop) stop = Some (Inr (of_nat (hex_number ds), t @ stop))"
proof -
  have "\<not> (0xD800 \<le> (of_nat (hex_number ds) :: 32 word) \<and> (of_nat (hex_number ds) :: 32 word) \<le> 0xDBFF)"
    using assms(2) by (simp add: hex_number_less [OF assms(1)] surrogate_bounds)
  then show ?thesis
    by (simp only: decodeUnicodeCodePoint_def escape_sequence_four [OF assms(1)] option.case sum.case prod.case if_False)
qed

lemma mask_10_unat: "unat ((w :: 32 word) AND 0x3FF) = unat w mod 1024"
proof -
  have "unat (w AND mask 10) = unat w mod 2 ^ 10"
    by (simp add: take_bit_eq_mask [symmetric] unsigned_take_bit_eq take_bit_nat_def)
  then show ?thesis by (simp add: mask_eq_exp_minus_1)
qed

lemma code_point_pair:
  assumes "four_hex ds" and "0xD800 \<le> hex_number ds" and "hex_number ds \<le> 0xDBFF"
    and "four_hex es" and "0xDC00 \<le> hex_number es" and "hex_number es \<le> 0xDFFF"
  shows "decodeUnicodeCodePoint (ds @ CHR 0x5C # CHR ''u'' # es @ t @ stop) stop
    = Some (Inr (of_nat (0x10000 + (hex_number ds - 0xD800) * 0x400 + (hex_number es - 0xDC00)), t @ stop))"
proof -
  define a b where "a = hex_number ds - 0xD800" and "b = hex_number es - 0xDC00"
  have ab: "hex_number ds = 0xD800 + a" "hex_number es = 0xDC00 + b" "a < 1024" "b < 1024"
    using assms by (simp_all add: a_def b_def)
  have m: "unat ((of_nat (0xD800 + a) :: 32 word) AND 0x3FF) = a" "unat ((of_nat (0xDC00 + b) :: 32 word) AND 0x3FF) = b"
    using ab(3,4) mod_mult_self4 [of 1024 54 a] mod_mult_self4 [of 1024 55 b]
    by (simp_all add: mask_10_unat unat_of_nat del: of_nat_add)
  then have m': "(of_nat (hex_number ds) :: 32 word) AND 0x3FF = of_nat a"
    "(of_nat (hex_number es) :: 32 word) AND 0x3FF = of_nat b"
    using ab(3,4) by (simp_all add: ab(1,2) word_unat_eq_iff unat_of_nat del: of_nat_add)
  have 1: "decodeUnicodeEscapeSequence (ds @ (CHR 0x5C # CHR ''u'' # es @ t) @ stop) stop
      = Some (Inr (of_nat (hex_number ds), (CHR 0x5C # CHR ''u'' # es @ t) @ stop))"
    by (rule escape_sequence_four [OF assms(1)])
  have len: "\<not> int (length ((CHR 0x5C # CHR ''u'' # es @ t) @ stop)) - int (length stop) < 6"
    using assms(4) by (simp add: four_hex_def)
  have in_range: "0xD800 \<le> (of_nat (hex_number ds) :: 32 word) \<and> (of_nat (hex_number ds) :: 32 word) \<le> 0xDBFF"
    using assms(2,3) by (simp add: hex_number_less [OF assms(1)] surrogate_bounds)
  have "decodeUnicodeCodePoint (ds @ (CHR 0x5C # CHR ''u'' # es @ t) @ stop) stop
    = Some (Inr (0x10000 + push_bit 10 (of_nat a) + of_nat b, t @ stop))"
    unfolding decodeUnicodeCodePoint_def 1 option.case sum.case prod.case if_P [OF in_range] if_not_P [OF len]
    by (simp add: Let_def escape_sequence_four [OF assms(4)] m')
  then show ?thesis by (simp add: push_bit_eq_mult mult.commute a_def b_def)
qed

lemma decode_string_body:
  "string_body t str \<Longrightarrow> decode_loop (t @ CHR 0x22 # rest) (CHR 0x22 # rest) d = Some (Inr (d @ str))"
proof (induction arbitrary: d rule: string_body.induct)
  case nothing
  then show ?case by (simp add: decode_loop.simps)
next
  case (plain c t s)
  then show ?case by (subst decode_loop.simps) simp
next
  case (escape c e t s)
  have "c \<noteq> CHR ''u''" using escape(1) by (auto simp: simple_escape_def)
  then show ?case using escape by (subst decode_loop.simps) simp
next
  case (unicode ds t s)
  then show ?case
    using code_point_unicode [OF unicode(1,2), of t "CHR 0x22 # rest"] hex_number_less [OF unicode(1)]
    by (subst decode_loop.simps) (simp add: codePointToUTF8_encode unat_of_nat)
next
  case (pair ds es t s)
  let ?n = "0x10000 + (hex_number ds - 0xD800) * 0x400 + (hex_number es - 0xDC00)"
  have "?n < 0x110000" using pair(2,3,5,6) by simp
  then have u: "codePointToUTF8 (of_nat ?n) = utf8_encode ?n"
    by (subst codePointToUTF8_encode) (simp_all only: unat_of_nat len_of_numeral_defs, simp_all)
  show ?case
    using code_point_pair [OF pair(1-6), of t "CHR 0x22 # rest"] pair(8)
    by (subst decode_loop.simps) (simp add: u del: of_nat_add)
qed

lemma is_hex_plain: "is_hex c \<Longrightarrow> c \<noteq> CHR 0x22 \<and> c \<noteq> CHR 0x5C"
  by (auto simp: is_hex_def is_digit_def less_eq_char_nat)

lemma string_end_plain: "list_all (\<lambda>c. c \<noteq> CHR 0x22 \<and> c \<noteq> CHR 0x5C) t \<Longrightarrow> \<exists>c'. string_end c (t @ l) = string_end c' l"
proof (induction t arbitrary: c)
  case (Cons d t)
  then show ?case by fastforce
qed auto

lemma string_end_hex:
  assumes "four_hex ds" and "\<And>c. string_end c l = r"
  shows "string_end c (ds @ l) = r"
proof -
  have "list_all (\<lambda>c. c \<noteq> CHR 0x22 \<and> c \<noteq> CHR 0x5C) ds"
    using assms(1) by (auto simp: four_hex_def list_all_iff is_hex_plain)
  then show ?thesis using string_end_plain assms(2) by metis
qed

lemma string_end_body: "string_body t str \<Longrightarrow> string_end c (t @ CHR 0x22 # rest) = (True, rest)"
proof (induction arbitrary: c rule: string_body.induct)
  case (pair ds es t s)
  then show ?case by (simp add: string_end_hex)
qed (auto simp: string_end_hex)

section \<open>Numbers\<close>

definition digit_nat :: "char \<Rightarrow> nat" where
  "digit_nat c = of_char c - 48"

definition decimal_value :: "string \<Rightarrow> nat" where
  "decimal_value ds = foldl (\<lambda>n c. n * 10 + digit_nat c) 0 ds"

definition digits :: "string \<Rightarrow> bool" where
  "digits ds \<longleftrightarrow> ds \<noteq> [] \<and> list_all is_digit ds"

text \<open>
  The texts of numbers. An integer is kept as such below the last multiple of ten of its range; beyond it, and
  with a fraction or an exponent, it is what \<open>sscanf\<close> makes of it.
\<close>

inductive number_text :: "'r real_ops \<Rightarrow> string \<Rightarrow> 'r ValueHolder \<Rightarrow> bool" for R where
  natural: "digits ds \<Longrightarrow> decimal_value ds < 2147483648 \<Longrightarrow> number_text R ds (IntV (of_nat (decimal_value ds)))"
| unsigned: "digits ds \<Longrightarrow> 2147483648 \<le> decimal_value ds \<Longrightarrow> decimal_value ds < 4294967290
    \<Longrightarrow> number_text R ds (UIntV (of_nat (decimal_value ds)))"
| negative: "digits ds \<Longrightarrow> decimal_value ds < 2147483640
    \<Longrightarrow> number_text R (CHR ''-'' # ds) (IntV (- of_nat (decimal_value ds)))"
| large: "digits ds \<Longrightarrow> 4294967290 \<le> decimal_value ds \<Longrightarrow> length ds \<noteq> 32 \<Longrightarrow> r_scan R ds = Some x
    \<Longrightarrow> number_text R ds (RealV x)"
| large_negative: "digits ds \<Longrightarrow> 2147483640 \<le> decimal_value ds \<Longrightarrow> length ds \<noteq> 31
    \<Longrightarrow> r_scan R (CHR ''-'' # ds) = Some x \<Longrightarrow> number_text R (CHR ''-'' # ds) (RealV x)"
| real: "t \<noteq> [] \<Longrightarrow> is_digit (hd t) \<or> hd t = CHR ''-'' \<Longrightarrow> list_all number_char t \<Longrightarrow> double_text t
    \<Longrightarrow> length t \<noteq> 32 \<Longrightarrow> r_scan R t = Some x \<Longrightarrow> number_text R t (RealV x)"

section \<open>Values\<close>

definition blank :: "string \<Rightarrow> bool" where
  "blank w \<longleftrightarrow> list_all is_space w"

definition in_quotes :: "string \<Rightarrow> string" where
  "in_quotes t = CHR 0x22 # t @ [CHR 0x22]"

text \<open>An array has its elements at the indices from zero on; of the members of a name the last one counts.\<close>

definition array_of :: "'r Value list \<Rightarrow> 'r Value" where
  "array_of vs = fresh_value (ArrayV (zip (map int [0..<length vs]) vs))"

definition object_of :: "(string \<times> 'r Value) list \<Rightarrow> 'r Value" where
  "object_of ms = fresh_value (ObjectV (foldl (\<lambda>m (n, v). map_put (cstr n) v m) [] ms))"

inductive json_value :: "'r real_ops \<Rightarrow> string \<Rightarrow> 'r Value \<Rightarrow> bool"
  and json_elements :: "'r real_ops \<Rightarrow> string \<Rightarrow> 'r Value list \<Rightarrow> bool"
  and json_members :: "'r real_ops \<Rightarrow> string \<Rightarrow> (string \<times> 'r Value) list \<Rightarrow> bool" for R where
  null: "json_value R ''null'' (fresh_value NullV)"
| true: "json_value R ''true'' (fresh_value (BoolV True))"
| false: "json_value R ''false'' (fresh_value (BoolV False))"
| number: "number_text R t d \<Longrightarrow> json_value R t (fresh_value d)"
| string: "string_body t s \<Longrightarrow> json_value R (in_quotes t) (Value_string s)"
| empty_array: "blank w \<Longrightarrow> json_value R (''['' @ w @ '']'') (array_of [])"
| array: "json_elements R t vs \<Longrightarrow> length vs < 2 ^ 31 \<Longrightarrow> json_value R (''['' @ t @ '']'') (array_of vs)"
| empty_object: "blank w \<Longrightarrow> json_value R (''{'' @ w @ ''}'') (object_of [])"
| object: "json_members R t ms \<Longrightarrow> json_value R (''{'' @ t @ ''}'') (object_of ms)"
| one_element: "blank w1 \<Longrightarrow> json_value R t v \<Longrightarrow> blank w2 \<Longrightarrow> json_elements R (w1 @ t @ w2) [v]"
| elements: "blank w1 \<Longrightarrow> json_value R t v \<Longrightarrow> blank w2 \<Longrightarrow> json_elements R ts vs
    \<Longrightarrow> json_elements R (w1 @ t @ w2 @ '','' @ ts) (v # vs)"
| one_member: "blank w1 \<Longrightarrow> string_body n name \<Longrightarrow> blank w2 \<Longrightarrow> blank w3 \<Longrightarrow> json_value R t v \<Longrightarrow> blank w4
    \<Longrightarrow> json_members R (w1 @ in_quotes n @ w2 @ '':'' @ w3 @ t @ w4) [(name, v)]"
| members: "blank w1 \<Longrightarrow> string_body n name \<Longrightarrow> blank w2 \<Longrightarrow> blank w3 \<Longrightarrow> json_value R t v \<Longrightarrow> blank w4
    \<Longrightarrow> json_members R ts ms
    \<Longrightarrow> json_members R (w1 @ in_quotes n @ w2 @ '':'' @ w3 @ t @ w4 @ '','' @ ts) ((name, v) # ms)"

section \<open>Tokens\<close>

lemma dropWhile_end: "list_all P l \<Longrightarrow> r = [] \<or> \<not> P (hd r) \<Longrightarrow> dropWhile P (l @ r) = r"
  by (induction l) (auto simp: dropWhile_eq_self_iff)

lemma skip_blank: "blank w \<Longrightarrow> l = [] \<or> \<not> is_space (hd l) \<Longrightarrow> dropWhile is_space (w @ l) = l"
  by (simp add: blank_def dropWhile_end)

lemma between_append [simp]: "between (a @ b) b = a"
  by (simp add: between_def)

lemma between_Cons [simp]: "between (c # a @ b) b = c # a"
  by (simp add: between_def)

lemma readToken_at:
  assumes "cur s = w @ c # l" and "blank w" and "\<not> is_space c"
    and "scan_token c (s\<lparr>cur := l\<rparr>) = Some (type, ok, s')"
  shows "readToken s = Some (\<lparr>token_type = (if ok then type else tokenError), token_start = c # l, token_end = cur s'\<rparr>, s')"
  using assms by (simp add: readToken_def skipSpaces_def getNextChar_def skip_blank Let_def)

lemmas scan_simps = scan_token_def is_digit_def is_space_def

lemma readToken_punctuation:
  assumes "cur s = w @ c # l" and "blank w"
    and "(c, type) \<in> {(CHR ''{'', tokenObjectBegin), (CHR ''}'', tokenObjectEnd), (CHR ''['', tokenArrayBegin),
      (CHR '']'', tokenArrayEnd), (CHR '','', tokenArraySeparator), (CHR '':'', tokenMemberSeparator)}"
  shows "readToken s = Some (\<lparr>token_type = type, token_start = c # l, token_end = l\<rparr>, s\<lparr>cur := l\<rparr>)"
  using assms by (elim insertE) (auto simp: readToken_at [where w = w] scan_simps less_eq_char_nat)

lemma next_token_other:
  "readToken s = Some (token, s') \<Longrightarrow> token_type token \<noteq> tokenComment \<Longrightarrow> next_token s = Some (token, s')"
  by (simp add: next_token.simps)

lemma skipCommentTokens_other:
  "readToken s = Some (token, s') \<Longrightarrow> token_type token \<noteq> tokenComment \<Longrightarrow> skipCommentTokens s = Some (token, s')"
  by (simp add: skipCommentTokens_def next_token_other)

lemma readToken_string:
  assumes "cur s = w @ in_quotes t @ rest" and "blank w" and "string_body t str"
  shows "readToken s = Some (\<lparr>token_type = tokenString, token_start = in_quotes t @ rest, token_end = rest\<rparr>, s\<lparr>cur := rest\<rparr>)"
proof -
  have "scan_token (CHR 0x22) (s\<lparr>cur := t @ CHR 0x22 # rest\<rparr>) = Some (tokenString, True, s\<lparr>cur := rest\<rparr>)"
    by (simp add: scan_token_def readString_def string_end_body [OF assms(3)])
  then show ?thesis
    using readToken_at [of s w "CHR 0x22" "t @ CHR 0x22 # rest"] assms(1,2) by (simp add: in_quotes_def is_space_def)
qed

lemma decodeString_token:
  assumes "string_body t str"
  shows "decodeString \<lparr>token_type = tt, token_start = in_quotes t @ rest, token_end = rest\<rparr> s = Some (True, str, s)"
  using decode_string_body [OF assms, of rest "[]"] by (simp add: decodeString_def in_quotes_def)

lemma readToken_word:
  assumes "cur s = w @ t @ rest" and "blank w"
    and "(t, type) \<in> {(''true'', tokenTrue), (''false'', tokenFalse), (''null'', tokenNull)}"
  shows "readToken s = Some (\<lparr>token_type = type, token_start = t @ rest, token_end = rest\<rparr>, s\<lparr>cur := rest\<rparr>)"
  using assms by (elim insertE) (auto simp: readToken_at [where w = w] scan_simps less_eq_char_nat match_def)

text \<open>A number ends where no character of a number follows.\<close>

definition number_ends :: "string \<Rightarrow> bool" where
  "number_ends rest \<longleftrightarrow> rest = [] \<or> \<not> number_char (hd rest)"

lemma number_text_start:
  assumes "number_text R t d"
  shows "t \<noteq> []" and "is_digit (hd t) \<or> hd t = CHR ''-''" and "list_all number_char t"
  using assms by (induction rule: number_text.induct) (auto simp: digits_def number_char_def list_all_iff hd_in_set)

lemma readToken_number:
  assumes "cur s = w @ t @ rest" and "blank w" and "number_text R t d" and "number_ends rest"
  shows "readToken s = Some (\<lparr>token_type = tokenNumber, token_start = t @ rest, token_end = rest\<rparr>, s\<lparr>cur := rest\<rparr>)"
proof -
  obtain c l where t: "t = c # l" using number_text_start(1) [OF assms(3)] by (cases t) auto
  have c: "is_digit c \<or> c = CHR ''-''" using number_text_start(2) [OF assms(3)] t by simp
  have "dropWhile number_char (l @ rest) = rest"
    using number_text_start(3) [OF assms(3)] assms(4) t by (simp add: number_ends_def dropWhile_end)
  then have "scan_token c (s\<lparr>cur := l @ rest\<rparr>) = Some (tokenNumber, True, s\<lparr>cur := rest\<rparr>)"
    using c by (auto simp: scan_token_def readNumber_def is_digit_def less_eq_char_nat)
  moreover have "\<not> is_space c" using c by (auto simp: is_space_def is_digit_def less_eq_char_nat)
  ultimately show ?thesis using readToken_at [of s w c "l @ rest"] assms(1,2) by (simp add: t)
qed

section \<open>Decoding numbers\<close>

lemma digit_value_nat: "is_digit c \<Longrightarrow> digit_value c = of_nat (digit_nat c)" "is_digit c \<Longrightarrow> digit_nat c \<le> 9"
  by (auto simp: digit_value_def digit_nat_def is_digit_def less_eq_char_nat)

lemma decimal_ge: "n \<le> foldl (\<lambda>n c. n * 10 + digit_nat c) n ds"
proof (induction ds arbitrary: n)
  case (Cons c ds)
  show ?case using Cons.IH [of "n * 10 + digit_nat c"] by simp
qed simp

lemma of_nat_ge_iff: "m < 2 ^ 32 \<Longrightarrow> n < 2 ^ 32 \<Longrightarrow> (of_nat m \<le> (of_nat n :: 32 word)) = (m \<le> n)"
  by (simp add: word_le_nat_alt unat_of_nat)

lemma number_loop_fits:
  assumes "list_all is_digit ds" and "foldl (\<lambda>n c. n * 10 + digit_nat c) n ds < thr * 10" and "thr * 10 \<le> 2 ^ 32"
  shows "number_loop (of_nat thr) ds (of_nat n) = Number (of_nat (foldl (\<lambda>n c. n * 10 + digit_nat c) n ds))"
  using assms(1,2)
proof (induction ds arbitrary: n)
  case (Cons c ds)
  let ?m = "n * 10 + digit_nat c"
  have "?m < thr * 10" using decimal_ge [of ?m ds] Cons.prems(2) by simp
  then have "n < thr" by simp
  then have "\<not> of_nat thr \<le> (of_nat n :: 32 word)"
    using assms(3) by (subst of_nat_ge_iff) auto
  moreover have "of_nat n * 10 + digit_value c = (of_nat ?m :: 32 word)"
    using Cons.prems(1) by (simp add: digit_value_nat)
  ultimately show ?case using Cons.IH [of ?m] Cons.prems by (simp del: of_nat_add of_nat_mult)
qed simp

lemma number_loop_large:
  assumes "list_all is_digit ds" and "thr * 10 \<le> foldl (\<lambda>n c. n * 10 + digit_nat c) n ds" and "thr * 10 \<le> 2 ^ 32"
    and "n < thr * 10"
  shows "number_loop (of_nat thr) ds (of_nat n) = TooLarge"
  using assms(1,2,4)
proof (induction ds arbitrary: n)
  case (Cons c ds)
  let ?m = "n * 10 + digit_nat c"
  have le: "of_nat thr \<le> (of_nat n :: 32 word) \<longleftrightarrow> thr \<le> n"
    using assms(3) Cons.prems(3) by (subst of_nat_ge_iff) auto
  show ?case
  proof (cases "thr \<le> n")
    case True
    then show ?thesis using le Cons.prems(1) by simp
  next
    case False
    have "of_nat n * 10 + digit_value c = (of_nat ?m :: 32 word)" "?m < thr * 10"
      using False Cons.prems(1) digit_value_nat [of c] by simp_all
    then show ?thesis using Cons.IH [of ?m] Cons.prems le False by (simp del: of_nat_add of_nat_mult)
  qed
qed simp

lemma thresholds:
  "(- word_of_int minInt :: 32 word) div 10 = of_nat 214748364" "(word_of_int maxUInt :: 32 word) div 10 = of_nat 429496729"
  by (simp_all add: minInt_def maxUInt_def word_div_def)

lemma digits_plain:
  assumes "digits ds"
  shows "\<not> double_text ds" "\<not> double_text (CHR ''-'' # ds)" "peek ds \<noteq> CHR ''-''"
proof -
  have d: "c \<in> set ds \<Longrightarrow> is_digit c" for c using assms by (simp add: digits_def list_all_iff)
  have "c \<in> set ds \<Longrightarrow> c \<notin> {CHR ''.'', CHR ''e'', CHR ''E'', CHR ''+'', CHR ''-''}" for c
    using d [of c] by (auto simp: is_digit_def less_eq_char_nat)
  then show "\<not> double_text ds" "\<not> double_text (CHR ''-'' # ds)" "peek ds \<noteq> CHR ''-''"
    using assms by (auto simp: double_text_def list_ex_iff digits_def peek_def dest: list.set_sel(2) split: list.splits)
qed

text \<open>The number in a token, stored in the current value.\<close>

lemma decodeNumber_text:
  assumes "number_text R t d" and "get_at (nodes s) (root_value s) = Some v"
  shows "decodeNumber R \<lparr>token_type = tt, token_start = t @ rest, token_end = rest\<rparr> s
    = Some (True, s\<lparr>root_value := upd_at (nodes s) (\<lambda>_. Value d (vcomments v)) (root_value s)\<rparr>)"
proof -
  let ?tok = "\<lparr>token_type = tt, token_start = t @ rest, token_end = rest\<rparr>"
  have tok: "token_text ?tok = t" by (simp add: token_text_def)
  have set: "set_current (fresh_value e) s = Some (s\<lparr>root_value := upd_at (nodes s) (\<lambda>_. Value e (vcomments v)) (root_value s)\<rparr>)" for e
    using assms(2) by (simp add: set_current_def at_current_def assign_def swap_Value_def Value_copy_def Let_def)
  note store = Value_Int_def Value_UInt_def Value_double_def set
  have fits: "number_loop (of_nat thr) ds 0 = Number (of_nat (decimal_value ds))"
    if "digits ds" "decimal_value ds < thr * 10" "thr * 10 \<le> 2 ^ 32" for thr ds
    using that number_loop_fits [of ds 0 thr] by (simp add: digits_def decimal_value_def)
  have toolarge: "number_loop (of_nat thr) ds 0 = TooLarge"
    if "digits ds" "thr * 10 \<le> decimal_value ds" "thr * 10 \<le> 2 ^ 32" "0 < thr" for thr ds
    using that number_loop_large [of ds thr 0] by (simp add: digits_def decimal_value_def)
  have max: "(of_nat n :: 32 word) \<le> word_of_int maxInt \<longleftrightarrow> n < 2147483648" if "n < 4294967290" for n
    using that of_nat_ge_iff [of n 2147483647] by (simp add: maxInt_def) linarith
  show ?thesis
    using assms(1)
  proof cases
    case natural
    then show ?thesis
      using fits [of t 429496729] by (simp add: decodeNumber_def tok digits_plain thresholds max store Let_def)
  next
    case unsigned
    then show ?thesis
      using fits [of t 429496729] by (simp add: decodeNumber_def tok digits_plain thresholds max store Let_def)
  next
    case (negative ds)
    then show ?thesis
      using fits [of ds 214748364] by (simp add: decodeNumber_def token_text_def digits_plain thresholds store Let_def peek_def)
  next
    case (large x)
    then show ?thesis
      using toolarge [of t 429496729] by (simp add: decodeNumber_def decodeDouble_def tok digits_plain thresholds store Let_def)
  next
    case (large_negative ds x)
    then show ?thesis
      using toolarge [of ds 214748364]
      by (simp add: decodeNumber_def decodeDouble_def token_text_def digits_plain thresholds store Let_def peek_def)
  next
    case (real x)
    then show ?thesis by (simp add: decodeNumber_def decodeDouble_def tok store Let_def)
  qed
qed

end
