(* ===== verification/Json_Accepts.thy ===== *)
theory Json_Accepts
  imports Json_Grammar
begin

text \<open>
  The reader reads every text of the grammar as the value the grammar gives, whatever the value it reads into
  held before. The induction is over the grammar; each of its categories has a predicate saying what the
  function that reads it does.
\<close>

section \<open>Reading the texts of the grammar\<close>

text \<open>The state after the current value has been read as \<open>v\<close> and \<open>l\<close> is left of the document.\<close>

definition reads :: "'r reader \<Rightarrow> 'r reader \<Rightarrow> location \<Rightarrow> 'r Value \<Rightarrow> bool" where
  "reads s s' l v \<longleftrightarrow>
     nodes s' = nodes s \<and> errors s' = errors s \<and> begin_doc s' = begin_doc s \<and> commentsBefore s' = commentsBefore s
     \<and> features s' = features s \<and> collectComments s' = collectComments s \<and> cur s' = l
     \<and> root_value s' = upd_at (nodes s) (\<lambda>_. v) (root_value s)"

definition quiet :: "'r reader \<Rightarrow> bool" where
  "quiet s \<longleftrightarrow> (collectComments s \<longrightarrow> commentsBefore s = [])"

abbreviation current_is :: "'r reader \<Rightarrow> 'r Value \<Rightarrow> bool" where
  "current_is s v \<equiv> get_at (nodes s) (root_value s) = Some v"

lemma reads_trans: "reads s s1 l1 v1 \<Longrightarrow> reads s1 s2 l2 v2 \<Longrightarrow> reads s s2 l2 v2"
  by (simp add: reads_def)

lemma reads_cur: "reads s s1 l v \<Longrightarrow> reads s (s1\<lparr>cur := l'\<rparr>) l' v"
  by (simp add: reads_def)

lemma reads_remember: "reads s (remember_value s1) l v \<longleftrightarrow> reads s s1 l v"
  by (simp add: reads_def remember_value_def)

lemma reads_quiet: "reads s s' l v \<Longrightarrow> quiet s \<Longrightarrow> quiet s'"
  by (simp add: reads_def quiet_def)

lemma reads_current: "reads s s' l v \<Longrightarrow> current_is s v0 \<Longrightarrow> current_is s' v"
  by (simp add: reads_def)

lemma reads_child:
  assumes "reads (push_node x (s\<lparr>root_value := upd_at (nodes s) (\<lambda>_. v1) (root_value s)\<rparr>)) s' l w"
  shows "reads s (pop_node s') l (upd_step x (\<lambda>_. w) v1)"
  using assms by (simp add: reads_def push_node_def pop_node_def upd_at_append)

lemma at_current_simp: "current_is s v \<Longrightarrow> f v = Some v' \<Longrightarrow>
  at_current f s = Some (s\<lparr>root_value := upd_at (nodes s) (\<lambda>_. v') (root_value s)\<rparr>)"
  by (simp add: at_current_def)

lemma assign_simp [simp]: "assign v w = Value (vdata w) (vcomments v)"
  by (simp add: assign_def swap_Value_def Value_copy_def)

lemma set_current_simp: "current_is s v \<Longrightarrow>
  set_current w s = Some (s\<lparr>root_value := upd_at (nodes s) (\<lambda>_. Value (vdata w) (vcomments v)) (root_value s)\<rparr>)"
  by (simp add: set_current_def at_current_simp)

lemma take_comments_quiet [simp]: "quiet s \<Longrightarrow> take_comments_before s = Some s"
  by (auto simp: take_comments_before_def quiet_def)

lemma quiet_update [simp]: "quiet (s\<lparr>cur := l\<rparr>) = quiet s" "quiet (s\<lparr>root_value := v\<rparr>) = quiet s"
  "quiet (push_node x s) = quiet s"
  by (simp_all add: quiet_def push_node_def)

lemma blank_number_ends: "blank w \<Longrightarrow> \<not> number_char c \<Longrightarrow> number_ends (w @ c # l)"
  by (cases w) (auto simp: number_ends_def blank_def is_space_def number_char_def is_digit_def less_eq_char_nat)

lemma json_value_start:
  assumes "json_value R t v"
  shows "t \<noteq> []" and "peek (t @ l) \<noteq> CHR '']''" and "\<not> is_space (peek (t @ l))"
proof -
  have "t \<noteq> [] \<and> peek (t @ l) \<noteq> CHR '']'' \<and> \<not> is_space (peek (t @ l))"
    using assms
  proof cases
    case (number d)
    then obtain c u where "t = c # u" "is_digit c \<or> c = CHR ''-''"
      using number_text_start [of R t d] by (cases t) auto
    then show ?thesis by (auto simp: peek_def is_space_def is_digit_def less_eq_char_nat)
  qed (auto simp: peek_def is_space_def in_quotes_def)
  then show "t \<noteq> []" "peek (t @ l) \<noteq> CHR '']''" "\<not> is_space (peek (t @ l))" by auto
qed

lemma json_value_comments: "json_value R t v \<Longrightarrow> vcomments v = no_comments"
  by (erule json_value.cases) (auto simp: Value_string_def array_of_def object_of_def)

lemma sint_of_nat: "n < 2 ^ 31 \<Longrightarrow> sint (of_nat n :: 32 word) = int n"
  by (simp add: signed_of_nat signed_take_bit_int_eq_self)

lemma touch_array:
  assumes "map fst m = map int [0..<i]" and "i < 2 ^ 31"
  shows "touch_index (of_nat i) (Value (ArrayV m) c) = Some (Value (ArrayV (m @ [(int i, null)])) c)"
    and "map_of m (int i) = None"
proof -
  have "fst ` set m = set (map int [0..<i])" using assms(1) by (metis list.set_map)
  then have lt: "e \<in> set m \<Longrightarrow> fst e < int i" for e by (metis (no_types, lifting) atLeastLessThan_iff imageE image_eqI list.set_map nat_int set_upt zless_nat_conj of_nat_less_iff)
  then show none: "map_of m (int i) = None" by (force simp: map_of_eq_None_iff)
  show "touch_index (of_nat i) (Value (ArrayV m) c) = Some (Value (ArrayV (m @ [(int i, null)])) c)"
    using none map_put_end [of m "int i" null] lt by (simp add: touch_index_def sint_of_nat [OF assms(2)] map_touch_def)
qed

text \<open>A value that is no array and no object.\<close>

lemma readValue_scalar:
  assumes "readToken s = Some (token, s1)" and "s1 = s\<lparr>cur := rest\<rparr>" and "quiet s" and "n \<noteq> 0"
    and "token_type token \<in> {tokenNumber, tokenString, tokenTrue, tokenFalse, tokenNull}"
    and "token_type token = tokenNumber \<Longrightarrow> decodeNumber R token s1 = Some (True, s2)"
    and "token_type token = tokenString \<Longrightarrow> decodeString_value token s1 = Some (True, s2)"
    and "token_type token = tokenTrue \<Longrightarrow> set_current (Value_bool True) s1 = Some s2"
    and "token_type token = tokenFalse \<Longrightarrow> set_current (Value_bool False) s1 = Some s2"
    and "token_type token = tokenNull \<Longrightarrow> set_current (fresh_value NullV) s1 = Some s2"
    and "reads s s2 rest v"
  shows "\<exists>s'. readValue n R s = Some (True, s') \<and> reads s s' rest v"
proof -
  obtain k where n: "n = Suc k" using assms(4) by (cases n) auto
  have "skipCommentTokens s = Some (token, s1)"
    using assms(1,5) by (intro skipCommentTokens_other) auto
  then have "readValue n R s = Some (True, remember_value s2)"
    using assms(2,3,5-10) by (auto simp: n readValue.simps(2))
  then show ?thesis using assms(11) by (simp add: reads_remember)
qed

definition value_reads :: "'r real_ops \<Rightarrow> string \<Rightarrow> 'r Value \<Rightarrow> bool" where
  "value_reads R t v \<longleftrightarrow>
     (\<forall>s w rest cv n. cur s = w @ t @ rest \<longrightarrow> blank w \<longrightarrow> number_ends rest \<longrightarrow> current_is s cv \<longrightarrow> quiet s
        \<longrightarrow> 2 * length t + 1 \<le> n
        \<longrightarrow> (\<exists>s'. readValue n R s = Some (True, s') \<and> reads s s' rest (Value (vdata v) (vcomments cv))))"

lemma value_readsD:
  assumes "value_reads R t v" and "cur s = w @ t @ rest" and "blank w" and "number_ends rest" and "current_is s cv"
    and "quiet s" and "2 * length t + 1 \<le> n"
  shows "\<exists>s'. readValue n R s = Some (True, s') \<and> reads s s' rest (Value (vdata v) (vcomments cv))"
  using assms unfolding value_reads_def by blast

definition elements_read :: "'r real_ops \<Rightarrow> string \<Rightarrow> 'r Value list \<Rightarrow> bool" where
  "elements_read R t vs \<longleftrightarrow>
     (\<forall>s rest m c i n. cur s = t @ CHR '']'' # rest \<longrightarrow> current_is s (Value (ArrayV m) c) \<longrightarrow> map fst m = map int [0..<i]
        \<longrightarrow> i + length vs < 2 ^ 31 \<longrightarrow> quiet s \<longrightarrow> 2 * length t + 2 \<le> n
        \<longrightarrow> (\<exists>s'. readArray_loop n R (of_nat i) s = Some (True, s')
              \<and> reads s s' rest (Value (ArrayV (m @ zip (map int [i..<i + length vs]) vs)) c)))"

definition put_members :: "(string \<times> 'r Value) list \<Rightarrow> (string \<times> 'r Value) list \<Rightarrow> (string \<times> 'r Value) list" where
  "put_members m ms = foldl (\<lambda>m (n, v). map_put (cstr n) v m) m ms"

definition uncommented :: "('k \<times> 'r Value) list \<Rightarrow> bool" where
  "uncommented m \<longleftrightarrow> list_all (\<lambda>(_, v). vcomments v = no_comments) m"

definition members_read :: "'r real_ops \<Rightarrow> string \<Rightarrow> (string \<times> 'r Value) list \<Rightarrow> bool" where
  "members_read R t ms \<longleftrightarrow>
     (\<forall>s rest m c name n. cur s = t @ CHR ''}'' # rest \<longrightarrow> current_is s (Value (ObjectV m) c) \<longrightarrow> map_ok m
        \<longrightarrow> uncommented m \<longrightarrow> quiet s \<longrightarrow> 2 * length t + 1 \<le> n
        \<longrightarrow> (\<exists>s'. readObject_loop n R name s = Some (True, s') \<and> reads s s' rest (Value (ObjectV (put_members m ms)) c)))"

lemma array_element:
  fixes v :: "'a Value"
  assumes v: "value_reads R t v" "vcomments v = no_comments" and t: "cur s = w @ t @ rest" "blank w" "number_ends rest"
    and m: "current_is s (Value (ArrayV m) c)" "map fst m = map int [0..<i]" "i < 2 ^ 31"
    and "quiet s" and "2 * length t + 1 \<le> n"
  shows "\<exists>s1 s2. at_current (touch_index (of_nat i)) s = Some s1
    \<and> readValue n R (push_node (At (sint (of_nat i :: 32 word))) s1) = Some (True, s2)
    \<and> reads s (pop_node s2) rest (Value (ArrayV (m @ [(int i, v)])) c)"
proof -
  let ?v = "Value (ArrayV (m @ [(int i, null)])) c"
  define s1 where "s1 = s\<lparr>root_value := upd_at (nodes s) (\<lambda>_. ?v) (root_value s)\<rparr>"
  have 1: "at_current (touch_index (of_nat i)) s = Some s1"
    unfolding s1_def by (rule at_current_simp [OF m(1)], rule touch_array(1) [OF m(2,3)])
  have c: "cur (push_node (At (int i)) s1) = w @ t @ rest" "quiet (push_node (At (int i)) s1)"
    using t(1) assms(9) by (simp_all add: s1_def push_node_def quiet_def)
  have "current_is (push_node (At (int i)) s1) null"
    using m touch_array(2) [OF m(2,3)] by (simp add: s1_def push_node_def get_at_append map_add_def)
  from value_readsD [OF v(1) c(1) t(2,3) this c(2) assms(10)] obtain s2 where 2: "readValue n R (push_node (At (int i)) s1) = Some (True, s2)"
    and r: "reads (push_node (At (int i)) s1) s2 rest (Value (vdata v) (vcomments (null :: 'a Value)))"
    by blast
  have "Value (vdata v) (vcomments (null :: 'a Value)) = v" using v(2) by (cases v) (simp add: null_def)
  then have r': "reads (push_node (At (int i)) s1) s2 rest v" using r by (simp only:)
  have "reads s (pop_node s2) rest (upd_step (At (int i)) (\<lambda>_. v) ?v)"
    using r' unfolding s1_def by (rule reads_child)
  moreover have "upd_step (At (int i)) (\<lambda>_. v) ?v = Value (ArrayV (m @ [(int i, v)])) c"
    using touch_array(2) [OF m(2,3)] map_entry_notin [of "int i" m] by (simp add: map_entry_def map_of_eq_None_iff)
  ultimately show ?thesis using 1 2 by (simp add: sint_of_nat [OF m(3)])
qed

lemma object_member:
  assumes v: "value_reads R t v" "vcomments v = no_comments" and t: "cur s = w @ t @ rest" "blank w" "number_ends rest"
    and m: "current_is s (Value (ObjectV m) c)" "map_ok m" "uncommented m"
    and "quiet s" and "2 * length t + 1 \<le> n"
  shows "\<exists>s1 s2. at_current (resolveReference name) s = Some s1
    \<and> readValue n R (push_node (Named (cstr name)) s1) = Some (True, s2)
    \<and> reads s (pop_node s2) rest (Value (ObjectV (map_put (cstr name) v m)) c)"
proof -
  let ?v = "Value (ObjectV (map_touch (cstr name) null m)) c"
  define s1 where "s1 = s\<lparr>root_value := upd_at (nodes s) (\<lambda>_. ?v) (root_value s)\<rparr>"
  have 1: "at_current (resolveReference name) s = Some s1"
    unfolding s1_def by (rule at_current_simp [OF m(1)]) (simp add: resolveReference_def)
  define old where "old = (case map_of m (cstr name) of None \<Rightarrow> null | Some x \<Rightarrow> x)"
  have c: "cur (push_node (Named (cstr name)) s1) = w @ t @ rest" "quiet (push_node (Named (cstr name)) s1)"
    using t(1) assms(9) by (simp_all add: s1_def push_node_def quiet_def)
  have "current_is (push_node (Named (cstr name)) s1) old"
    using m by (simp add: s1_def push_node_def get_at_append old_def)
  from value_readsD [OF v(1) c(1) t(2,3) this c(2) assms(10)] obtain s2 where 2: "readValue n R (push_node (Named (cstr name)) s1) = Some (True, s2)"
    and r: "reads (push_node (Named (cstr name)) s1) s2 rest (Value (vdata v) (vcomments old))"
    by blast
  have "vcomments old = no_comments"
    using m(3) by (auto simp: old_def null_def uncommented_def list_all_iff dest: map_of_SomeD split: option.splits)
  then have "Value (vdata v) (vcomments old) = v" using v(2) by (cases v) simp
  then have r': "reads (push_node (Named (cstr name)) s1) s2 rest v" using r by (simp only:)
  have "reads s (pop_node s2) rest (upd_step (Named (cstr name)) (\<lambda>_. v) ?v)"
    using r' unfolding s1_def by (rule reads_child)
  moreover have "upd_step (Named (cstr name)) (\<lambda>_. v) ?v = Value (ObjectV (map_put (cstr name) v m)) c"
    using m(2) by (simp add: touch_write)
  ultimately show ?thesis using 1 2 by simp
qed

lemma uncommented_put: "uncommented m \<Longrightarrow> vcomments v = no_comments \<Longrightarrow> uncommented (map_put k v m)"
  by (induction k v m rule: map_put.induct) (auto simp: uncommented_def)

lemma next_token_punctuation:
  assumes "cur s = w @ c # l" and "blank w"
    and "(c, type) \<in> {(CHR ''}'', tokenObjectEnd), (CHR '']'', tokenArrayEnd), (CHR '','', tokenArraySeparator)}"
  shows "next_token s = Some (\<lparr>token_type = type, token_start = c # l, token_end = l\<rparr>, s\<lparr>cur := l\<rparr>)"
  using assms by (intro next_token_other readToken_punctuation) auto

lemma elements_read_one:
  assumes "blank w1" and "value_reads R t v" and "vcomments v = no_comments" and "blank w2"
  shows "elements_read R (w1 @ t @ w2) [v]"
  unfolding elements_read_def
proof (intro allI impI)
  fix s :: "'a reader" and rest m c i n
  assume l: "cur s = (w1 @ t @ w2) @ CHR '']'' # rest" and m: "current_is s (Value (ArrayV m) c)"
    "map fst m = map int [0..<i]" "i + length [v] < 2 ^ 31" and q: "quiet s" and n: "2 * length (w1 @ t @ w2) + 2 \<le> n"
  obtain k where k: "n = Suc k" "2 * length t + 1 \<le> k" using n by (cases n) auto
  have e: "number_ends (w2 @ CHR '']'' # rest)"
    using assms(4) by (simp add: blank_number_ends number_char_def is_digit_def less_eq_char_nat)
  obtain s1 s2 where r: "at_current (touch_index (of_nat i)) s = Some s1"
    "readValue k R (push_node (At (sint (of_nat i :: 32 word))) s1) = Some (True, s2)"
    "reads s (pop_node s2) (w2 @ CHR '']'' # rest) (Value (ArrayV (m @ [(int i, v)])) c)"
    using array_element [OF assms(2,3) _ assms(1) e m(1,2) _ q k(2)] l m(3) by auto
  have "cur (pop_node s2) = w2 @ CHR '']'' # rest" using r(3) by (simp add: reads_def)
  from next_token_punctuation [OF this assms(4), of tokenArrayEnd]
  have "readArray_loop n R (of_nat i) s = Some (True, (pop_node s2)\<lparr>cur := rest\<rparr>)"
    by (simp add: k(1) readArray_loop.simps(2) r(1,2))
  moreover have "reads s ((pop_node s2)\<lparr>cur := rest\<rparr>) rest (Value (ArrayV (m @ [(int i, v)])) c)"
    by (rule reads_cur [OF r(3)])
  ultimately show "\<exists>s'. readArray_loop n R (of_nat i) s = Some (True, s')
      \<and> reads s s' rest (Value (ArrayV (m @ zip (map int [i..<i + length [v]]) [v])) c)"
    by simp
qed

lemma elements_read_more:
  assumes "blank w1" and "value_reads R t v" and "vcomments v = no_comments" and "blank w2" and "elements_read R ts vs"
  shows "elements_read R (w1 @ t @ w2 @ '','' @ ts) (v # vs)"
  unfolding elements_read_def
proof (intro allI impI)
  fix s :: "'a reader" and rest m c i n
  assume l: "cur s = (w1 @ t @ w2 @ '','' @ ts) @ CHR '']'' # rest" and m: "current_is s (Value (ArrayV m) c)"
    "map fst m = map int [0..<i]" "i + length (v # vs) < 2 ^ 31" and q: "quiet s"
    and n: "2 * length (w1 @ t @ w2 @ '','' @ ts) + 2 \<le> n"
  let ?m = "m @ [(int i, v)]" and ?l = "ts @ CHR '']'' # rest"
  obtain k where k: "n = Suc k" "2 * length t + 1 \<le> k" "2 * length ts + 2 \<le> k" using n by (cases n) auto
  have e: "number_ends (w2 @ CHR '','' # ?l)"
    using assms(4) by (simp add: blank_number_ends number_char_def is_digit_def less_eq_char_nat)
  obtain s1 s2 where r: "at_current (touch_index (of_nat i)) s = Some s1"
    "readValue k R (push_node (At (sint (of_nat i :: 32 word))) s1) = Some (True, s2)"
    "reads s (pop_node s2) (w2 @ CHR '','' # ?l) (Value (ArrayV ?m) c)"
    using array_element [OF assms(2,3) _ assms(1) e m(1,2) _ q k(2)] l m(3) by auto
  define s3 where "s3 = (pop_node s2)\<lparr>cur := ?l\<rparr>"
  have s3: "reads s s3 ?l (Value (ArrayV ?m) c)" unfolding s3_def by (rule reads_cur [OF r(3)])
  have "cur (pop_node s2) = w2 @ CHR '','' # ?l" using r(3) by (simp add: reads_def)
  from next_token_punctuation [OF this assms(4), of tokenArraySeparator]
  have step: "readArray_loop n R (of_nat i) s = readArray_loop k R (of_nat (Suc i)) s3"
    by (simp add: k(1) readArray_loop.simps(2) r(1,2) s3_def add.commute)
  have "cur s3 = ts @ CHR '']'' # rest" by (simp add: s3_def)
  moreover have "current_is s3 (Value (ArrayV ?m) c)" by (rule reads_current [OF s3 m(1)])
  moreover have "map fst ?m = map int [0..<Suc i]" using m(2) by simp
  moreover have "Suc i + length vs < 2 ^ 31" using m(3) by simp
  moreover have "quiet s3" by (rule reads_quiet [OF s3 q])
  ultimately obtain s' where s': "readArray_loop k R (of_nat (Suc i)) s3 = Some (True, s')"
    "reads s3 s' rest (Value (ArrayV (?m @ zip (map int [Suc i..<Suc i + length vs]) vs)) c)"
    using assms(5) k(3) unfolding elements_read_def by blast
  have "?m @ zip (map int [Suc i..<Suc i + length vs]) vs = m @ zip (map int [i..<i + length (v # vs)]) (v # vs)"
    by (simp add: upt_rec)
  then show "\<exists>s'. readArray_loop n R (of_nat i) s = Some (True, s')
      \<and> reads s s' rest (Value (ArrayV (m @ zip (map int [i..<i + length (v # vs)]) (v # vs))) c)"
    using step s'(1) reads_trans [OF s3 s'(2)] by simp
qed

text \<open>The name of a member and the colon after it, up to the value.\<close>

lemma readObject_member:
  assumes "cur s = w1 @ in_quotes n @ w2 @ CHR '':'' # l" and "blank w1" and "string_body n name'" and "blank w2"
    and "at_current (resolveReference name') (s\<lparr>cur := l\<rparr>) = Some s1"
    and "readValue k R (push_node (Named (cstr name')) s1) = Some (True, s2)"
  shows "readObject_loop (Suc k) R name s =
    do {
      (comma', ok, s) \<leftarrow> member_separator (pop_node s2);
      (if \<not> ok then
         addErrorAndRecover (''Missing '' @ apostrophe '','' @ '' or '' @ apostrophe ''}'' @ '' in object declaration'')
           comma' tokenObjectEnd s
       else if token_type comma' = tokenObjectEnd then Some (True, s)
       else readObject_loop k R name' s)
    }"
proof -
  let ?rest = "w2 @ CHR '':'' # l"
  have "readToken s = Some (\<lparr>token_type = tokenString, token_start = in_quotes n @ ?rest, token_end = ?rest\<rparr>, s\<lparr>cur := ?rest\<rparr>)"
    using assms(1-3) by (intro readToken_string) auto
  then have 1: "next_token s
      = Some (\<lparr>token_type = tokenString, token_start = in_quotes n @ ?rest, token_end = ?rest\<rparr>, s\<lparr>cur := ?rest\<rparr>)"
    by (rule next_token_other) simp
  have 2: "readToken (s\<lparr>cur := ?rest\<rparr>)
      = Some (\<lparr>token_type = tokenMemberSeparator, token_start = CHR '':'' # l, token_end = l\<rparr>, s\<lparr>cur := l\<rparr>)"
    using readToken_punctuation [of "s\<lparr>cur := ?rest\<rparr>" w2 "CHR '':''" l tokenMemberSeparator] assms(4) by simp
  show ?thesis
    by (simp add: readObject_loop.simps(2) 1 2 decodeString_token [OF assms(3)] assms(5,6))
qed

lemma member_separator_token:
  assumes "cur s = w @ c # l" and "blank w" and "(c, type) \<in> {(CHR ''}'', tokenObjectEnd), (CHR '','', tokenArraySeparator)}"
  shows "member_separator s = Some (\<lparr>token_type = type, token_start = c # l, token_end = l\<rparr>, True, s\<lparr>cur := l\<rparr>)"
proof -
  have "readToken s = Some (\<lparr>token_type = type, token_start = c # l, token_end = l\<rparr>, s\<lparr>cur := l\<rparr>)"
    using assms by (intro readToken_punctuation) auto
  then show ?thesis using assms(3) by (auto simp: member_separator_def)
qed

text \<open>A member up to the separator after it, which is \<open>c\<close>.\<close>

lemma readObject_one:
  assumes l: "cur s = w1 @ in_quotes n @ w2 @ CHR '':'' # w3 @ t @ w4 @ c # l"
    and b: "blank w1" "string_body n name'" "blank w2" "blank w3" "blank w4"
    and v: "value_reads R t v" "vcomments v = no_comments"
    and m: "current_is s (Value (ObjectV m) cm)" "map_ok m" "uncommented m" and q: "quiet s"
    and k: "2 * length t + 1 \<le> k"
    and c: "(c, type) \<in> {(CHR ''}'', tokenObjectEnd), (CHR '','', tokenArraySeparator)}"
  shows "\<exists>s'. reads s s' l (Value (ObjectV (map_put (cstr name') v m)) cm)
    \<and> readObject_loop (Suc k) R name s
        = (if type = tokenObjectEnd then Some (True, s') else readObject_loop k R name' s')"
proof -
  let ?s = "s\<lparr>cur := w3 @ t @ w4 @ c # l\<rparr>"
  have e: "number_ends (w4 @ c # l)"
    using b(5) c by (intro blank_number_ends) (auto simp: number_char_def is_digit_def less_eq_char_nat)
  have s: "cur ?s = w3 @ t @ w4 @ c # l" "current_is ?s (Value (ObjectV m) cm)" "quiet ?s"
    using m(1) q by simp_all
  obtain s1 s2 where r: "at_current (resolveReference name') ?s = Some s1"
    "readValue k R (push_node (Named (cstr name')) s1) = Some (True, s2)"
    "reads ?s (pop_node s2) (w4 @ c # l) (Value (ObjectV (map_put (cstr name') v m)) cm)"
    using object_member [OF v s(1) b(4) e s(2) m(2,3) s(3) k, of name'] by blast
  have "cur (pop_node s2) = w4 @ c # l" using r(3) by (simp add: reads_def)
  from member_separator_token [OF this b(5) c] readObject_member [OF l b(1-3) r(1,2), of name]
  have "readObject_loop (Suc k) R name s
      = (if type = tokenObjectEnd then Some (True, (pop_node s2)\<lparr>cur := l\<rparr>)
         else readObject_loop k R name' ((pop_node s2)\<lparr>cur := l\<rparr>))"
    by simp
  moreover have "reads s ((pop_node s2)\<lparr>cur := l\<rparr>) l (Value (ObjectV (map_put (cstr name') v m)) cm)"
    using r(3) by (simp add: reads_def)
  ultimately show ?thesis by blast
qed

lemma members_read_one:
  assumes "blank w1" "string_body n name" "blank w2" "blank w3" "value_reads R t v" "vcomments v = no_comments" "blank w4"
  shows "members_read R (w1 @ in_quotes n @ w2 @ '':'' @ w3 @ t @ w4) [(name, v)]"
  unfolding members_read_def
proof (intro allI impI)
  fix s :: "'a reader" and rest m c name0 k
  assume l: "cur s = (w1 @ in_quotes n @ w2 @ '':'' @ w3 @ t @ w4) @ CHR ''}'' # rest"
    and m: "current_is s (Value (ObjectV m) c)" "map_ok m" "uncommented m" and q: "quiet s"
    and k: "2 * length (w1 @ in_quotes n @ w2 @ '':'' @ w3 @ t @ w4) + 1 \<le> k"
  obtain k' where k': "k = Suc k'" "2 * length t + 1 \<le> k'" using k by (cases k) (auto simp: in_quotes_def)
  have "cur s = w1 @ in_quotes n @ w2 @ CHR '':'' # w3 @ t @ w4 @ CHR ''}'' # rest" using l by simp
  from readObject_one [OF this assms(1-4,7,5,6) m q k'(2), of tokenObjectEnd name0]
  show "\<exists>s'. readObject_loop k R name0 s = Some (True, s') \<and> reads s s' rest (Value (ObjectV (put_members m [(name, v)])) c)"
    by (auto simp: k'(1) put_members_def)
qed

lemma members_read_more:
  assumes "blank w1" "string_body n name" "blank w2" "blank w3" "value_reads R t v" "vcomments v = no_comments" "blank w4"
    and "members_read R ts ms"
  shows "members_read R (w1 @ in_quotes n @ w2 @ '':'' @ w3 @ t @ w4 @ '','' @ ts) ((name, v) # ms)"
  unfolding members_read_def
proof (intro allI impI)
  fix s :: "'a reader" and rest m c name0 k
  assume l: "cur s = (w1 @ in_quotes n @ w2 @ '':'' @ w3 @ t @ w4 @ '','' @ ts) @ CHR ''}'' # rest"
    and m: "current_is s (Value (ObjectV m) c)" "map_ok m" "uncommented m" and q: "quiet s"
    and k: "2 * length (w1 @ in_quotes n @ w2 @ '':'' @ w3 @ t @ w4 @ '','' @ ts) + 1 \<le> k"
  let ?m = "map_put (cstr name) v m"
  obtain k' where k': "k = Suc k'" "2 * length t + 1 \<le> k'" "2 * length ts + 1 \<le> k'"
    using k by (cases k) (auto simp: in_quotes_def)
  have "cur s = w1 @ in_quotes n @ w2 @ CHR '':'' # w3 @ t @ w4 @ CHR '','' # ts @ CHR ''}'' # rest" using l by simp
  from readObject_one [OF this assms(1-4,7,5,6) m q k'(2), of tokenArraySeparator name0]
  obtain s1 where s1: "reads s s1 (ts @ CHR ''}'' # rest) (Value (ObjectV ?m) c)"
    and step: "readObject_loop k R name0 s = readObject_loop k' R name s1"
    by (auto simp: k'(1))
  have "cur s1 = ts @ CHR ''}'' # rest" using s1 by (simp add: reads_def)
  moreover have "current_is s1 (Value (ObjectV ?m) c)" by (rule reads_current [OF s1 m(1)])
  moreover have "map_ok ?m" "uncommented ?m" using m(2,3) assms(6) by (simp_all add: uncommented_put)
  moreover have "quiet s1" by (rule reads_quiet [OF s1 q])
  ultimately obtain s' where "readObject_loop k' R name s1 = Some (True, s')"
    "reads s1 s' rest (Value (ObjectV (put_members ?m ms)) c)"
    using assms(8) k'(3) unfolding members_read_def by blast
  then show "\<exists>s'. readObject_loop k R name0 s = Some (True, s')
      \<and> reads s s' rest (Value (ObjectV (put_members m ((name, v) # ms))) c)"
    using step reads_trans [OF s1] by (auto simp: put_members_def)
qed

text \<open>The bracket that opens an array or an object, and the state in which its loop starts.\<close>

lemma readValue_open:
  assumes "cur s = w @ b # l" and "blank w" and "(b, type) \<in> {(CHR ''{'', tokenObjectBegin), (CHR ''['', tokenArrayBegin)}"
    and "quiet s"
  shows "\<exists>token. token_type token = type \<and> skipCommentTokens s = Some (token, s\<lparr>cur := l\<rparr>)
    \<and> take_comments_before (s\<lparr>cur := l\<rparr>) = Some (s\<lparr>cur := l\<rparr>)"
proof -
  have "readToken s = Some (\<lparr>token_type = type, token_start = b # l, token_end = l\<rparr>, s\<lparr>cur := l\<rparr>)"
    using assms(1-3) by (intro readToken_punctuation) auto
  moreover have "type \<noteq> tokenComment" using assms(3) by auto
  ultimately show ?thesis using assms(4) by (auto simp: skipCommentTokens_other)
qed

definition entered :: "'r reader \<Rightarrow> location \<Rightarrow> 'r Value \<Rightarrow> 'r reader" where
  "entered s l v = s\<lparr>cur := l, root_value := upd_at (nodes s) (\<lambda>_. v) (root_value s)\<rparr>"

lemma entered_reads: "reads s (entered s l v) l v"
  by (simp add: reads_def entered_def)

lemma readValue_object:
  assumes "cur s = w @ CHR ''{'' # l" and "blank w" and "quiet s" and "current_is s cv"
    and "readObject_loop n R [] (entered s l (Value (ObjectV []) (vcomments cv))) = Some (True, s')"
    and "reads (entered s l (Value (ObjectV []) (vcomments cv))) s' rest v"
  shows "\<exists>s'. readValue (Suc n) R s = Some (True, s') \<and> reads s s' rest v"
proof -
  obtain token where "token_type token = tokenObjectBegin" "skipCommentTokens s = Some (token, s\<lparr>cur := l\<rparr>)"
    "take_comments_before (s\<lparr>cur := l\<rparr>) = Some (s\<lparr>cur := l\<rparr>)"
    using readValue_open [OF assms(1,2) _ assms(3), of tokenObjectBegin] by auto
  moreover have "set_current (Value_of_type R objectValue) (s\<lparr>cur := l\<rparr>) = Some (entered s l (Value (ObjectV []) (vcomments cv)))"
    using assms(4) by (simp add: set_current_simp [of _ cv] entered_def)
  ultimately have "readValue (Suc n) R s = Some (True, remember_value s')"
    using assms(5) by (simp add: readValue.simps(2))
  then show ?thesis using reads_trans [OF entered_reads assms(6)] by (simp add: reads_remember)
qed

lemma readValue_array:
  assumes "cur s = w @ CHR ''['' # l" and "blank w" and "quiet s" and "current_is s cv"
    and "\<not> is_space (peek (dropWhile is_space l))" and "peek (dropWhile is_space l) \<noteq> CHR '']''"
    and "readArray_loop n R 0 (entered s (dropWhile is_space l) (Value (ArrayV []) (vcomments cv))) = Some (True, s')"
    and "reads (entered s (dropWhile is_space l) (Value (ArrayV []) (vcomments cv))) s' rest v"
  shows "\<exists>s'. readValue (Suc n) R s = Some (True, s') \<and> reads s s' rest v"
proof -
  obtain token where "token_type token = tokenArrayBegin" "skipCommentTokens s = Some (token, s\<lparr>cur := l\<rparr>)"
    "take_comments_before (s\<lparr>cur := l\<rparr>) = Some (s\<lparr>cur := l\<rparr>)"
    using readValue_open [OF assms(1,2) _ assms(3), of tokenArrayBegin] by auto
  moreover have "set_current (Value_of_type R arrayValue) (s\<lparr>cur := l\<rparr>) = Some (entered s l (Value (ArrayV []) (vcomments cv)))"
    using assms(4) by (simp add: set_current_simp [of _ cv] entered_def)
  moreover have "skipSpaces (entered s l (Value (ArrayV []) (vcomments cv)))
      = entered s (dropWhile is_space l) (Value (ArrayV []) (vcomments cv))"
    by (simp add: skipSpaces_def entered_def)
  ultimately have "readValue (Suc n) R s = Some (True, remember_value s')"
    using assms(6,7) by (simp add: readValue.simps(2) entered_def)
  then show ?thesis using reads_trans [OF entered_reads assms(8)] by (simp add: reads_remember)
qed

lemma peek_append: "t \<noteq> [] \<Longrightarrow> peek (t @ l) = hd t"
  by (cases t) (simp_all add: peek_def)

lemma skip_to_value:
  assumes "json_value R t v" and "blank w"
  shows "dropWhile is_space (w @ t @ l) = t @ l"
proof (intro skip_blank assms(2) disjI2)
  show "\<not> is_space (hd (t @ l))"
    using json_value_start(1,3) [OF assms(1)] by (metis append_is_Nil_conv hd_append2 peek_append)
qed

text \<open>An array after its opening bracket and the blanks behind it.\<close>

definition array_reads :: "'r real_ops \<Rightarrow> string \<Rightarrow> 'r Value list \<Rightarrow> bool" where
  "array_reads R t vs \<longleftrightarrow>
     elements_read R t vs
     \<and> (\<exists>u. t \<noteq> [] \<and> length u \<le> length t \<and> (\<forall>l. dropWhile is_space (t @ l) = u @ l \<and> \<not> is_space (peek (u @ l))
          \<and> peek (u @ l) \<noteq> CHR '']'') \<and> elements_read R u vs)"

lemma array_reads_one:
  assumes "blank w1" "json_value R t v" "value_reads R t v" "blank w2"
  shows "array_reads R (w1 @ t @ w2) [v]"
proof -
  note c = json_value_comments [OF assms(2)]
  have "elements_read R (w1 @ t @ w2) [v]" "elements_read R ([] @ t @ w2) [v]"
    using elements_read_one [OF assms(1,3) c assms(4)] elements_read_one [OF _ assms(3) c assms(4), of "[]"]
    by (simp_all add: blank_def)
  moreover have "dropWhile is_space ((w1 @ t @ w2) @ l) = (t @ w2) @ l" "\<not> is_space (peek ((t @ w2) @ l))"
    "peek ((t @ w2) @ l) \<noteq> CHR '']''" for l
    using skip_to_value [OF assms(2,1), of "w2 @ l"] json_value_start(2,3) [OF assms(2), of "w2 @ l"] by simp_all
  ultimately show ?thesis
    unfolding array_reads_def using json_value_start(1) [OF assms(2)] by (intro conjI exI [of _ "t @ w2"]) auto
qed

lemma array_reads_more:
  assumes "blank w1" "json_value R t v" "value_reads R t v" "blank w2" "array_reads R ts vs"
  shows "array_reads R (w1 @ t @ w2 @ '','' @ ts) (v # vs)"
proof -
  note c = json_value_comments [OF assms(2)]
  have e: "elements_read R ts vs" using assms(5) by (simp add: array_reads_def)
  have "elements_read R (w1 @ t @ w2 @ '','' @ ts) (v # vs)" "elements_read R ([] @ t @ w2 @ '','' @ ts) (v # vs)"
    using elements_read_more [OF assms(1,3) c assms(4) e] elements_read_more [OF _ assms(3) c assms(4) e, of "[]"]
    by (simp_all add: blank_def)
  moreover have "dropWhile is_space ((w1 @ t @ w2 @ '','' @ ts) @ l) = (t @ w2 @ '','' @ ts) @ l"
    "\<not> is_space (peek ((t @ w2 @ '','' @ ts) @ l))" "peek ((t @ w2 @ '','' @ ts) @ l) \<noteq> CHR '']''" for l
    using skip_to_value [OF assms(2,1), of "w2 @ '','' @ ts @ l"] json_value_start(2,3) [OF assms(2), of "w2 @ '','' @ ts @ l"]
    by simp_all
  ultimately show ?thesis
    unfolding array_reads_def by (intro conjI exI [of _ "t @ w2 @ '','' @ ts"]) auto
qed

lemma value_reads_array:
  assumes "array_reads R t vs" and "length vs < 2 ^ 31"
  shows "value_reads R (''['' @ t @ '']'') (array_of vs)"
  unfolding value_reads_def
proof (intro allI impI)
  fix s :: "'a reader" and w rest cv n
  assume s: "cur s = w @ (''['' @ t @ '']'') @ rest" "blank w" "current_is s cv" "quiet s"
    and n: "2 * length (''['' @ t @ '']'') + 1 \<le> n"
  obtain u where u: "length u \<le> length t" "elements_read R u vs"
    "\<And>l. dropWhile is_space (t @ l) = u @ l" "\<And>l. \<not> is_space (peek (u @ l))" "\<And>l. peek (u @ l) \<noteq> CHR '']''"
    using assms(1) unfolding array_reads_def by blast
  let ?l = "u @ CHR '']'' # rest" and ?v = "Value (ArrayV []) (vcomments cv)"
  obtain k where k: "n = Suc k" "2 * length u + 2 \<le> k" using n u(1) by (cases n) auto
  have d: "dropWhile is_space (t @ CHR '']'' # rest) = ?l" by (rule u(3))
  have e: "current_is (entered s ?l ?v) ?v" by (rule reads_current [OF entered_reads s(3)])
  have q: "quiet (entered s ?l ?v)" by (rule reads_quiet [OF entered_reads s(4)])
  have c: "cur (entered s ?l ?v) = ?l" by (simp add: entered_def)
  have i: "map fst ([] :: (int \<times> 'a Value) list) = map int [0..<0]" "0 + length vs < 2 ^ 31" using assms(2) by simp_all
  obtain s' where s': "readArray_loop k R (of_nat 0) (entered s ?l ?v) = Some (True, s')"
    "reads (entered s ?l ?v) s' rest (Value (ArrayV ([] @ zip (map int [0..<0 + length vs]) vs)) (vcomments cv))"
    using u(2) [unfolded elements_read_def, rule_format, OF c e i q k(2)] by blast
  have "cur s = w @ CHR ''['' # t @ CHR '']'' # rest" using s(1) by simp
  from readValue_array [OF this s(2,4,3), unfolded d, OF u(4,5), of k R s' rest "Value (vdata (array_of vs)) (vcomments cv)"] s'
  show "\<exists>s'. readValue n R s = Some (True, s') \<and> reads s s' rest (Value (vdata (array_of vs)) (vcomments cv))"
    by (simp add: k(1) array_of_def)
qed

lemma value_reads_object:
  assumes "members_read R t ms"
  shows "value_reads R (''{'' @ t @ ''}'') (object_of ms)"
  unfolding value_reads_def
proof (intro allI impI)
  fix s :: "'a reader" and w rest cv n
  assume s: "cur s = w @ (''{'' @ t @ ''}'') @ rest" "blank w" "current_is s cv" "quiet s"
    and n: "2 * length (''{'' @ t @ ''}'') + 1 \<le> n"
  let ?l = "t @ CHR ''}'' # rest" and ?v = "Value (ObjectV []) (vcomments cv)"
  obtain k where k: "n = Suc k" "2 * length t + 1 \<le> k" using n by (cases n) auto
  have e: "current_is (entered s ?l ?v) ?v" by (rule reads_current [OF entered_reads s(3)])
  have "quiet (entered s ?l ?v)" by (rule reads_quiet [OF entered_reads s(4)])
  moreover have "cur (entered s ?l ?v) = ?l" by (simp add: entered_def)
  moreover have "map_ok []" "uncommented []" by (simp_all add: map_ok_def uncommented_def)
  ultimately obtain s' where s': "readObject_loop k R [] (entered s ?l ?v) = Some (True, s')"
    "reads (entered s ?l ?v) s' rest (Value (ObjectV (put_members [] ms)) (vcomments cv))"
    using assms e k(2) unfolding members_read_def by blast
  have "cur s = w @ CHR ''{'' # t @ CHR ''}'' # rest" using s(1) by simp
  from readValue_object [OF this s(2,4,3) s'(1) s'(2)]
  show "\<exists>s'. readValue n R s = Some (True, s') \<and> reads s s' rest (Value (vdata (object_of ms)) (vcomments cv))"
    by (simp add: k(1) object_of_def put_members_def)
qed

lemma value_reads_empty_array:
  assumes "blank u"
  shows "value_reads R (''['' @ u @ '']'') (array_of [])"
  unfolding value_reads_def
proof (intro allI impI)
  fix s :: "'a reader" and w rest cv n
  assume s: "cur s = w @ (''['' @ u @ '']'') @ rest" "blank w" "current_is s cv" "quiet s"
    and n: "2 * length (''['' @ u @ '']'') + 1 \<le> n"
  let ?v = "Value (ArrayV []) (vcomments cv)" and ?l = "u @ CHR '']'' # rest"
  obtain k where k: "n = Suc k" using n by (cases n) auto
  obtain token where tok: "token_type token = tokenArrayBegin" "skipCommentTokens s = Some (token, s\<lparr>cur := ?l\<rparr>)"
    "take_comments_before (s\<lparr>cur := ?l\<rparr>) = Some (s\<lparr>cur := ?l\<rparr>)"
    using readValue_open [of s w "CHR ''[''" ?l tokenArrayBegin] s(1,2,4) by auto
  have set: "set_current (Value_of_type R arrayValue) (s\<lparr>cur := ?l\<rparr>) = Some (entered s ?l ?v)"
    using s(3) by (simp add: set_current_simp [of _ cv] entered_def)
  have d: "dropWhile is_space ?l = CHR '']'' # rest" using assms by (intro skip_blank) (auto simp: is_space_def)
  have "readToken (skipSpaces (entered s ?l ?v))
      = Some (\<lparr>token_type = tokenArrayEnd, token_start = CHR '']'' # rest, token_end = rest\<rparr>, entered s rest ?v)"
    using readToken_punctuation [of "skipSpaces (entered s ?l ?v)" "[]" "CHR '']''" rest tokenArrayEnd] d
    by (simp add: skipSpaces_def entered_def blank_def)
  then have "readValue n R s = Some (True, remember_value (entered s rest ?v))"
    using tok set d by (simp add: k readValue.simps(2) skipSpaces_def entered_def peek_def)
  then show "\<exists>s'. readValue n R s = Some (True, s') \<and> reads s s' rest (Value (vdata (array_of [])) (vcomments cv))"
    by (simp add: reads_remember entered_reads array_of_def)
qed

lemma value_reads_empty_object:
  assumes "blank u"
  shows "value_reads R (''{'' @ u @ ''}'') (object_of [])"
  unfolding value_reads_def
proof (intro allI impI)
  fix s :: "'a reader" and w rest cv n
  assume s: "cur s = w @ (''{'' @ u @ ''}'') @ rest" "blank w" "current_is s cv" "quiet s"
    and n: "2 * length (''{'' @ u @ ''}'') + 1 \<le> n"
  let ?v = "Value (ObjectV []) (vcomments cv)" and ?l = "u @ CHR ''}'' # rest"
  obtain k where k: "n = Suc (Suc k)" using n by (cases n; cases "n - 1") auto
  have "next_token (entered s ?l ?v)
      = Some (\<lparr>token_type = tokenObjectEnd, token_start = CHR ''}'' # rest, token_end = rest\<rparr>, entered s rest ?v)"
    using next_token_punctuation [of "entered s ?l ?v" u "CHR ''}''" rest tokenObjectEnd] assms by (simp add: entered_def)
  then have "readObject_loop (Suc k) R [] (entered s ?l ?v) = Some (True, entered s rest ?v)"
    by (simp add: readObject_loop.simps(2))
  moreover have "reads (entered s ?l ?v) (entered s rest ?v) rest ?v" by (simp add: reads_def entered_def)
  moreover have "cur s = w @ CHR ''{'' # ?l" using s(1) by simp
  ultimately show "\<exists>s'. readValue n R s = Some (True, s') \<and> reads s s' rest (Value (vdata (object_of [])) (vcomments cv))"
    using readValue_object [of s w ?l cv "Suc k" R "entered s rest ?v" rest ?v] s(2-4) by (simp add: k object_of_def)
qed

lemma reads_here:
  "current_is s cv \<Longrightarrow> set_current w (s\<lparr>cur := l\<rparr>)
    = Some (entered s l (Value (vdata w) (vcomments cv)))"
  by (simp add: set_current_simp [of _ cv] entered_def)

lemma value_reads_word:
  assumes "(t, type, w) \<in> {(''true'', tokenTrue, Value_bool True), (''false'', tokenFalse, Value_bool False),
    (''null'', tokenNull, fresh_value NullV)}"
  shows "value_reads R t w"
  unfolding value_reads_def
proof (intro allI impI)
  fix s :: "'a reader" and u rest cv n
  assume s: "cur s = u @ t @ rest" "blank u" "current_is s cv" "quiet s" "2 * length t + 1 \<le> n"
  have tok: "readToken s = Some (\<lparr>token_type = type, token_start = t @ rest, token_end = rest\<rparr>, s\<lparr>cur := rest\<rparr>)"
    using assms by (intro readToken_word [OF s(1,2)]) auto
  have set: "set_current w (s\<lparr>cur := rest\<rparr>) = Some (entered s rest (Value (vdata w) (vcomments cv)))"
    by (rule reads_here [OF s(3)])
  show "\<exists>s'. readValue n R s = Some (True, s') \<and> reads s s' rest (Value (vdata w) (vcomments cv))"
    by (rule readValue_scalar [OF tok refl s(4) _ _ _ _ _ _ _ entered_reads]) (use s(5) set assms in auto)
qed

lemma value_reads_number:
  assumes "number_text R t d"
  shows "value_reads R t (fresh_value d)"
  unfolding value_reads_def
proof (intro allI impI)
  fix s :: "'a reader" and u rest cv n
  assume s: "cur s = u @ t @ rest" "blank u" "number_ends rest" "current_is s cv" "quiet s" "2 * length t + 1 \<le> n"
  note tok = readToken_number [OF s(1,2) assms s(3)]
  have num: "decodeNumber R \<lparr>token_type = tokenNumber, token_start = t @ rest, token_end = rest\<rparr> (s\<lparr>cur := rest\<rparr>)
      = Some (True, entered s rest (Value d (vcomments cv)))"
    using decodeNumber_text [OF assms, of "s\<lparr>cur := rest\<rparr>" cv] s(4) by (simp add: entered_def)
  show "\<exists>s'. readValue n R s = Some (True, s') \<and> reads s s' rest (Value (vdata (fresh_value d)) (vcomments cv))"
    by (rule readValue_scalar [OF tok refl s(5) _ _ _ _ _ _ _ entered_reads]) (use s(6) num in auto)
qed

lemma value_reads_string:
  assumes "string_body t str"
  shows "value_reads R (in_quotes t) (Value_string str)"
  unfolding value_reads_def
proof (intro allI impI)
  fix s :: "'a reader" and u rest cv n
  assume s: "cur s = u @ in_quotes t @ rest" "blank u" "current_is s cv" "quiet s" "2 * length (in_quotes t) + 1 \<le> n"
  note tok = readToken_string [OF s(1,2) assms]
  have str: "decodeString_value \<lparr>token_type = tokenString, token_start = in_quotes t @ rest, token_end = rest\<rparr> (s\<lparr>cur := rest\<rparr>)
      = Some (True, entered s rest (Value (vdata (Value_string str)) (vcomments cv)))"
    by (simp add: decodeString_value_def decodeString_token [OF assms] reads_here [OF s(3)])
  show "\<exists>s'. readValue n R s = Some (True, s') \<and> reads s s' rest (Value (vdata (Value_string str)) (vcomments cv))"
    by (rule readValue_scalar [OF tok refl s(4) _ _ _ _ _ _ _ entered_reads]) (use s(5) str in auto)
qed

lemma json_reads:
  "json_value R t v \<Longrightarrow> value_reads R t v"
  "json_elements R t vs \<Longrightarrow> array_reads R t vs"
  "json_members R t ms \<Longrightarrow> members_read R t ms"
proof (induction rule: json_value_json_elements_json_members.inducts)
  case null
  then show ?case by (rule value_reads_word) simp
next
  case true
  then show ?case by (intro value_reads_word [of _ tokenTrue]) (simp add: Value_bool_def)
next
  case false
  then show ?case by (intro value_reads_word [of _ tokenFalse]) (simp add: Value_bool_def)
next
  case (one_member w1 n name w2 w3 t v w4)
  then show ?case by (intro members_read_one) (auto intro: json_value_comments)
next
  case (members w1 n name w2 w3 t v w4 ts ms)
  then show ?case by (intro members_read_more) (auto intro: json_value_comments)
qed (rule value_reads_number value_reads_string value_reads_empty_array value_reads_array value_reads_empty_object
    value_reads_object array_reads_one array_reads_more; assumption)+

section \<open>Documents\<close>

lemma number_ends_blank: "blank w \<Longrightarrow> number_ends w"
  by (cases w) (auto simp: number_ends_def blank_def is_space_def number_char_def is_digit_def less_eq_char_nat)

lemma readToken_end:
  assumes "blank (cur s)"
  shows "readToken s = Some (\<lparr>token_type = tokenEndOfStream, token_start = [], token_end = []\<rparr>, s\<lparr>cur := []\<rparr>)"
proof -
  have "dropWhile is_space (cur s) = []" using assms by (simp add: blank_def list_all_iff)
  then have "skipSpaces s = s\<lparr>cur := []\<rparr>" by (simp add: skipSpaces_def)
  then show ?thesis
    by (simp add: readToken_def getNextChar_def scan_token_def is_digit_def less_eq_char_nat)
qed

lemma skip_bom_text:
  assumes "bom = [] \<or> bom = BOM" and "l \<noteq> []" and "hd l \<noteq> CHR 0xEF"
  shows "skip_bom (bom @ l) = l"
proof (cases "bom = []")
  case True
  have "take 3 l \<noteq> BOM" using assms(2,3) by (cases l) (auto simp: BOM_def)
  then show ?thesis using True by (simp add: skip_bom_def)
next
  case False
  then show ?thesis using assms(1) by (simp add: skip_bom_def BOM_def)
qed

lemma json_text_start:
  assumes "json_value R t v" and "blank w1"
  shows "w1 @ t @ w2 \<noteq> []" and "hd (w1 @ t @ w2) \<noteq> CHR 0xEF"
proof -
  have t: "t \<noteq> []" by (rule json_value_start(1) [OF assms(1)])
  then show "w1 @ t @ w2 \<noteq> []" by simp
  have "hd t \<noteq> CHR 0xEF"
    using assms(1)
  proof cases
    case (number d)
    then show ?thesis using number_text_start(2) [of R t d] by (auto simp: is_digit_def less_eq_char_nat)
  qed (auto simp: in_quotes_def)
  moreover have "w1 \<noteq> [] \<Longrightarrow> is_space (hd w1)" using assms(2) by (cases w1) (auto simp: blank_def)
  ultimately show "hd (w1 @ t @ w2) \<noteq> CHR 0xEF" using t by (cases w1) (auto simp: is_space_def)
qed

lemma parse_text:
  assumes "json_value R t v" and "blank w1" and "blank w2" and "bom = [] \<or> bom = BOM"
    and "strictRoot f \<longrightarrow> isArray v \<or> isObject v"
  shows "\<exists>s. parse R f (bom @ w1 @ t @ w2) v0 collect = Some (True, s)
    \<and> root_value s = Value (vdata v) (vcomments v0) \<and> errors s = []"
proof -
  define s0 where "s0 = start_reading f collect (w1 @ t @ w2) v0"
  have bom: "skip_bom (bom @ w1 @ t @ w2) = w1 @ t @ w2"
    by (rule skip_bom_text [OF assms(4) json_text_start [OF assms(1,2)]])
  have s0: "cur s0 = w1 @ t @ w2" "current_is s0 v0" "quiet s0" "errors s0 = []" "features s0 = f" "nodes s0 = []"
    by (simp_all add: s0_def start_reading_def quiet_def)
  have n: "2 * length t + 1 \<le> 2 * length (cur s0) + 1" by (simp add: s0(1))
  obtain s1 where s1: "readValue (2 * length (cur s0) + 1) R s0 = Some (True, s1)"
    "reads s0 s1 w2 (Value (vdata v) (vcomments v0))"
    using value_readsD [OF json_reads(1) [OF assms(1)] s0(1) assms(2) number_ends_blank [OF assms(3)] s0(2,3) n] by blast
  have q: "quiet s1" "errors s1 = []" "features s1 = f" "cur s1 = w2" "root_value s1 = Value (vdata v) (vcomments v0)"
    using s1(2) reads_quiet [OF s1(2) s0(3)] s0 by (simp_all add: reads_def)
  have skip: "skipCommentTokens s1
      = Some (\<lparr>token_type = tokenEndOfStream, token_start = [], token_end = []\<rparr>, s1\<lparr>cur := []\<rparr>)"
    using readToken_end [of s1] q(4) assms(3) by (intro skipCommentTokens_other) auto
  have root: "isArray (Value (vdata v) (vcomments v0)) = isArray v" "isObject (Value (vdata v) (vcomments v0)) = isObject v"
    by (simp_all add: isArray_def isObject_def vtype_def)
  have "parse R f (bom @ w1 @ t @ w2) v0 collect = Some (True, s1\<lparr>cur := []\<rparr>)"
    using q assms(5) s1(1) by (auto simp: parse_def bom s0_def [symmetric] parse_from_def skip root quiet_def)
  then show ?thesis using q by auto
qed

end
