(* ===== verification/Json_RoundTrip.thy ===== *)
theory Json_RoundTrip
  imports Json_Accepts
begin

text \<open>
  What the writers write is a text of the grammar that stands for the value written, so the reader gives it
  back: the round trips of \<open>FastWriter\<close>, of \<open>StyledWriter\<close> in both forms and of \<open>StyledStreamWriter\<close>.
\<close>

section \<open>Values that survive\<close>

text \<open>
  The values the writers and the reader agree on. Beyond the ranges the reader makes a \<open>double\<close> of an integer;
  an unsigned integer in the signed range is read as a signed one; a text ends at its first zero byte; an
  array has an element at every index. The first argument bounds the length of the arrays.
\<close>

definition real_survives :: "'r real_ops \<Rightarrow> 'r \<Rightarrow> bool" where
  "real_survives R x \<longleftrightarrow>
     (let t = valueToString_double R x in
      t \<noteq> [] \<and> (is_digit (hd t) \<or> hd t = CHR ''-'') \<and> list_all number_char t \<and> double_text t \<and> length t \<noteq> 32
      \<and> r_scan R t = Some x)"

definition no_zero :: "string \<Rightarrow> bool" where
  "no_zero s \<longleftrightarrow> list_all (\<lambda>c. c \<noteq> CHR 0x00) s"

fun survives :: "nat \<Rightarrow> 'r real_ops \<Rightarrow> 'r Value \<Rightarrow> bool" where
  "survives n R (Value NullV c) = True"
| "survives n R (Value (IntV i) c) = (- 2147483640 < sint i)"
| "survives n R (Value (UIntV u) c) = (2147483648 \<le> unat u \<and> unat u < 4294967290)"
| "survives n R (Value (RealV x) c) = real_survives R x"
| "survives n R (Value (StringV s) c) = (case s of None \<Rightarrow> False | Some t \<Rightarrow> no_zero t)"
| "survives n R (Value (BoolV b) c) = True"
| "survives n R (Value (ArrayV m) c) =
     (map fst m = map int [0..<length m] \<and> length m \<le> n \<and> list_all (\<lambda>(k, v). survives n R v) m)"
| "survives n R (Value (ObjectV m) c) = (map_ok m \<and> length m < 2 ^ 32 \<and> list_all (\<lambda>(k, v). no_zero k \<and> survives n R v) m)"

fun strip :: "'r Value \<Rightarrow> 'r Value" where
  "strip (Value (ArrayV m) c) = Value (ArrayV (map (\<lambda>(k, v). (k, strip v)) m)) no_comments"
| "strip (Value (ObjectV m) c) = Value (ObjectV (map (\<lambda>(k, v). (k, strip v)) m)) no_comments"
| "strip (Value d c) = Value d no_comments"

section \<open>Scalars\<close>

lemma decimal_value_snoc: "decimal_value (ds @ [d]) = decimal_value ds * 10 + digit_nat d"
  by (simp add: decimal_value_def)

lemma digit_char_ok: "n < 10 \<Longrightarrow> is_digit (digit_char n)" "n < 10 \<Longrightarrow> digit_nat (digit_char n) = n"
  by (simp_all add: digit_char_def is_digit_def digit_nat_def less_eq_char_nat)

lemma uintToString_step:
  "uintToString v l = (if v div 10 = 0 then digit_char (unat (v mod 10)) # l
    else uintToString (v div 10) (digit_char (unat (v mod 10)) # l))"
  by (simp add: uintToString.simps [of v] Let_def)

lemma unat_div_less: "v div 10 \<noteq> 0 \<Longrightarrow> unat (v div 10) < unat (v :: 32 word)"
proof -
  assume "v div 10 \<noteq> 0"
  then have "unat (v div 10) \<noteq> 0" by (metis unat_eq_zero)
  then show ?thesis by (simp add: unat_div)
qed

lemma uintToString_acc: "uintToString v l = uintToString v [] @ l"
proof (induction "unat v" arbitrary: v l rule: less_induct)
  case less
  show ?case
  proof (cases "v div 10 = 0")
    case True
    then show ?thesis by (simp add: uintToString_step [of v])
  next
    case False
    note IH = less [OF unat_div_less [OF False]]
    have "uintToString v l = uintToString (v div 10) [] @ digit_char (unat (v mod 10)) # l"
      using False IH [of "digit_char (unat (v mod 10)) # l"] by (simp add: uintToString_step [of v])
    moreover have "uintToString v [] = uintToString (v div 10) [] @ [digit_char (unat (v mod 10))]"
      using False IH [of "[digit_char (unat (v mod 10))]"] by (simp add: uintToString_step [of v])
    ultimately show ?thesis by simp
  qed
qed

lemma uintToString_snoc:
  "uintToString v [] = (if v div 10 = 0 then [] else uintToString (v div 10) []) @ [digit_char (unat (v mod 10))]"
  using uintToString_acc [of "v div 10" "[digit_char (unat (v mod 10))]"] by (simp add: uintToString_step [of v])

lemma uintToString_decimal: "digits (uintToString v [])" "decimal_value (uintToString v []) = unat v"
proof -
  have "digits (uintToString v []) \<and> decimal_value (uintToString v []) = unat v"
  proof (induction "unat v" arbitrary: v rule: less_induct)
    case less
    have m: "unat (v mod 10) < 10" "unat (v mod 10) = unat v mod 10" by (simp_all add: unat_mod)
    show ?case
    proof (cases "v div 10 = 0")
      case True
      then have "unat (v div 10) = 0" by simp
      then have "unat v div 10 = 0" by (simp add: unat_div)
      then show ?thesis
        using True m by (simp add: uintToString_snoc [of v] digits_def digit_char_ok decimal_value_def)
    next
      case False
      have "digits (uintToString (v div 10) [])" "decimal_value (uintToString (v div 10) []) = unat v div 10"
        using less [OF unat_div_less [OF False]] by (simp_all add: unat_div)
      then show ?thesis
        using False m by (simp add: uintToString_snoc [of v] digits_def digit_char_ok decimal_value_snoc)
    qed
  qed
  then show "digits (uintToString v [])" "decimal_value (uintToString v []) = unat v" by simp_all
qed

lemma unat_of_int: "w = word_of_int k \<Longrightarrow> 0 \<le> k \<Longrightarrow> k < 2 ^ 32 \<Longrightarrow> unat (w :: 32 word) = nat k"
  by (simp add: unat_eq_nat_uint uint_word_of_int_eq take_bit_int_eq_self)

lemma Int_text:
  assumes "- 2147483640 < sint i"
  shows "\<exists>t. valueToString_Int i = Some t \<and> number_text R t (IntV i)"
proof (cases "sint i < 0")
  case False
  have "sint i < 2 ^ 31" using sint_lt [of i] by simp
  then have "unat i < 2147483648" using False unat_of_int [of i "sint i"] by simp
  then show ?thesis
    using False number_text.natural [OF uintToString_decimal(1), of i R]
    by (simp add: valueToString_Int_def uintToString_decimal)
next
  case True
  have "unat (- i) = nat (- sint i)" using True assms by (intro unat_of_int) simp_all
  then have "unat (- i) < 2147483640" using assms True by simp
  then show ?thesis
    using True assms number_text.negative [OF uintToString_decimal(1), of "- i" R]
    by (simp add: valueToString_Int_def uintToString_decimal minInt_def)
qed

lemma UInt_text: "2147483648 \<le> unat u \<Longrightarrow> unat u < 4294967290 \<Longrightarrow> number_text R (valueToString_UInt u) (UIntV u)"
  using number_text.unsigned [OF uintToString_decimal(1), of u R] by (simp add: valueToString_UInt_def uintToString_decimal)

lemma real_text: "real_survives R x \<Longrightarrow> number_text R (valueToString_double R x) (RealV x)"
  by (auto simp: real_survives_def Let_def intro: number_text.real)

lemma hex_char_ok: "n < 16 \<Longrightarrow> is_hex (hex_char n) \<and> hex_nat (hex_char n) = n"
  by (auto simp: is_hex_def hex_nat_def hex_char_def is_digit_def less_eq_char_nat)

lemma hex4_ok: "four_hex (hex4 n)" "n < 65536 \<Longrightarrow> hex_number (hex4 n) = n"
proof -
  show "four_hex (hex4 n)" by (simp add: four_hex_def hex4_def hex_char_ok)
  assume "n < 65536"
  then have 1: "n div 4096 mod 16 = n div 4096" by (simp add: less_mult_imp_div_less)
  have 2: "n div 4096 = n div 256 div 16" "n div 256 = n div 16 div 16" by (simp_all add: div_mult2_eq [symmetric])
  have 3: "n div 256 div 16 * 16 + n div 256 mod 16 = n div 256" "n div 16 div 16 * 16 + n div 16 mod 16 = n div 16"
    "n div 16 * 16 + n mod 16 = n"
    by (rule div_mult_mod_eq)+
  have "hex_number (hex4 n)
      = ((n div 4096 mod 16 * 16 + n div 256 mod 16) * 16 + n div 16 mod 16) * 16 + n mod 16"
    by (simp add: hex_number_def hex4_def hex_char_ok)
  also have "\<dots> = n"
    unfolding 1 unfolding 2(1) unfolding 3(1) unfolding 2(2) unfolding 3(2) by (rule 3(3))
  finally show "hex_number (hex4 n) = n" .
qed

lemma quote_char_body:
  assumes "string_body t s" and "c \<noteq> CHR 0x00"
  shows "string_body (quote_char c @ t) (c # s)"
proof (cases "needs_quoting c")
  case True
  then have "c \<in> {CHR 0x22, CHR 0x5C, CHR 0x08, CHR 0x0C, CHR 0x0A, CHR 0x0D, CHR 0x09}"
    by (simp only: needs_quoting_def)
  then have "\<exists>e. quote_char c = [CHR 0x5C, e] \<and> simple_escape e = Some c"
    by (elim insertE emptyE) (simp_all add: quote_char_def simple_escape_def)
  then show ?thesis using string_body.escape [OF _ assms(1)] by auto
next
  case False
  then have n: "c \<noteq> CHR 0x22" "c \<noteq> CHR 0x5C" "c \<noteq> CHR 0x08" "c \<noteq> CHR 0x0C" "c \<noteq> CHR 0x0A" "c \<noteq> CHR 0x0D" "c \<noteq> CHR 0x09"
    by (simp_all add: needs_quoting_def)
  show ?thesis
  proof (cases "isControlCharacter c")
    case True
    then have c: "(of_char c :: nat) \<le> 0x1F" by (simp add: isControlCharacter_def)
    then have "hex_number (hex4 (of_char c)) = of_char c" by (intro hex4_ok) simp
    then show ?thesis
      using n True c string_body.unicode [OF hex4_ok(1) _ assms(1), of "of_char c"]
      by (simp add: quote_char_def utf8_encode_def)
  next
    case False
    then show ?thesis using n string_body.plain [OF _ _ assms(1), of c] by (simp add: quote_char_def)
  qed
qed

lemma quoted_text:
  assumes "no_zero s"
  shows "\<exists>t. valueToQuotedString s = in_quotes t \<and> string_body t s"
proof -
  have c: "cstr s = s" using assms by (simp add: no_zero_def cstr_def takeWhile_eq_all_conv list_all_iff)
  have body: "string_body (concat (map quote_char s)) s"
    using assms by (induction s) (auto simp: no_zero_def intro: string_body.nothing quote_char_body)
  have plain: "string_body s s" if "\<not> list_ex needs_quoting s"
    using that by (induction s) (auto simp: needs_quoting_def intro: string_body.intros)
  show ?thesis using body plain by (auto simp: valueToQuotedString_def c in_quotes_def Let_def)
qed

lemma quoted_simple: "valueToQuotedStringSimple = valueToQuotedString"
  by (intro ext) (simp add: valueToQuotedString_def valueToQuotedStringSimple_def)

section \<open>Lists of elements and members\<close>

definition join :: "string list \<Rightarrow> string" where
  "join ts = (case ts of [] \<Rightarrow> [] | t # ts \<Rightarrow> t @ concat (map (\<lambda>t. CHR '','' # t) ts))"

lemma join_simps [simp]: "join [] = []" "join [t] = t" "join (t # u # ts) = t @ CHR '','' # join (u # ts)"
  by (simp_all add: join_def)

definition element_text :: "'r real_ops \<Rightarrow> string \<Rightarrow> 'r Value \<Rightarrow> bool" where
  "element_text R u v \<longleftrightarrow> (\<exists>w1 t w2. u = w1 @ t @ w2 \<and> blank w1 \<and> blank w2 \<and> json_value R t v)"

definition member_text :: "'r real_ops \<Rightarrow> string \<Rightarrow> string \<times> 'r Value \<Rightarrow> bool" where
  "member_text R u e \<longleftrightarrow>
     (\<exists>w1 n w2 w3 t w4. u = w1 @ in_quotes n @ w2 @ '':'' @ w3 @ t @ w4 \<and> blank w1 \<and> blank w2 \<and> blank w3 \<and> blank w4
        \<and> string_body n (fst e) \<and> json_value R t (snd e))"

lemma json_elements_join: "list_all2 (element_text R) us vs \<Longrightarrow> us \<noteq> [] \<Longrightarrow> json_elements R (join us) vs"
proof (induction us vs rule: list_all2_induct)
  case (Cons u us v vs)
  obtain w1 t w2 where u: "u = w1 @ t @ w2" "blank w1" "blank w2" "json_value R t v"
    using Cons(1) by (auto simp: element_text_def)
  show ?case
  proof (cases us)
    case Nil
    then show ?thesis using Cons(2) u by (auto intro: one_element)
  next
    case (Cons u' us')
    then show ?thesis using elements [OF u(2,4,3)] Cons.IH u(1) by auto
  qed
qed simp

lemma json_members_join: "list_all2 (member_text R) us ms \<Longrightarrow> us \<noteq> [] \<Longrightarrow> json_members R (join us) ms"
proof (induction us ms rule: list_all2_induct)
  case (Cons u us e ms)
  obtain w1 n w2 w3 t w4 where u: "u = w1 @ in_quotes n @ w2 @ '':'' @ w3 @ t @ w4"
    "blank w1" "string_body n (fst e)" "blank w2" "blank w3" "json_value R t (snd e)" "blank w4"
    using Cons(1) by (auto simp: member_text_def)
  have e: "e = (fst e, snd e)" by simp
  show ?case
  proof (cases us)
    case Nil
    then have "ms = []" using Cons(2) by simp
    then show ?thesis using Nil one_member [OF u(2-7)] u(1) by simp
  next
    case (Cons u' us')
    then show ?thesis using members [OF u(2-7)] Cons.IH u(1) by simp
  qed
qed simp

lemma put_members_sorted:
  assumes "sorted_wrt (<) (map fst (m @ ms))" and "list_all (\<lambda>(n, v). cstr n = n) ms"
  shows "foldl (\<lambda>m (n, v). map_put (cstr n) v m) m ms = m @ ms"
  using assms
proof (induction ms arbitrary: m)
  case (Cons e ms)
  have "map_put (cstr (fst e)) (snd e) m = m @ [e]"
    using Cons.prems by (subst map_put_end) (auto simp: sorted_wrt_append)
  then show ?case using Cons.IH [of "m @ [e]"] Cons.prems by (cases e) auto
qed simp

lemma cstr_no_zero: "no_zero n \<Longrightarrow> cstr n = n"
  by (simp add: no_zero_def cstr_def takeWhile_eq_all_conv list_all_iff)

lemma object_of_sorted:
  assumes "map_ok m" and "list_all (\<lambda>(n, v). no_zero n) m"
  shows "object_of m = fresh_value (ObjectV m)"
proof -
  have "list_all (\<lambda>(n, v). cstr n = n) m" using assms(2) by (auto simp: list_all_iff cstr_no_zero)
  then show ?thesis using put_members_sorted [of "[]" m] assms(1) by (simp add: object_of_def map_ok_def)
qed

lemma array_of_indexed: "map fst m = map int [0..<length m] \<Longrightarrow> array_of (map snd m) = fresh_value (ArrayV m)"
  by (metis array_of_def length_map zip_map_fst_snd)

lemma map_ok_map [simp]: "map_ok (map (\<lambda>(k, v). (k, f v)) m) = map_ok m"
  by (simp add: map_ok_def comp_def case_prod_beta')

lemma strip_array_of:
  assumes "map fst m = map int [0..<length m]"
  shows "strip (Value (ArrayV m) c) = array_of (map (strip \<circ> snd) m)"
proof -
  have "array_of (map snd (map (\<lambda>(k, v). (k, strip v)) m)) = fresh_value (ArrayV (map (\<lambda>(k, v). (k, strip v)) m))"
    by (rule array_of_indexed) (simp add: assms [symmetric] case_prod_beta' comp_def)
  then show ?thesis by (simp add: comp_def case_prod_beta')
qed

lemma strip_object_of:
  assumes "map_ok m" and "list_all (\<lambda>(n, v). no_zero n) m"
  shows "strip (Value (ObjectV m) c) = object_of (map (\<lambda>(k, v). (k, strip v)) m)"
  using assms by (subst object_of_sorted) (auto simp: list_all_iff)

text \<open>Finding the elements again.\<close>

lemma find_index_nth:
  assumes "map fst m = map int [0..<length m]" and "i < length m" and "length m < 2 ^ 31"
  shows "find_index (of_nat i) (Value (ArrayV m) c) = Some (Some (snd (m ! i)))"
proof -
  have "fst (m ! i) = int i" using assms(1,2) by (metis add_0 length_map nth_map nth_upt map_nth length_upt diff_zero)
  then have "(int i, snd (m ! i)) \<in> set m" using assms(2) by (metis nth_mem prod.collapse)
  moreover have "distinct (map fst m)" by (simp add: assms(1) distinct_map)
  ultimately have "map_of m (int i) = Some (snd (m ! i))" by simp
  then show ?thesis using assms(2,3) by (simp add: find_index_def sint_of_nat)
qed

lemma vsize_indexed:
  assumes "map fst m = map int [0..<length m]"
  shows "vsize (Value (ArrayV m) c) = of_nat (length m)"
proof (cases "m = []")
  case False
  have "fst (last m) = last (map int [0..<length m])" using False assms by (metis last_map)
  then have "fst (last m) = int (length m) - 1" using False by (simp add: last_map of_nat_diff Suc_leI)
  then show ?thesis using False by (simp add: vsize_def)
qed (simp add: vsize_def)

lemma sint_vsize:
  assumes "map fst m = map int [0..<length m]" and "length m < 2 ^ 31"
  shows "sint (vsize (Value (ArrayV m) c)) = int (length m)" and "unat (vsize (Value (ArrayV m) c)) = length m"
  using assms(2) by (simp_all add: vsize_indexed [OF assms(1)] sint_of_nat unat_of_nat)

lemma find_member_sorted:
  assumes "map_ok m" and "(n, v) \<in> set m" and "no_zero n"
  shows "find_member n (Value (ObjectV m) c) = Some (Some v)"
proof -
  have "distinct (map fst m)"
    using assms(1) strict_sorted_iff by (auto simp: map_ok_def)
  then have "map_of m n = Some v" using assms(2) by simp
  then show ?thesis using assms(3) by (simp add: find_member_def cstr_no_zero)
qed

lemma element_textI: "json_value R t v \<Longrightarrow> blank w1 \<Longrightarrow> blank w2 \<Longrightarrow> element_text R (w1 @ t @ w2) v"
  by (auto simp: element_text_def)

lemma member_textI:
  assumes "json_value R t v" and "no_zero n" and "blank w1" and "blank w2" and "blank w3" and "blank w4"
  shows "member_text R (w1 @ valueToQuotedString n @ w2 @ '':'' @ w3 @ t @ w4) (n, v)"
proof -
  obtain b where "valueToQuotedString n = in_quotes b" "string_body b n" using quoted_text [OF assms(2)] by blast
  then show ?thesis using assms unfolding member_text_def fst_conv snd_conv by metis
qed

lemma json_array_join:
  assumes "map fst m = map int [0..<length m]" and "length m < 2 ^ 31" and "m \<noteq> []"
    and "list_all2 (element_text R) us (map (strip \<circ> snd) m)"
  shows "json_value R (''['' @ join us @ '']'') (strip (Value (ArrayV m) c))"
proof -
  have "us \<noteq> []" using assms(3,4) by auto
  then have "json_elements R (join us) (map (strip \<circ> snd) m)" by (rule json_elements_join [OF assms(4)])
  then show ?thesis unfolding strip_array_of [OF assms(1)] by (rule array) (use assms(2) in simp)
qed

lemma json_object_join:
  assumes "map_ok m" and "list_all (\<lambda>(n, v). no_zero n) m" and "m \<noteq> []"
    and "list_all2 (member_text R) us (map (\<lambda>(k, v). (k, strip v)) m)"
  shows "json_value R (''{'' @ join us @ ''}'') (strip (Value (ObjectV m) c))"
proof -
  have "us \<noteq> []" using assms(3,4) by auto
  then have "json_members R (join us) (map (\<lambda>(k, v). (k, strip v)) m)" by (rule json_members_join [OF assms(4)])
  then show ?thesis unfolding strip_object_of [OF assms(1,2)] by (rule object)
qed

lemma json_empty: "json_value R ''[]'' (strip (Value (ArrayV []) c))" "json_value R ''{}'' (strip (Value (ObjectV []) c))"
  using empty_array [of "[]" R] empty_object [of "[]" R] by (simp_all add: blank_def array_of_def object_of_def)

section \<open>The fast writer\<close>

lemma scalar_survives:
  assumes "survives n R v" and "\<nexists>m c. v = Value (ArrayV m) c" and "\<nexists>m c. v = Value (ObjectV m) c"
  shows "\<exists>t. scalar_text R valueToQuotedString v = Some t \<and> json_value R t (strip v)"
proof (cases v)
  case (Value d c)
  show ?thesis
  proof (cases d)
    case (IntV i)
    then show ?thesis using Int_text [of i R] assms(1) Value by (auto simp: scalar_text_def intro: json_value_json_elements_json_members.number)
  next
    case (StringV s)
    then obtain str where s: "s = Some str" "no_zero str" using assms(1) Value by (cases s) auto
    then obtain t where "valueToQuotedString str = in_quotes t" "string_body t str" using quoted_text by blast
    then show ?thesis
      using StringV Value s json_value_json_elements_json_members.string [of t str R]
      by (simp add: scalar_text_def Value_string_def cstr_no_zero)
  next
    case (BoolV b)
    then show ?thesis
      using Value true false by (cases b) (auto simp: scalar_text_def valueToString_bool_def)
  qed (use assms Value in \<open>auto simp: scalar_text_def intro: json_value_json_elements_json_members.number null UInt_text real_text\<close>)
qed

definition fast_writes :: "bool \<Rightarrow> 'r real_ops \<Rightarrow> 'r Value \<Rightarrow> string \<Rightarrow> bool" where
  "fast_writes yaml R v t \<longleftrightarrow> (\<forall>doc. fast_value valueToQuotedString yaml R v doc = Some (doc @ t))"

lemma fast_elements_from:
  assumes m: "map fst m = map int [0..<length m]" "length m < 2 ^ 31"
    and ts: "length ts = length m" "\<And>i. i < length m \<Longrightarrow> fast_writes yaml R (snd (m ! i)) (ts ! i)"
    and "0 < i" "i \<le> length m"
  shows "fast_elements valueToQuotedString yaml R (Value (ArrayV m) c) (int i) (int (length m)) doc
    = Some (doc @ concat (map (\<lambda>t. CHR '','' # t) (drop i ts)))"
  using assms(5,6)
proof (induction "length m - i" arbitrary: i doc)
  case 0
  then show ?case using ts(1) by (simp add: fast_elements.simps)
next
  case (Suc k)
  then have i: "i < length m" by simp
  have w: "fast_value valueToQuotedString yaml R (snd (m ! i)) (doc @ '','') = Some ((doc @ '','') @ ts ! i)"
    using ts(2) [OF i] unfolding fast_writes_def by blast
  have f: "find_index (word_of_int (int i)) (Value (ArrayV m) c) = Some (Some (snd (m ! i)))"
    using find_index_nth [OF m(1) i m(2)] by simp
  have r: "fast_elements valueToQuotedString yaml R (Value (ArrayV m) c) (int (Suc i)) (int (length m)) doc'
      = Some (doc' @ concat (map (\<lambda>t. CHR '','' # t) (drop (Suc i) ts)))" for doc'
    by (rule Suc.hyps(1)) (use Suc in simp_all)
  have "drop i ts = ts ! i # drop (Suc i) ts" using i ts(1) by (simp add: Cons_nth_drop_Suc)
  then show ?case
    using r [of "doc @ CHR '','' # ts ! i"] w f i Suc.prems(1)
    by (subst fast_elements.simps) (simp add: or_null_def add.commute)
qed

lemma fast_elements_all:
  assumes m: "map fst m = map int [0..<length m]" "length m < 2 ^ 31"
    and ts: "length ts = length m" "\<And>i. i < length m \<Longrightarrow> fast_writes yaml R (snd (m ! i)) (ts ! i)"
  shows "fast_elements valueToQuotedString yaml R (Value (ArrayV m) c) 0 (int (length m)) doc = Some (doc @ join ts)"
proof (cases ts)
  case Nil
  then show ?thesis using ts(1) by (simp add: fast_elements.simps)
next
  case (Cons t us)
  then have n: "0 < length m" using ts(1) by (cases m) auto
  have "find_index (word_of_int 0) (Value (ArrayV m) c) = Some (Some (snd (m ! 0)))"
    using find_index_nth [OF m(1) n m(2)] by simp
  moreover have "fast_value valueToQuotedString yaml R (snd (m ! 0)) doc = Some (doc @ t)"
    using ts(2) [OF n] Cons unfolding fast_writes_def by simp
  moreover have "fast_elements valueToQuotedString yaml R (Value (ArrayV m) c) 1 (int (length m)) (doc @ t)
      = Some ((doc @ t) @ concat (map (\<lambda>t. CHR '','' # t) us))"
    using fast_elements_from [OF m ts, of 1 c "doc @ t"] n Cons by simp
  ultimately show ?thesis using n Cons by (subst fast_elements.simps) (simp add: or_null_def join_def)
qed

definition yaml_colon :: "bool \<Rightarrow> string" where
  "yaml_colon yaml = (if yaml then '': '' else '':'')"

lemma fast_members_from:
  assumes m: "map_ok m" "list_all (\<lambda>(n, v). no_zero n) m"
    and "set ms \<subseteq> set m" "list_all2 (\<lambda>(n, v) t. fast_writes yaml R v t) ms ts"
  shows "fast_members valueToQuotedString yaml R (Value (ObjectV m) c) (map fst ms) False doc
    = Some (doc @ concat (map (\<lambda>((n, v), t). CHR '','' # valueToQuotedString n @ yaml_colon yaml @ t) (zip ms ts)))"
  using assms(4,3)
proof (induction ms ts arbitrary: doc rule: list_all2_induct)
  case Nil
  then show ?case by (simp add: fast_members.simps)
next
  case (Cons e ms t ts)
  obtain n v where e: "e = (n, v)" by (cases e)
  then have "find_member n (Value (ObjectV m) c) = Some (Some v)"
    using Cons.prems m by (intro find_member_sorted) (auto simp: list_all_iff)
  moreover have "fast_value valueToQuotedString yaml R v d = Some (d @ t)" for d
    using Cons(1) e by (simp add: fast_writes_def)
  ultimately show ?case
    using Cons.IH Cons.prems
    by (subst fast_members.simps) (simp add: e or_null_def yaml_colon_def)
qed

lemma fast_members_all:
  assumes m: "map_ok m" "list_all (\<lambda>(n, v). no_zero n) m" and ts: "list_all2 (\<lambda>(n, v) t. fast_writes yaml R v t) m ts"
  shows "fast_members valueToQuotedString yaml R (Value (ObjectV m) c) (map fst m) True doc
    = Some (doc @ join (map (\<lambda>((n, v), t). valueToQuotedString n @ yaml_colon yaml @ t) (zip m ts)))"
proof (cases m)
  case Nil
  then show ?thesis by (simp add: fast_members.simps)
next
  case (Cons e ms)
  obtain n v where e: "e = (n, v)" by (cases e)
  obtain t us where us: "ts = t # us" "fast_writes yaml R v t" "list_all2 (\<lambda>(n, v) t. fast_writes yaml R v t) ms us"
    using ts Cons e by (cases ts) auto
  have "find_member n (Value (ObjectV m) c) = Some (Some v)"
    using Cons e m by (intro find_member_sorted) (auto simp: list_all_iff)
  moreover have "set ms \<subseteq> set m" using Cons by auto
  note fast_members_from [OF m this us(3)]
  ultimately show ?thesis
    using us(2) unfolding Cons us(1) e
    by (subst fast_members.simps) (simp add: or_null_def yaml_colon_def fast_writes_def join_def comp_def case_prod_beta')
qed

lemma fast_text_array:
  assumes m: "map fst m = map int [0..<length m]" "length m < 2 ^ 31"
    and f: "\<And>e. e \<in> set m \<Longrightarrow> fast_writes yaml R (snd e) (f e) \<and> json_value R (f e) (strip (snd e))"
  shows "fast_writes yaml R (Value (ArrayV m) c) (''['' @ join (map f m) @ '']'')"
    and "json_value R (''['' @ join (map f m) @ '']'') (strip (Value (ArrayV m) c))"
proof -
  show "fast_writes yaml R (Value (ArrayV m) c) (''['' @ join (map f m) @ '']'')"
    using fast_elements_all [OF m, of "map f m" yaml R c] f
    by (simp add: fast_writes_def fast_value.simps sint_vsize(1) [OF m])
  have "list_all2 (element_text R) (map f m) (map (strip \<circ> snd) m)"
    using f element_textI [of R _ _ "[]" "[]"] by (auto simp: list_all2_conv_all_nth blank_def)
  then show "json_value R (''['' @ join (map f m) @ '']'') (strip (Value (ArrayV m) c))"
    using json_array_join [OF m] json_empty(1) by (cases "m = []") auto
qed

lemma fast_text_object:
  assumes m: "map_ok m" "list_all (\<lambda>(n, v). no_zero n) m"
    and f: "\<And>e. e \<in> set m \<Longrightarrow> fast_writes yaml R (snd e) (f e) \<and> json_value R (f e) (strip (snd e))"
  defines "us \<equiv> map (\<lambda>e. valueToQuotedString (fst e) @ yaml_colon yaml @ f e) m"
  shows "fast_writes yaml R (Value (ObjectV m) c) (''{'' @ join us @ ''}'')"
    and "json_value R (''{'' @ join us @ ''}'') (strip (Value (ObjectV m) c))"
proof -
  have us: "map (\<lambda>((n, v), t). valueToQuotedString n @ yaml_colon yaml @ t) (zip m (map f m)) = us"
    by (simp add: us_def zip_map2 zip_same_conv_map comp_def case_prod_beta')
  have "list_all2 (\<lambda>(n, v) t. fast_writes yaml R v t) m (map f m)"
    using f by (auto simp: list_all2_conv_all_nth case_prod_beta')
  from fast_members_all [OF m this, unfolded us]
  show "fast_writes yaml R (Value (ObjectV m) c) (''{'' @ join us @ ''}'')"
    by (simp add: fast_writes_def fast_value.simps)
  have "member_text R (valueToQuotedString (fst e) @ yaml_colon yaml @ f e) (fst e, strip (snd e))" if e: "e \<in> set m" for e
    using member_textI [of R "f e" "strip (snd e)" "fst e" "[]" "[]" "if yaml then '' '' else []" "[]"] f [OF e] m(2) e
    by (auto simp: list_all_iff blank_def is_space_def yaml_colon_def)
  then have "list_all2 (member_text R) us (map (\<lambda>(k, v). (k, strip v)) m)"
    by (auto simp: us_def list_all2_conv_all_nth case_prod_beta')
  then show "json_value R (''{'' @ join us @ ''}'') (strip (Value (ObjectV m) c))"
    using json_object_join [OF m] json_empty(2) by (cases "m = []") (auto simp: us_def)
qed

lemma fast_text_scalar:
  assumes "survives n R v" and "\<nexists>m c. v = Value (ArrayV m) c" and "\<nexists>m c. v = Value (ObjectV m) c"
  shows "\<exists>t. fast_writes yaml R v t \<and> json_value R t (strip v)"
proof -
  obtain t where t: "scalar_text R valueToQuotedString v = Some t" "json_value R t (strip v)"
    using scalar_survives [OF assms] by blast
  have "fast_value valueToQuotedString yaml R v doc = Some (doc @ t)" for doc
    using t(1) assms(2,3) by (cases v) (auto simp: fast_value.simps split: ValueHolder.splits)
  then show ?thesis using t(2) by (auto simp: fast_writes_def)
qed

lemma fast_text:
  "survives n R v \<Longrightarrow> n < 2 ^ 31 \<Longrightarrow> \<exists>t. fast_writes yaml R v t \<and> json_value R t (strip v)"
proof (induction n R v rule: survives.induct)
  case (7 n R m c)
  have m: "map fst m = map int [0..<length m]" "length m < 2 ^ 31" using "7.prems" by simp_all
  have "\<exists>t. fast_writes yaml R (snd e) t \<and> json_value R t (strip (snd e))" if "e \<in> set m" for e
    using "7.IH" [OF that, of "fst e" "snd e"] "7.prems" that by (auto simp: list_all_iff)
  then obtain f where "\<And>e. e \<in> set m \<Longrightarrow> fast_writes yaml R (snd e) (f e) \<and> json_value R (f e) (strip (snd e))"
    by metis
  from fast_text_array [OF m this] show ?case by (intro exI conjI)
next
  case (8 n R m c)
  have m: "map_ok m" "list_all (\<lambda>(n, v). no_zero n) m" using "8.prems" by (auto simp: list_all_iff)
  have "\<exists>t. fast_writes yaml R (snd e) t \<and> json_value R t (strip (snd e))" if "e \<in> set m" for e
    using "8.IH" [OF that, of "fst e" "snd e"] "8.prems" that by (auto simp: list_all_iff)
  then obtain f where "\<And>e. e \<in> set m \<Longrightarrow> fast_writes yaml R (snd e) (f e) \<and> json_value R (f e) (strip (snd e))"
    by metis
  from fast_text_object [OF m this] show ?case by (intro exI conjI)
qed (rule fast_text_scalar; simp)+

lemma FastWriter_roundtrip_aux:
  assumes "survives n R v" and "n < 2 ^ 31" and "strictRoot f \<longrightarrow> isArray v \<or> isObject v"
  shows "\<exists>text s. FastWriter_write yaml R v = Some text \<and> parse R f text v0 collect = Some (True, s)
    \<and> root_value s = Value (vdata (strip v)) (vcomments v0) \<and> errors s = []"
proof -
  obtain t where t: "fast_writes yaml R v t" "json_value R t (strip v)" using fast_text [OF assms(1,2)] by blast
  have w: "FastWriter_write yaml R v = Some (t @ [CHR 0x0A])"
    using t(1) by (simp add: FastWriter_write_def FastWriter_writeValue_def fast_writes_def)
  have "isArray (strip v) = isArray v" "isObject (strip v) = isObject v"
    by (cases v rule: strip.cases; simp add: isArray_def isObject_def vtype_def)+
  then have "\<exists>s. parse R f ([] @ [] @ t @ [CHR 0x0A]) v0 collect = Some (True, s)
      \<and> root_value s = Value (vdata (strip v)) (vcomments v0) \<and> errors s = []"
    using assms(3) by (intro parse_text [OF t(2)]) (auto simp: blank_def is_space_def)
  then show ?thesis using w by auto
qed

end
