(* ===== verification/Json_Styled.thy ===== *)
theory Json_Styled
  imports Json_RoundTrip
begin

text \<open>
  The styled writers: what they write for a value without comments is blanks and a text of the grammar that
  stands for the value.
\<close>

section \<open>Emitting\<close>

lemma emit_simps [simp]:
  "document (emit t st) = document st @ t" "indentString (emit t st) = indentString st"
  "childValues (emit t st) = childValues st" "addChildValues (emit t st) = addChildValues st"
  by (simp_all add: emit_def)

lemma indent_simps [simp]:
  "document (indent k st) = document st" "indentString (indent k st) = indentString st @ indentation k"
  "childValues (indent k st) = childValues st" "addChildValues (indent k st) = addChildValues st"
  by (simp_all add: indent_def)

text \<open>A state that has the document \<open>d\<close> and is otherwise as the writer needs it.\<close>

definition writing :: "string \<Rightarrow> string \<Rightarrow> wstate \<Rightarrow> bool" where
  "writing i d st \<longleftrightarrow> document st = d \<and> indentString st = i \<and> \<not> addChildValues st"

lemma writing_emit: "writing i d st \<Longrightarrow> writing i (d @ t) (emit t st)"
  by (simp add: writing_def)

lemma writing_indent: "writing i d st \<Longrightarrow> writing (i @ indentation k) d (indent k st)"
  by (simp add: writing_def)

lemma writing_unindent:
  assumes "writing (i @ indentation k) d st"
  shows "\<exists>st'. unindent k st = Some st' \<and> writing i d st' \<and> childValues st' = childValues st"
  using assms by (simp add: writing_def unindent_def)

lemma blank_simps [simp]: "blank []" "blank (a @ b) = (blank a \<and> blank b)" "blank (c # a) = (is_space c \<and> blank a)"
  by (simp_all add: blank_def)

lemma space_chars [simp]: "is_space (CHR '' '')" "is_space (CHR 0x0A)" "is_space (CHR 0x09)"
  by (simp_all add: is_space_def)

lemma writeIndent_blank:
  assumes "blank i" and "writing i d st"
  shows "\<exists>w. blank w \<and> writing i (d @ w) (writeIndent k st) \<and> childValues (writeIndent k st) = childValues st"
proof (cases k)
  case StyledWriter
  show ?thesis
  proof (cases "d \<noteq> [] \<and> last d = CHR '' ''")
    case True
    then show ?thesis using StyledWriter assms by (intro exI [of _ "[]"]) (simp add: Styled_writeIndent_def writing_def)
  next
    case False
    then show ?thesis
      using StyledWriter assms
      by (intro exI [of _ "(if d \<noteq> [] \<and> last d \<noteq> CHR 0x0A then [CHR 0x0A] else []) @ i"])
        (auto simp: Styled_writeIndent_def writing_def)
  qed
next
  case SimpleWriter
  then show ?thesis using assms by (intro exI [of _ "[]"]) (simp add: writing_def)
next
  case (StyledStreamWriter t)
  then show ?thesis using assms by (intro exI [of _ "CHR 0x0A # i"]) (simp add: Stream_writeIndent_def writing_def)
qed

lemma writeWithIndent_blank:
  assumes "blank i" and "writing i d st"
  shows "\<exists>w. blank w \<and> writing i (d @ w @ t) (writeWithIndent k t st) \<and> childValues (writeWithIndent k t st) = childValues st"
  using writeIndent_blank [OF assms, of k] by (fastforce simp: writeWithIndent_def writing_def)

lemma no_comment_before: "vcomments v = no_comments \<Longrightarrow> writeCommentBeforeValue k v st = st"
  by (simp add: writeCommentBeforeValue_def hasComment_def no_comments_def)

lemma no_comment_after: "vcomments v = no_comments \<Longrightarrow> writeCommentAfterValueOnSameLine k v st = st"
  by (simp add: writeCommentAfterValueOnSameLine_def hasComment_def no_comments_def)

lemma strip_comments: "strip v = v \<Longrightarrow> vcomments v = no_comments"
  by (cases v rule: strip.cases) auto

lemma strip_children:
  "strip (Value (ArrayV m) c) = Value (ArrayV m) c \<Longrightarrow> e \<in> set m \<Longrightarrow> strip (snd e) = snd e"
  "strip (Value (ObjectV m') c) = Value (ObjectV m') c \<Longrightarrow> e' \<in> set m' \<Longrightarrow> strip (snd e') = snd e'"
proof -
  have *: "map (\<lambda>(k, v). (k, strip v)) l = l \<Longrightarrow> e \<in> set l \<Longrightarrow> strip (snd e) = snd e" for l :: "('k \<times> 'r Value) list" and e
    by (metis (no_types, lifting) case_prod_conv in_set_conv_nth nth_map prod.collapse snd_conv)
  show "strip (Value (ArrayV m) c) = Value (ArrayV m) c \<Longrightarrow> e \<in> set m \<Longrightarrow> strip (snd e) = snd e" using * [of m e] by simp
  show "strip (Value (ObjectV m') c) = Value (ObjectV m') c \<Longrightarrow> e' \<in> set m' \<Longrightarrow> strip (snd e') = snd e'" using * [of m' e'] by simp
qed

section \<open>Values\<close>

definition styled_writes :: "writer \<Rightarrow> 'r real_ops \<Rightarrow> 'r Value \<Rightarrow> bool" where
  "styled_writes k R v \<longleftrightarrow>
     (\<forall>i d st. blank i \<longrightarrow> writing i d st \<longrightarrow>
        (\<exists>st' w t. writeValue k R v st = Some st' \<and> writing i (d @ w @ t) st' \<and> blank w \<and> json_value R t v))"

text \<open>A value that fits on the line of its array.\<close>

definition child_text :: "writer \<Rightarrow> 'r real_ops \<Rightarrow> 'r Value \<Rightarrow> string \<Rightarrow> bool" where
  "child_text k R v t \<longleftrightarrow>
     json_value R t v
     \<and> (\<forall>st. addChildValues st \<longrightarrow> writeValue k R v st = Some (st\<lparr>childValues := childValues st @ [t]\<rparr>))"

lemma quoted_by_same [simp]: "quoted_by k = valueToQuotedString"
  by (simp add: quoted_by_def quoted_simple)

lemma scalar_push:
  assumes "survives n R v" and "strip v = v" and "\<nexists>m c. v = Value (ArrayV m) c" and "\<nexists>m c. v = Value (ObjectV m) c"
  shows "\<exists>t. json_value R t v \<and> (\<forall>k st. writeValue k R v st = Some (pushValue t st))"
proof -
  obtain t where t: "scalar_text R valueToQuotedString v = Some t" "json_value R t v"
    using scalar_survives [OF assms(1,3,4)] assms(2) by auto
  have "writeValue k R v st = Some (pushValue t st)" for k st
    using t(1) assms(3,4) by (cases v) (auto simp: writeValue.simps split: ValueHolder.splits)
  then show ?thesis using t(2) by blast
qed

lemma empty_push:
  assumes "v = Value (ArrayV []) c \<or> v = Value (ObjectV []) c" and "strip v = v"
  shows "\<exists>t. json_value R t v \<and> (\<forall>k st. writeValue k R v st = Some (pushValue t st))"
  using assms json_empty [of R c] by (auto simp: writeValue.simps writeArrayValue.simps vsize_def)

lemma push_styled:
  assumes "json_value R t v" and "\<And>k st. writeValue k R v st = Some (pushValue t st)"
  shows "styled_writes k R v" and "child_text k R v t"
proof -
  have "writing i (d @ [] @ t) (pushValue t st)" if "writing i d st" for i d st
    using that by (simp add: writing_def pushValue_def)
  then show "styled_writes k R v" unfolding styled_writes_def using assms blank_simps(1) by metis
  show "child_text k R v t" using assms by (simp add: child_text_def pushValue_def)
qed

section \<open>Objects\<close>

lemma join_trailing:
  assumes "list_all2 P us es" and "us \<noteq> []" and "\<And>u e. P u e \<Longrightarrow> P (u @ w) e"
  shows "\<exists>us'. join us @ w = join us' \<and> list_all2 P us' es"
  using assms(1,2)
proof (induction us es rule: list_all2_induct)
  case (Cons u us e es)
  show ?case
  proof (cases us)
    case Nil
    then show ?thesis using Cons assms(3) by (intro exI [of _ "[u @ w]"]) auto
  next
    case (Cons u2 us2)
    then obtain us' where us': "join us @ w = join us'" "list_all2 P us' es" using Cons.IH by auto
    moreover obtain a b where "us' = a # b" using us'(2) Cons Cons.hyps(2) by (cases us') auto
    ultimately show ?thesis using Cons Cons.hyps(1) by (intro exI [of _ "u # us'"]) auto
  qed
qed simp

lemma element_trailing: "blank w \<Longrightarrow> element_text R u v \<Longrightarrow> element_text R (u @ w) v"
  unfolding element_text_def by (metis append.assoc blank_simps(2))

lemma member_trailing: "blank w \<Longrightarrow> member_text R u e \<Longrightarrow> member_text R (u @ w) e"
proof -
  assume w: "blank w" and "member_text R u e"
  then obtain w1 n w2 w3 t w4 where u: "u = w1 @ in_quotes n @ w2 @ '':'' @ w3 @ t @ w4" "blank w1" "blank w2" "blank w3"
    "blank w4" "string_body n (fst e)" "json_value R t (snd e)"
    unfolding member_text_def by blast
  have "u @ w = w1 @ in_quotes n @ w2 @ '':'' @ w3 @ t @ (w4 @ w)" "blank (w4 @ w)" using u(1,5) w by simp_all
  then show ?thesis unfolding member_text_def using u(2-4,6,7) by (intro exI conjI)
qed

lemma colon_parts: "\<exists>w2 w3. colon k = w2 @ '':'' @ w3 \<and> blank w2 \<and> blank w3"
  by (cases "k = SimpleWriter") (force simp: colon_def intro: exI [of _ "[]"] exI [of _ "'' ''"])+

lemma write_members_text:
  assumes i: "blank i" and m: "map_ok m" "list_all (\<lambda>(n, v). no_zero n) m"
    and ch: "\<And>e. e \<in> set m \<Longrightarrow> styled_writes k R (snd e) \<and> vcomments (snd e) = no_comments"
  shows "set ms \<subseteq> set m \<Longrightarrow> ms \<noteq> [] \<Longrightarrow> writing i d st \<Longrightarrow>
    \<exists>st' us. write_members k R (Value (ObjectV m) c) (map fst ms) st = Some st' \<and> writing i (d @ join us) st'
      \<and> list_all2 (member_text R) us ms"
proof (induction ms arbitrary: d st)
  case (Cons e ms)
  obtain n v where e: "e = (n, v)" by (cases e)
  have em: "e \<in> set m" "no_zero n" using Cons.prems(1) m(2) e by (auto simp: list_all_iff)
  have v: "styled_writes k R v" "vcomments v = no_comments" using ch [OF em(1)] e by simp_all
  have f: "find_member n (Value (ObjectV m) c) = Some (Some v)" using find_member_sorted [OF m(1) _ em(2)] em(1) e by simp
  obtain w1 where w1: "blank w1" "writing i (d @ w1 @ valueToQuotedString n) (writeWithIndent k (valueToQuotedString n) st)"
    using writeWithIndent_blank [OF i Cons.prems(3)] by blast
  obtain w2 w3 where col: "colon k = w2 @ '':'' @ w3" "blank w2" "blank w3" using colon_parts by blast
  from writing_emit [OF w1(2), of "colon k"] v(1) i
  obtain st1 w t where st1: "writeValue k R v (emit (colon k) (writeWithIndent k (valueToQuotedString n) st)) = Some st1"
    "writing i (((d @ w1 @ valueToQuotedString n) @ colon k) @ w @ t) st1" "blank w" "json_value R t v"
    unfolding styled_writes_def by blast
  let ?u = "w1 @ valueToQuotedString n @ w2 @ '':'' @ (w3 @ w) @ t @ []"
  have u: "member_text R ?u e" using member_textI [OF st1(4) em(2) w1(1) col(2), of "w3 @ w" "[]"] col(3) st1(3) e by simp
  have d1: "writing i (d @ ?u) st1" using st1(2) col(1) by simp
  show ?case
  proof (cases "ms = []")
    case True
    have "write_members k R (Value (ObjectV m) c) (map fst (e # ms)) st = Some st1"
      using st1(1) f True e by (subst write_members.simps) (simp add: or_null_def no_comment_before [OF v(2)] no_comment_after [OF v(2)])
    then show ?thesis using d1 u True by (intro exI [of _ st1] exI [of _ "[?u]"]) simp
  next
    case False
    have "write_members k R (Value (ObjectV m) c) (map fst (e # ms)) st
        = write_members k R (Value (ObjectV m) c) (map fst ms) (emit '','' st1)"
      using st1(1) f False e
      by (subst write_members.simps) (simp add: or_null_def no_comment_before [OF v(2)] no_comment_after [OF v(2)])
    moreover obtain st' us where "write_members k R (Value (ObjectV m) c) (map fst ms) (emit '','' st1) = Some st'"
      "writing i ((d @ ?u @ '','') @ join us) st'" "list_all2 (member_text R) us ms"
      using Cons.IH [OF _ False, of "(d @ ?u) @ '',''" "emit '','' st1"] Cons.prems(1) writing_emit [OF d1, of "'',''"] by auto
    moreover obtain u' us' where "us = u' # us'" using calculation(4) False by (cases us) auto
    ultimately show ?thesis using u by (intro exI [of _ st'] exI [of _ "?u # us"]) simp
  qed
qed simp

lemma styled_object:
  assumes "blank (indentation k)" and m: "map_ok m" "list_all (\<lambda>(n, v). no_zero n) m" "m \<noteq> []"
    and strip: "strip (Value (ObjectV m) c) = Value (ObjectV m) c"
    and ch: "\<And>e. e \<in> set m \<Longrightarrow> styled_writes k R (snd e)"
  shows "styled_writes k R (Value (ObjectV m) c)"
  unfolding styled_writes_def
proof (intro allI impI)
  fix i d st
  assume i: "blank i" and st: "writing i d st"
  have ch': "styled_writes k R (snd e) \<and> vcomments (snd e) = no_comments" if "e \<in> set m" for e
    using ch [OF that] strip_comments [OF strip_children(2) [OF strip that]] by simp
  let ?i = "i @ indentation k"
  have i': "blank ?i" using i assms(1) by simp
  obtain w where w: "blank w" "writing i (d @ w @ ''{'') (writeWithIndent k ''{'' st)"
    using writeWithIndent_blank [OF i st] by blast
  from writing_indent [OF w(2), of k] obtain st1 us where
    st1: "write_members k R (Value (ObjectV m) c) (map fst m) (indent k (writeWithIndent k ''{'' st)) = Some st1"
    "writing ?i ((d @ w @ ''{'') @ join us) st1" and us: "list_all2 (member_text R) us m"
    using write_members_text [OF i' m(1,2) ch' subset_refl m(3)] by blast
  obtain st2 where st2: "unindent k st1 = Some st2" "writing i ((d @ w @ ''{'') @ join us) st2"
    using writing_unindent [OF st1(2)] by blast
  obtain w' where w': "blank w'" "writing i (((d @ w @ ''{'') @ join us) @ w' @ ''}'') (writeWithIndent k ''}'' st2)"
    using writeWithIndent_blank [OF i st2(2)] by blast
  have "writeValue k R (Value (ObjectV m) c) st = Some (writeWithIndent k ''}'' st2)"
    using st1(1) st2(1) m(3) by (simp add: writeValue.simps)
  moreover have "json_value R (''{'' @ (join us @ w') @ ''}'') (Value (ObjectV m) c)"
  proof -
    have "us \<noteq> []" using us m(3) by auto
    from join_trailing [OF us this member_trailing [OF w'(1)]]
    obtain us' where "join us @ w' = join us'" "list_all2 (member_text R) us' m" by blast
    moreover have "map (\<lambda>(k, v). (k, strip v)) m = m" using strip by simp
    ultimately show ?thesis using json_object_join [OF m, of R us' c] strip by simp
  qed
  ultimately show "\<exists>st' w t. writeValue k R (Value (ObjectV m) c) st = Some st' \<and> writing i (d @ w @ t) st' \<and> blank w
      \<and> json_value R t (Value (ObjectV m) c)"
    using w w' by (intro exI [of _ "writeWithIndent k ''}'' st2"] exI [of _ w] exI [of _ "''{'' @ (join us @ w') @ ''}''"]) simp
qed

section \<open>Arrays\<close>

definition small :: "'r Value \<Rightarrow> bool" where
  "small v \<longleftrightarrow> \<not> ((isArray v \<or> isObject v) \<and> vsize v > 0)"

lemma small_child:
  assumes "survives n R v" and "n < 2 ^ 31" and "strip v = v" and "small v"
  shows "\<exists>t. \<forall>k. child_text k R v t"
proof -
  have "\<exists>t. json_value R t v \<and> (\<forall>k st. writeValue k R v st = Some (pushValue t st))"
  proof (cases "(\<exists>m c. v = Value (ArrayV m) c) \<or> (\<exists>m c. v = Value (ObjectV m) c)")
    case True
    have *: "(of_nat l :: 32 word) > 0" if "0 < l" "l < 2 ^ 32" for l
      using that by (simp add: word_less_nat_alt unat_of_nat)
    from True have "\<exists>c. v = Value (ArrayV []) c \<or> v = Value (ObjectV []) c"
    proof (elim disjE exE)
      fix m c assume v: "v = Value (ArrayV m) c"
      then have "map fst m = map int [0..<length m]" "length m < 2 ^ 32" using assms(1,2) by simp_all
      then have "m = []"
        using assms(4) v * [of "length m"] by (auto simp: small_def isArray_def vtype_def vsize_indexed)
      then show ?thesis using v by blast
    next
      fix m c assume v: "v = Value (ObjectV m) c"
      then have "length m < 2 ^ 32" using assms(1) by simp
      then have "m = []"
        using assms(4) v * [of "length m"] by (auto simp: small_def isObject_def vtype_def vsize_def)
      then show ?thesis using v by blast
    qed
    then show ?thesis using empty_push [of v _ R] assms(3) by blast
  next
    case False
    then show ?thesis using scalar_push [OF assms(1,3)] by blast
  qed
  then show ?thesis using push_styled(2) by metis
qed

lemma large_child_small:
  assumes m: "map fst m = map int [0..<length m]" "length m < 2 ^ 31" and "i \<le> length m"
  shows "\<exists>b'. large_child (Value (ArrayV m) c) (int i) (int (length m)) b = Some b'
    \<and> (\<not> b' \<longrightarrow> \<not> b \<and> (\<forall>j. i \<le> j \<longrightarrow> j < length m \<longrightarrow> small (snd (m ! j))))"
  using assms(3)
proof (induction "length m - i" arbitrary: i b)
  case 0
  then show ?case by (subst large_child.simps) simp
next
  case (Suc k)
  show ?case
  proof (cases b)
    case True
    then show ?thesis by (subst large_child.simps) auto
  next
    case False
    have i: "i < length m" using Suc by simp
    let ?b = "(isArray (snd (m ! i)) \<or> isObject (snd (m ! i))) \<and> vsize (snd (m ! i)) > 0"
    have step: "large_child (Value (ArrayV m) c) (int i) (int (length m)) b
        = large_child (Value (ArrayV m) c) (int (Suc i)) (int (length m)) ?b"
      using find_index_nth [OF m(1) i m(2), of c] i False
      by (subst large_child.simps) (simp add: or_null_def add.commute)
    have "k = length m - Suc i" "Suc i \<le> length m" using Suc.hyps(2) i by simp_all
    then obtain b' where b': "large_child (Value (ArrayV m) c) (int (Suc i)) (int (length m)) ?b = Some b'"
      "\<not> b' \<longrightarrow> \<not> ?b \<and> (\<forall>j. Suc i \<le> j \<longrightarrow> j < length m \<longrightarrow> small (snd (m ! j)))"
      using Suc.hyps(1) [of "Suc i" ?b] by blast
    have "small (snd (m ! j))" if "\<not> b'" "i \<le> j" "j < length m" for j
      using b'(2) that by (cases "j = i") (auto simp: small_def)
    then show ?thesis using step b'(1) False by auto
  qed
qed

lemma child_lines_all:
  assumes m: "map fst m = map int [0..<length m]" "length m < 2 ^ 31"
    and ts: "length ts = length m" "\<And>i. i < length m \<Longrightarrow> child_text (own_writer k) R (snd (m ! i)) (ts ! i)"
    and "i \<le> length m" and "addChildValues st" and "childValues st = take i ts"
  shows "\<exists>l'. child_lines k R (Value (ArrayV m) c) (int i) (int (length m)) l False st
    = Some (l', False, st\<lparr>childValues := ts\<rparr>)"
  using assms(5-7)
proof (induction "length m - i" arbitrary: i l st)
  case 0
  then have "i = length m" by simp
  then have "st\<lparr>childValues := ts\<rparr> = st" using 0 ts(1) by simp
  then show ?case using \<open>i = length m\<close> by (subst child_lines.simps) simp
next
  case (Suc n)
  then have i: "i < length m" by simp
  let ?st = "st\<lparr>childValues := take (Suc i) ts\<rparr>"
  have "childValues st @ [ts ! i] = take (Suc i) ts" using Suc.prems(3) i ts(1) by (simp add: take_Suc_conv_app_nth)
  then have w: "writeValue (own_writer k) R (snd (m ! i)) st = Some ?st"
    using ts(2) [OF i] Suc.prems(2) by (simp add: child_text_def)
  have f: "find_index (word_of_int (int i)) (Value (ArrayV m) c) = Some (Some (snd (m ! i)))"
    using find_index_nth [OF m(1) i m(2)] by simp
  have "i < length (take (Suc i) ts)" using i ts(1) by simp
  then have step: "child_lines k R (Value (ArrayV m) c) (int i) (int (length m)) l False st
      = child_lines k R (Value (ArrayV m) c) (int (Suc i)) (int (length m)) (l + int (length (take (Suc i) ts ! i))) False ?st"
    using f w i by (subst child_lines.simps) (simp add: or_null_def add.commute)
  have "\<exists>l'. child_lines k R (Value (ArrayV m) c) (int (Suc i)) (int (length m)) l2 False ?st
      = Some (l', False, ?st\<lparr>childValues := ts\<rparr>)" for l2
    by (rule Suc.hyps(1)) (use Suc i in simp_all)
  then show ?case using step by simp
qed

text \<open>What \<open>isMultineArray\<close> decides, and the texts it leaves behind.\<close>

lemma isMultineArray_texts:
  assumes m: "map fst m = map int [0..<length m]" "length m * 3 < 2 ^ 31" and st: "writing i d st"
    and ch: "\<And>e. e \<in> set m \<Longrightarrow> small (snd e) \<Longrightarrow> \<exists>t. \<forall>k. child_text k R (snd e) t"
  shows "\<exists>b st'. isMultineArray k R (Value (ArrayV m) c) st = Some (b, st') \<and> writing i d st'
    \<and> (b \<and> childValues st' = [] \<or> list_all2 (\<lambda>e t. json_value R t (snd e)) m (childValues st'))"
proof -
  let ?v = "Value (ArrayV m) c" and ?n = "int (length m)"
  have len: "length m < 2 ^ 31" using m(2) by simp
  note size = sint_vsize(1) [OF m(1) len]
  have range: "minInt \<le> ?n * 3" "?n * 3 \<le> maxInt" using m(2) by (simp_all add: minInt_def maxInt_def)
  obtain b where b: "large_child ?v 0 ?n (?n * 3 \<ge> rightMargin) = Some b"
    "\<not> b \<Longrightarrow> \<forall>j < length m. small (snd (m ! j))"
    using large_child_small [OF m(1) len, of 0 c "?n * 3 \<ge> rightMargin"] by auto
  show ?thesis
  proof (cases b)
    case True
    then have "isMultineArray k R ?v st = Some (True, st\<lparr>childValues := []\<rparr>)"
      using b(1) range by (subst isMultineArray.simps) (simp add: size Let_def)
    then show ?thesis using st by (auto simp: writing_def)
  next
    case False
    have "\<forall>j < length m. \<exists>t. \<forall>k. child_text k R (snd (m ! j)) t" using b(2) [OF False] ch by simp
    then obtain g where g: "\<And>j k. j < length m \<Longrightarrow> child_text k R (snd (m ! j)) (g j)" by metis
    define ts where "ts = map g [0..<length m]"
    have ts: "length ts = length m" "\<And>j. j < length m \<Longrightarrow> child_text (own_writer k) R (snd (m ! j)) (ts ! j)"
      using g by (simp_all add: ts_def)
    let ?st = "st\<lparr>childValues := [], addChildValues := True\<rparr>"
    obtain l where l: "child_lines k R ?v 0 ?n (4 + (?n - 1) * 2) False ?st = Some (l, False, ?st\<lparr>childValues := ts\<rparr>)"
      using child_lines_all [OF m(1) len ts, of 0 ?st c] by auto
    have "isMultineArray k R ?v st = Some (l \<ge> rightMargin, st\<lparr>childValues := ts, addChildValues := False\<rparr>)"
      using b(1) False range l by (subst isMultineArray.simps) (simp add: size Let_def)
    moreover have "list_all2 (\<lambda>e t. json_value R t (snd e)) m ts"
      using ts by (auto simp: list_all2_conv_all_nth child_text_def)
    ultimately show ?thesis using st by (auto simp: writing_def)
  qed
qed

text \<open>One element on its own line: from its text in \<open>childValues\<close>, or written in place.\<close>

definition element_source :: "writer \<Rightarrow> 'r real_ops \<Rightarrow> bool \<Rightarrow> string list \<Rightarrow> (int \<times> 'r Value) list \<Rightarrow> bool" where
  "element_source k R has ts m \<longleftrightarrow>
     (if has then list_all2 (\<lambda>e t. json_value R t (snd e)) m ts else list_all (\<lambda>e. styled_writes k R (snd e)) m)"

definition put_element :: "writer \<Rightarrow> 'r real_ops \<Rightarrow> bool \<Rightarrow> nat \<Rightarrow> 'r Value \<Rightarrow> wstate \<Rightarrow> wstate option" where
  "put_element k R has j v st =
     (if has then (if j < length (childValues st) then Some (writeWithIndent k (childValues st ! j) st) else None)
      else writeValue k R v (writeIndent k st))"

lemma write_elements_step:
  assumes "find_index (of_nat j) v = Some (Some x)" and "vcomments x = no_comments" and "j < n"
    and "put_element k R has j x st = Some st1"
  shows "write_elements k R v has j n st
    = (if Suc j = n then Some st1 else write_elements k R v has (Suc j) n (emit '','' st1))"
  using assms
  by (subst write_elements.simps)
    (auto simp: put_element_def or_null_def no_comment_before no_comment_after split: if_splits)

lemma write_element:
  assumes i: "blank i" and st: "writing i d st" and ts: "has \<longrightarrow> childValues st = ts"
    and src: "element_source k R has ts m" and j: "j < length m"
  shows "\<exists>st' u. put_element k R has j (snd (m ! j)) st = Some st'
    \<and> writing i (d @ u) st' \<and> element_text R u (snd (m ! j)) \<and> (has \<longrightarrow> childValues st' = ts)"
proof (cases has)
  case True
  have "j < length ts" "json_value R (ts ! j) (snd (m ! j))"
    using src True j by (auto simp: element_source_def list_all2_conv_all_nth)
  moreover obtain w where w: "blank w" "writing i (d @ w @ ts ! j) (writeWithIndent k (ts ! j) st)"
    "childValues (writeWithIndent k (ts ! j) st) = childValues st"
    using writeWithIndent_blank [OF i st] by blast
  moreover have "element_text R (w @ ts ! j) (snd (m ! j))"
    using element_textI [OF calculation(2) w(1), of "[]"] by simp
  ultimately show ?thesis using True ts by (auto simp: put_element_def)
next
  case False
  obtain w where w: "blank w" "writing i (d @ w) (writeIndent k st)" using writeIndent_blank [OF i st] by blast
  have "styled_writes k R (snd (m ! j))" using src False j by (simp add: element_source_def list_all_length)
  then obtain st' w' t where "writeValue k R (snd (m ! j)) (writeIndent k st) = Some st'"
    "writing i ((d @ w) @ w' @ t) st'" "blank w'" "json_value R t (snd (m ! j))"
    unfolding styled_writes_def using i w(2) by blast
  moreover have "element_text R ((w @ w') @ t) (snd (m ! j))"
    using element_textI [OF calculation(4), of "w @ w'" "[]"] w(1) calculation(3) by simp
  ultimately show ?thesis using False by (intro exI [of _ st'] exI [of _ "(w @ w') @ t"]) (simp add: put_element_def)
qed

lemma write_elements_text:
  assumes i: "blank i" and m: "map fst m = map int [0..<length m]" "length m < 2 ^ 31"
    and src: "element_source k R has ts m" and nc: "\<And>e. e \<in> set m \<Longrightarrow> vcomments (snd e) = no_comments"
    and "j < length m" and "writing i d st" and "has \<longrightarrow> childValues st = ts"
  shows "\<exists>st' us. write_elements k R (Value (ArrayV m) c) has j (length m) st = Some st' \<and> writing i (d @ join us) st'
      \<and> list_all2 (element_text R) us (map snd (drop j m))"
  using assms(6-8)
proof (induction "length m - Suc j" arbitrary: j d st)
  case 0
  then have j: "Suc j = length m" by simp
  have v: "vcomments (snd (m ! j)) = no_comments" using nc "0.prems"(1) by simp
  obtain st' u where u: "put_element k R has j (snd (m ! j)) st = Some st'" "writing i (d @ u) st'" "element_text R u (snd (m ! j))"
    using write_element [OF i "0.prems"(2,3) src "0.prems"(1)] by blast
  have "write_elements k R (Value (ArrayV m) c) has j (length m) st = Some st'"
    using write_elements_step [OF find_index_nth [OF m(1) "0.prems"(1) m(2)] v "0.prems"(1) u(1)] j by simp
  moreover have "drop j m = [m ! j]" using j by (metis Cons_nth_drop_Suc drop_all lessI order_refl)
  ultimately show ?case using u by (intro exI [of _ st'] exI [of _ "[u]"]) simp
next
  case (Suc l)
  have j: "Suc j < length m" using Suc.hyps(2) by simp
  have v: "vcomments (snd (m ! j)) = no_comments" using nc Suc.prems(1) by simp
  obtain st1 u where u: "put_element k R has j (snd (m ! j)) st = Some st1" "writing i (d @ u) st1" "element_text R u (snd (m ! j))"
    "has \<longrightarrow> childValues st1 = ts"
    using write_element [OF i Suc.prems(2,3) src Suc.prems(1)] by blast
  have step: "write_elements k R (Value (ArrayV m) c) has j (length m) st
      = write_elements k R (Value (ArrayV m) c) has (Suc j) (length m) (emit '','' st1)"
    using write_elements_step [OF find_index_nth [OF m(1) Suc.prems(1) m(2)] v Suc.prems(1) u(1)] j by simp
  have l: "l = length m - Suc (Suc j)" using Suc.hyps(2) by simp
  have e: "has \<longrightarrow> childValues (emit '','' st1) = ts" using u(4) by simp
  obtain st' us where r: "write_elements k R (Value (ArrayV m) c) has (Suc j) (length m) (emit '','' st1) = Some st'"
    "writing i (((d @ u) @ '','') @ join us) st'" "list_all2 (element_text R) us (map snd (drop (Suc j) m))"
    using Suc.hyps(1) [OF l j writing_emit [OF u(2)] e] by blast
  have dr: "drop j m = m ! j # drop (Suc j) m" using Suc.prems(1) by (simp add: Cons_nth_drop_Suc)
  obtain u' us' where "us = u' # us'" using r(3) j by (cases us) auto
  then show ?case using step r u(3) dr by (intro exI [of _ st'] exI [of _ "u # us"]) simp
qed

lemma append_singleton: "(@) [c] = (#) c" "(@) [c, e] = (\<lambda>t. c # e # t)"
  by (intro ext, simp)+

lemma single_line_text:
  assumes "list_all2 (\<lambda>e t. json_value R t (snd e)) m ts" and "m \<noteq> []"
  shows "\<exists>us. single_line k ts = ''['' @ join us @ '']'' \<and> list_all2 (element_text R) us (map snd m)"
proof (cases "k = SimpleWriter")
  case True
  obtain t ts' where "ts = t # ts'" using assms by (cases ts) auto
  then have "single_line k ts = ''['' @ join ts @ '']''"
    using True by (simp add: single_line_def open_array_def close_array_def comma_def join_def append_singleton)
  moreover have "list_all2 (element_text R) ts (map snd m)"
    using assms(1) element_textI [of R _ _ "[]" "[]"] by (auto simp: list_all2_conv_all_nth)
  ultimately show ?thesis by blast
next
  case False
  define us where "us = map (\<lambda>t. CHR '' '' # t) ts"
  obtain t ts' where ts: "ts = t # ts'" using assms by (cases ts) auto
  then have "single_line k ts = ''['' @ (join us @ '' '') @ '']''"
    using False by (simp add: us_def single_line_def open_array_def close_array_def comma_def join_def comp_def append_singleton)
  moreover have us: "list_all2 (element_text R) us (map snd m)"
    using assms(1) element_textI [of R _ _ "'' ''" "[]"] by (auto simp: us_def list_all2_conv_all_nth)
  have "us \<noteq> []" "blank '' ''" using ts by (simp_all add: us_def)
  from join_trailing [OF us this(1) element_trailing [OF this(2)]]
  obtain us' where "join us @ '' '' = join us'" "list_all2 (element_text R) us' (map snd m)" by blast
  ultimately show ?thesis by auto
qed

lemma styled_array:
  assumes k: "blank (indentation k)" and m: "map fst m = map int [0..<length m]" "length m * 3 < 2 ^ 31" "m \<noteq> []"
    and strip: "strip (Value (ArrayV m) c) = Value (ArrayV m) c"
    and ch: "\<And>e. e \<in> set m \<Longrightarrow> styled_writes k R (snd e)"
    and small: "\<And>e. e \<in> set m \<Longrightarrow> small (snd e) \<Longrightarrow> \<exists>t. \<forall>k. child_text k R (snd e) t"
  shows "styled_writes k R (Value (ArrayV m) c)"
  unfolding styled_writes_def
proof (intro allI impI)
  fix i d st
  let ?v = "Value (ArrayV m) c" and ?i = "i @ indentation k"
  assume i: "blank i" and st: "writing i d st"
  have len: "length m < 2 ^ 31" using m(2) by simp
  have nc: "vcomments (snd e) = no_comments" if "e \<in> set m" for e by (rule strip_comments [OF strip_children(1) [OF strip that]])
  have ms: "map (strip \<circ> snd) m = map snd m" using strip_children(1) [OF strip] by simp
  have size: "vsize ?v \<noteq> 0" "unat (vsize ?v) = length m" using sint_vsize(2) [OF m(1) len, of c] m(3) by auto
  obtain b st1 where b: "isMultineArray k R ?v st = Some (b, st1)" "writing i d st1"
    "b \<and> childValues st1 = [] \<or> list_all2 (\<lambda>e t. json_value R t (snd e)) m (childValues st1)"
    using isMultineArray_texts [OF m(1,2) st small] by blast
  show "\<exists>st' w t. writeValue k R ?v st = Some st' \<and> writing i (d @ w @ t) st' \<and> blank w \<and> json_value R t ?v"
  proof (cases b)
    case False
    then have ts: "list_all2 (\<lambda>e t. json_value R t (snd e)) m (childValues st1)" using b(3) by simp
    obtain us where us: "single_line k (childValues st1) = ''['' @ join us @ '']''" "list_all2 (element_text R) us (map snd m)"
      using single_line_text [OF ts m(3)] by blast
    have "writeValue k R ?v st = Some (emit (single_line k (childValues st1)) st1)"
      using b(1) False size list_all2_lengthD [OF ts] by (simp add: writeValue.simps writeArrayValue.simps)
    moreover have "json_value R (single_line k (childValues st1)) ?v"
      using json_array_join [OF m(1) len m(3), of R us c] us ms strip by simp
    ultimately show ?thesis using writing_emit [OF b(2)] blank_simps(1) by (metis append_Nil)
  next
    case True
    have src: "element_source k R (childValues st1 \<noteq> []) (childValues st1) m"
      using b(3) ch by (auto simp: element_source_def list_all_iff)
    obtain w where w: "blank w" "writing i (d @ w @ ''['') (writeWithIndent k ''['' st1)"
      "childValues (writeWithIndent k ''['' st1) = childValues st1"
      using writeWithIndent_blank [OF i b(2)] by blast
    obtain st2 us where st2: "write_elements k R ?v (childValues st1 \<noteq> []) 0 (length m) (indent k (writeWithIndent k ''['' st1)) = Some st2"
      "writing ?i ((d @ w @ ''['') @ join us) st2" and us: "list_all2 (element_text R) us (map snd (drop 0 m))"
      using write_elements_text [OF _ m(1) len src nc, of ?i 0 _ "indent k (writeWithIndent k ''['' st1)" c] writing_indent [OF w(2), of k]
        w(3) i k m(3) by fastforce
    obtain st3 where st3: "unindent k st2 = Some st3" "writing i ((d @ w @ ''['') @ join us) st3"
      using writing_unindent [OF st2(2)] by blast
    obtain w' where w': "blank w'" "writing i (((d @ w @ ''['') @ join us) @ w' @ '']'') (writeWithIndent k '']'' st3)"
      using writeWithIndent_blank [OF i st3(2)] by blast
    have "writeValue k R ?v st = Some (writeWithIndent k '']'' st3)"
      using b(1) True size w(3) st2(1) st3(1) by (simp add: writeValue.simps writeArrayValue.simps)
    moreover have "json_value R (''['' @ (join us @ w') @ '']'') ?v"
    proof -
      have "us \<noteq> []" using us m(3) by auto
      from join_trailing [OF us this element_trailing [OF w'(1)]]
      obtain us' where "join us @ w' = join us'" "list_all2 (element_text R) us' (map snd m)" by auto
      then show ?thesis using json_array_join [OF m(1) len m(3), of R us' c] ms strip by simp
    qed
    ultimately show ?thesis
      using w w' by (intro exI [of _ "writeWithIndent k '']'' st3"] exI [of _ w] exI [of _ "''['' @ (join us @ w') @ '']''"]) simp
  qed
qed

section \<open>Documents\<close>

lemma styled_text:
  "survives n R v \<Longrightarrow> n * 3 < 2 ^ 31 \<Longrightarrow> blank (indentation k) \<Longrightarrow> strip v = v \<Longrightarrow> styled_writes k R v"
proof (induction n R v rule: survives.induct)
  case (7 n R m c)
  have m: "map fst m = map int [0..<length m]" "length m * 3 < 2 ^ 31" using "7.prems"(1,2) by auto
  have sv: "survives n R (snd e)" "strip (snd e) = snd e" if "e \<in> set m" for e
    using "7.prems"(1) strip_children(1) [OF "7.prems"(4) that] that by (auto simp: list_all_iff)
  show ?case
  proof (cases "m = []")
    case True
    then show ?thesis using empty_push [of _ c R] push_styled(1) "7.prems"(4) by metis
  next
    case False
    have ch: "styled_writes k R (snd e)" if "e \<in> set m" for e
      using "7.IH" [OF that, of "fst e" "snd e"] "7.prems"(2,3) sv [OF that] by simp
    have "n < 2 ^ 31" using "7.prems"(2) by simp
    then have "\<exists>t. \<forall>k. child_text k R (snd e) t" if "e \<in> set m" "small (snd e)" for e
      using small_child sv [OF that(1)] that(2) by blast
    then show ?thesis using styled_array [OF "7.prems"(3) m False "7.prems"(4) ch] by blast
  qed
next
  case (8 n R m c)
  have m: "map_ok m" "list_all (\<lambda>(n, v). no_zero n) m" using "8.prems"(1) by (auto simp: list_all_iff)
  show ?case
  proof (cases "m = []")
    case True
    then show ?thesis using empty_push [of _ c R] push_styled(1) "8.prems"(4) by metis
  next
    case False
    have "styled_writes k R (snd e)" if "e \<in> set m" for e
      using "8.IH" [OF that, of "fst e" "snd e"] "8.prems" strip_children(2) [OF "8.prems"(4) that] that
      by (auto simp: list_all_iff)
    then show ?thesis using styled_object [OF "8.prems"(3) m False "8.prems"(4)] by blast
  qed
qed (metis scalar_push push_styled(1) Value.inject ValueHolder.distinct)+

text \<open>The text of a document: one of the grammar between blanks.\<close>

lemma styled_document:
  assumes "survives n R v" and "n * 3 < 2 ^ 31" and "blank (indentation k)" and "strip v = v"
  shows "\<exists>st w t. writeValue k R v (writeCommentBeforeValue k v (start_writing values)) = Some st
    \<and> document (writeCommentAfterValueOnSameLine k v st) = w @ t \<and> blank w \<and> json_value R t v"
proof -
  have "writing [] [] (start_writing values)" by (simp add: writing_def start_writing_def)
  then obtain st w t where "writeValue k R v (start_writing values) = Some st" "writing [] ([] @ w @ t) st" "blank w" "json_value R t v"
    using styled_text [OF assms] unfolding styled_writes_def by (metis blank_simps(1))
  then show ?thesis
    by (intro exI [of _ st] exI [of _ w] exI [of _ t])
      (simp add: no_comment_before [OF strip_comments [OF assms(4)]] no_comment_after [OF strip_comments [OF assms(4)]] writing_def)
qed

definition written_by :: "'r real_ops \<Rightarrow> string list \<Rightarrow> 'r Value \<Rightarrow> writer \<Rightarrow> string option" where
  "written_by R values v k =
     (case k of
        StyledWriter \<Rightarrow> StyledWriter_write R values v
      | SimpleWriter \<Rightarrow> StyledWriter_writeSimple R values v
      | StyledStreamWriter text \<Rightarrow> StyledStreamWriter_write R text values v)"

lemma styled_roundtrip_aux:
  assumes "survives n R v" and "n * 3 < 2 ^ 31" and "blank (indentation k)" and "strip v = v"
    and "strictRoot f \<longrightarrow> isArray v \<or> isObject v"
  shows "\<exists>text s. written_by R values v k = Some text \<and> parse R f text v0 collect = Some (True, s)
    \<and> root_value s = Value (vdata v) (vcomments v0) \<and> errors s = []"
proof -
  obtain st w t where st: "writeValue k R v (writeCommentBeforeValue k v (start_writing values)) = Some st"
    "document (writeCommentAfterValueOnSameLine k v st) = w @ t" "blank w" "json_value R t v"
    using styled_document [OF assms(1-4)] by blast
  have "\<exists>w2. written_by R values v k = Some ([] @ w @ t @ w2) \<and> blank w2"
    using st(1,2)
    by (cases k) (simp_all add: written_by_def StyledWriter_write_def StyledWriter_writeSimple_def
        StyledStreamWriter_write_def writer_names)
  then obtain w2 where "written_by R values v k = Some ([] @ w @ t @ w2)" "blank w2" by blast
  then show ?thesis using parse_text [OF st(4,3), of w2 "[]" f v0 collect] assms(5) by auto
qed

end
