(* ===== verification/Spec2Isabelle.thy ===== *)
theory Spec2Isabelle
  imports JME_UdpSession JME_Acceptor JME_Core JME_RpcClient JME_Encrypt Json_Styled
begin

text \<open>
  JMEngine is a framework for game servers in C++: asynchronous TCP and UDP sessions over boost.asio, a
  message format with a fixed header, remote procedure calls whose messages are protocol buffers, the
  threads that run all of it, and a block cipher. This development models these parts as functions
  and step relations and proves what they promise to each other and to their users.

  \<^bold>\<open>How the parts interact.\<close> The core (include/net/JME_Core.h) owns the threads. An acceptor makes a session
  of every incoming connection; a client session connects itself. A session reads from its socket into a
  receive buffer, takes complete messages out of it and posts them to the logic thread; it queues outgoing
  messages in a write buffer that the write handler empties. The RPC server is a handler of sessions: it
  parses a message as a call, runs the registered method and writes the reply. The RPC client keeps
  the outstanding calls, with a timer each where asked for, and hands a reply to the callback of its call.

  \<^bold>\<open>Conventions.\<close> The platform is little-endian LP64. The outer option of a result is undefined behaviour of
  C++ (an access outside a block, a null pointer, an overlapping \<open>memcpy\<close>, signed overflow): \<^term>\<open>None\<close>.
  Errors that the code reports are values, and exceptions are \<open>Inl\<close> with the state they leave behind. A block of memory is
  a list of bytes and a pointer into it an offset. What the socket, the resolver, the timers or the
  allocator answer is an argument of the definition that asks, and theorems assume of it only the documented
  contract: a read stores at most the bytes it was offered, a write takes at most the bytes it was given, an
  allocation has the size asked for. Handlers and user calls are atomic steps, as the mutexes and the
  single network thread make them; their order is arbitrary.

  \<^bold>\<open>Theories\<close>, with the sources they model under src/:

  \<^item> \<open>JME_Prelude\<close>: conversions between integer types, blocks of memory and the C functions on them,
    little-endian fields; the collections \<open>cint_simps\<close> and \<open>mem_simps\<close>.
  \<^item> \<open>JME_Message\<close> (include/net/JME_Message.h): the packed header, the constructors and \<open>Message::create\<close>. Its
    lemmas give the wire format \<open>encode\<close> of a well-formed message and the round trip.
  \<^item> \<open>JME_ReadBuffer\<close> (include/net/JME_ReadBuffer.h): the receive buffer as a record of block and offsets. The
    specification is a byte stream cut into frames (\<open>next_frame\<close>, \<open>stream_frames\<close>); \<open>unread\<close> is the abstraction function. The locale
    \<open>message_buffer\<close> is what a receiver relies on; \<open>rbuf\<close> interprets it, and \<open>drain\<close> and \<open>feed\<close> are the receive
    loops proved in it.
  \<^item> \<open>JME_TcpSession\<close> (include/net/JME_TcpSession.h, source/net/JME_TcpSession.cpp): the session as a record, one
    definition per handler and user call; \<open>tcp_step\<close> and \<open>tcp_run\<close> are its runs in every order. The lemmas show that each
    step keeps the invariant, what it does to the two byte streams, and which operations are pending. The
    locale \<open>message_sink\<close>, interpreted as \<open>session\<close>, is what the RPC layer relies on.
  \<^item> \<open>JME_UdpSession\<close>, \<open>JME_Acceptor\<close>, \<open>JME_Core\<close> (the files of the same names in source/net): datagrams, the accept loop, threads and the task queue.
  \<^item> \<open>Proto_Varint\<close>, \<open>Proto_CodedStream\<close>, \<open>Proto_WireFormat\<close> (include/google/protobuf: io/coded_stream.h, .cc and
    _inl.h, wire_format_lite.h, .cc and _inl.h, wire_format.cc, unknown_field_set.h and .cc): integers on the wire against the
    reference base 128 (\<open>leb128\<close>, \<open>vlen\<close>, \<open>vval\<close>), the input stream over an array and over blocks with
    its limits, the scalar fields, and skipping and writing back unknown fields.
  \<^item> \<open>JME_RpcPb\<close> (source/rpc/JME_RpcPb.cpp, include/rpc/JME_RpcPb.h, include/google/protobuf/message_lite.cc): the generated message of a call, every accessor, parsing and serialising.
  \<^item> \<open>JME_RpcHandler\<close>, \<open>JME_RpcServer\<close>, \<open>JME_RpcClient\<close> (the files of the same names in source/rpc): the table of methods
    behind the locale \<open>method_table\<close>, the server's handlers, and the client with its calls and timers; \<open>client_step\<close> is the
    client in every order of calls, replies, time-outs and changes of its session.
  \<^item> \<open>JME_BlowfishTables\<close>, \<open>JME_Encrypt\<close> (source/util/JME_Encrypt.cpp, include/util/JME_Encrypt.h): the boxes, key
    schedule, rounds, the three modes behind the locale \<open>cipher_mode\<close>, and the functions on strings.
  \<^item> This theory: a call from end to end, through both sessions' byte streams.

  \<^bold>\<open>What is shown.\<close> Integrity of both directions of a session along every run and of two sessions connected by a
  network; refinement of the receive buffer to framing of a byte stream; reassembly however the network cuts the
  stream; safety of every handler against every answer of the socket; the pending operations and the progress of a
  write; the round trips of messages, varints, scalar fields, unknown fields, RPC messages and the cipher; that parsing
  returns on every input without leaving it; that a call runs its method once and its callback with the reply, at most
  once, and is not reported dead once it was answered in time; the accept loop, the threads and the task queue; and,
  where the code falls short of this, theorems that say exactly how: a full receive buffer that stalls, a stopped
  session that swallows messages, a truncated call that is executed, a late reply that runs both handlers, a refused
  call that stays registered, a client created with its buffer size and its reconnect interval exchanged, a UDP write without a
  check, an encryption that reads past its input.

  \<^bold>\<open>Fuel.\<close> Five recursions carry fuel. \<open>drain\<close> is given one more than the unread bytes, and every message takes at least a
  header out of them (\<open>drain_stream\<close>). \<open>MergePartialFromCodedStream\<close> and \<open>SkipMessage\<close> are given one more than the bytes of
  the stream, and every field takes at least one byte of it; nesting of groups is bounded by the recursion limit of
  the stream, as in the code (\<open>merge_total\<close>, \<open>skip_total\<close>). \<open>read_bytes\<close> and \<open>refill\<close> count the refreshes of a stream and are given two more than
  the blocks left in it; over an array, which is what the RPC layer reads, one is enough (\<open>flat_read_bytes\<close>, \<open>flat_refill\<close>). All other
  loops are total functions with termination proofs.

  \<^bold>\<open>Not modelled.\<close> The log, the database pool over the MySQL client, the vendored JsonCpp and nedmalloc, the string conversions through
  iconv, and of protocol buffers the descriptors, reflection, the text format, floating-point fields and
  the writers onto an output stream: the RPC layer does not depend on them. Destructors that only free memory,
  and log lines, have no counterpart.
\<close>

section \<open>A call from end to end\<close>

text \<open>
  The way of bytes from one process to the other: the network cuts them into receptions, and the receive
  loop of \<open>handleRead\<close> makes messages of them, in a receive buffer of its own.
\<close>

definition carry :: "(block \<Rightarrow> block list) \<Rightarrow> block \<Rightarrow> block \<Rightarrow> (Message list \<times> bool \<times> ReadBuffer) option" where
  "carry chop mem bs = feed rb_receive (\<lambda>rb. drain (Suc (length (unread rb))) rb_take rb) (ReadBuffer_new mem) (chop bs)"

lemma carry_message:
  assumes "length mem < 2 ^ 31" "W + L + length mem div 2 \<le> length mem" "wf_msg m" "length (encode m) \<le> L"
    and "\<forall>bs. concat (chop bs) = bs \<and> (\<forall>c\<in>set (chop bs). length c \<le> W)"
  shows "\<exists>rb. carry chop mem (encode m) = Some ([m], False, rb)"
proof -
  have L: "0 < L" using assms(3,4) wf_msg_encode [OF assms(3)] by (simp add: MessageHeaderLength_def)
  have "\<exists>rb. carry chop mem (encode m) = Some ([m], False, rb) \<and> rb_inv rb \<and> unread rb = []"
    unfolding carry_def
  proof (rule rbuf.feed_messages [where W = W and L = L and C = "length mem"])
    show "W \<le> getAvailableBufferSize (ReadBuffer_new mem)"
      using assms(2) by (simp add: getAvailableBufferSize_def ReadBuffer_new_def)
    show "next_frame (unread (ReadBuffer_new mem)) = Incomplete"
      by (simp add: next_frame_def announced_def MessageHeaderLength_def)
    show "rb_buffSize (ReadBuffer_new mem) = length mem"
      by (simp add: ReadBuffer_new_def)
    show "0 < L" by (rule L)
  qed (use assms rb_inv_new in auto)
  then show ?thesis by blast
qed

lemma call_id: "0 \<le> i \<Longrightarrow> i < INT_MAX \<Longrightarrow> sint (word_of_int (i + 1) :: 32 word) = i + 1"
  using sint_of_nat32 [of "nat (i + 1)"] by (simp add: INT_MAX_def)

lemma call_queued:
  assumes c: "client_inv c" "methodId c < INT_MAX" and s: "cl_session c = Some s" "tcp_inv s" "isOk s" "socket_open s"
    and room: "outgoing s = []" "length x + length p + 47 \<le> writeBufferSize s" and small: "small_call x p"
  shows "\<exists>s1 i. callRpcMethod_cb debug x p cb c = Some (True, (registered cb c)\<lparr>cl_session := Some s1\<rparr>)
    \<and> sint i = methodId c + 1 \<and> outgoing s1 = encode (rpc_wire i x p)"
proof -
  obtain i :: "32 word" where i: "word_of_int (methodId (registered cb c)) = i" by blast
  have "sint i = methodId c + 1"
    using call_id [OF client_inv_nonneg [OF c(1)] c(2)] i by (simp add: registered_def)
  moreover obtain r s1 where "send_call debug x p (registered cb c) = Some (r, (registered cb c)\<lparr>cl_session := Some s1\<rparr>)"
      "r \<longleftrightarrow> length (outgoing s) + length (encode (rpc_wire i x p)) \<le> writeBufferSize s"
      "outgoing s1 = outgoing s @ (if r \<and> socket_open s then encode (rpc_wire i x p) else [])"
    using send_call_queues [OF small, of "registered cb c" s debug] s unfolding i by (auto simp: registered_def)
  ultimately show ?thesis
    using call_cb_eq [OF c(1) s(1), of debug x p cb] c(2) s room rpc_wire_ok(3) [OF small, of i] by auto
qed

lemma reply_queued:
  assumes server: "tcp_inv t" "isOk t" "socket_open t" "outgoing t = []" "length x + length reply + 47 \<le> writeBufferSize t"
    and exec: "execRpcHandler x p handlers w = (Some reply, w')" and small: "small_call x p" "small_call x reply"
  shows "\<exists>t1. RpcSession_sessionReceiveMessage debug handlers (rpc_wire i x p) t w = Some (t1, w')
    \<and> outgoing t1 = encode (rpc_wire i x reply)"
proof -
  obtain m2 where m2: "ParseFromString (SerializeWithCachedSizesToArray (rpc_message i x p)) jme_rpc_new = Some (True, m2)"
      "rpc_id m2 = i" "method_of m2 = x" "params_of m2 = p"
    using rpc_message_roundtrip [OF small(1), of debug i jme_rpc_new] by blast
  then show ?thesis
    using server_reply_queued [OF rpc_wire_ok(2) [OF small(1)] m2(1), of handlers w reply w' t debug] server exec small by auto
qed

text \<open>
  C1 (composition). A call of a connected client goes through to its callback: the client queues it and
  says so, the server's session takes it out of the byte stream, however the network cuts it, runs the
  registered method once with the name and the parameters of the call and queues the reply, and the
  client's session takes the reply out of its byte stream and runs the callback of this call, and of no
  other, with what the method returned.
\<close>

theorem rpc_end_to_end:
  assumes client: "client_inv c" "methodId c < INT_MAX" "cl_session c = Some s" "tcp_inv s" "isOk s" "socket_open s"
      "outgoing s = []" "length x + length p + 47 \<le> writeBufferSize s"
    and server: "tcp_inv t" "isOk t" "socket_open t" "outgoing t = []" "length x + length reply + 47 \<le> writeBufferSize t"
    and exec: "execRpcHandler x p handlers w = (Some reply, w')"
    and small: "small_call x p" "small_call x reply"
    and network: "length mem < 2 ^ 31" "W + L + length mem div 2 \<le> length mem"
      "\<forall>bs. concat (chop bs) = bs \<and> (\<forall>b\<in>set (chop bs). length b \<le> W)"
      "length x + length p + 47 \<le> L" "length x + length reply + 47 \<le> L"
  shows "\<exists>c1 s1 call rb t1 answer rb' c2. callRpcMethod_cb debug x p cb c = Some (True, c1) \<and> cl_session c1 = Some s1
    \<and> carry chop mem (outgoing s1) = Some ([call], False, rb)
    \<and> RpcSession_sessionReceiveMessage debug handlers call t w = Some (t1, w')
    \<and> carry chop mem (outgoing t1) = Some ([answer], False, rb')
    \<and> sessionReceiveMessage answer c1 = Some c2
    \<and> events c2 = events c @ [Response (methodId c + 1) cb reply] \<and> cbs c2 = cbs c"
proof -
  obtain s1 i where call: "callRpcMethod_cb debug x p cb c = Some (True, (registered cb c)\<lparr>cl_session := Some s1\<rparr>)"
      and i: "sint i = methodId c + 1" and s1: "outgoing s1 = encode (rpc_wire i x p)"
    using call_queued [OF client small(1)] by blast
  have wire: "wf_msg (rpc_wire i x p)" "wf_msg (rpc_wire i x reply)" "length (encode (rpc_wire i x p)) \<le> L"
      "length (encode (rpc_wire i x reply)) \<le> L"
    using rpc_wire_ok(1,3) small network(4,5) le_trans by blast+
  obtain rb rb' where carried: "carry chop mem (encode (rpc_wire i x p)) = Some ([rpc_wire i x p], False, rb)"
      "carry chop mem (encode (rpc_wire i x reply)) = Some ([rpc_wire i x reply], False, rb')"
    using carry_message [OF network(1,2) wire(1,3) network(3)] carry_message [OF network(1,2) wire(2,4) network(3)] by blast
  obtain t1 where t1: "RpcSession_sessionReceiveMessage debug handlers (rpc_wire i x p) t w = Some (t1, w')"
      "outgoing t1 = encode (rpc_wire i x reply)"
    using reply_queued [OF server exec small] by blast
  have "sessionReceiveMessage (rpc_wire i x reply) ((registered cb c)\<lparr>cl_session := Some s1\<rparr>)
      = Some ((registered cb c)\<lparr>cl_session := Some s1, cbs := cbs c, events := events c @ [Response (methodId c + 1) cb reply]\<rparr>)"
    using receive_reply [OF small(2), of "(registered cb c)\<lparr>cl_session := Some s1\<rparr>" i "RpcCallback_create cb"]
      fresh_call [OF client(1)] by (simp add: RpcCallback_create_def release_def registered_def i fun_upd_idem)
  with call s1 carried t1 show ?thesis by fastforce
qed

theorem rpc_end_to_end_witness:
  "let s = (TcpSession_new [] (replicate 100 0) 0 0)\<lparr>status := Connected, socket_open := True\<rparr>;
       c = \<lparr>cl_session = Some s, methodId = 6, cbs = Map.empty, timers = [], events = []\<rparr>;
       handlers = [[0x61] \<mapsto> (\<lambda>p w. (Some (rev p), Suc w))] in
   \<exists>c1 s1 call rb t1 answer rb' c2. callRpcMethod_cb True [0x61] [1, 2] 3 c = Some (True, c1) \<and> cl_session c1 = Some s1
     \<and> carry (map (\<lambda>b. [b])) (replicate 200 0) (outgoing s1) = Some ([call], False, rb)
     \<and> RpcSession_sessionReceiveMessage True handlers call s (0 :: nat) = Some (t1, 1)
     \<and> carry (map (\<lambda>b. [b])) (replicate 200 0) (outgoing t1) = Some ([answer], False, rb')
     \<and> sessionReceiveMessage answer c1 = Some c2 \<and> events c2 = [Response 7 3 [2, 1]] \<and> cbs c2 = Map.empty"
proof -
  let ?s = "(TcpSession_new [] (replicate 100 0) 0 0)\<lparr>status := Connected, socket_open := True\<rparr>"
  let ?c = "\<lparr>cl_session = Some ?s, methodId = 6, cbs = Map.empty, timers = [], events = []\<rparr>"
  let ?handlers = "[[0x61] \<mapsto> (\<lambda>p w. (Some (rev p), Suc w))]"
  have inv: "tcp_inv ?s" using tcp_inv_new [of "[]" "replicate 100 0"] by simp
  have s: "isOk ?s" "socket_open ?s" "outgoing ?s = []" "writeBufferSize ?s = 100"
    by (simp_all add: isOk_def TcpSession_new_def outgoing_def)
  have c: "client_inv ?c" by (simp add: client_inv_def calls_inv_def timers_inv_def events_inv_def)
  have exec: "execRpcHandler [0x61] [1, 2] ?handlers 0 = (Some [2, 1], 1)" by (simp add: execRpcHandler_def)
  have chop: "\<forall>bs :: block. concat (map (\<lambda>b. [b]) bs) = bs \<and> (\<forall>b\<in>set (map (\<lambda>b. [b]) bs). length b \<le> 1)" by simp
  show ?thesis
    using rpc_end_to_end [OF c _ _ inv s(1-3) _ inv s(1-3) _ exec _ _ _ _ chop, of "replicate 200 0" 60 True 3]
    unfolding Let_def s(4) by (simp add: INT_MAX_def)
qed

end
